(* ===== verification/Prelude.thy ===== *)
theory Prelude
  imports Main "HOL-Library.Word" "HOL-Library.Multiset" "HOL-Library.AList"
    "HOL-Library.List_Lexorder" "HOL-Library.Char_ord"
begin

text \<open>
  What every theory of the development shares.

  \<^item> The machine types: the unsigned integers of Go at their width, byte strings, and
    \<^verbatim>\<open>time.Duration\<close> and \<^verbatim>\<open>time.Time\<close> as integers counting nanoseconds. An instant counts from
    the zero \<^verbatim>\<open>time.Time\<close> (January 1 of the year 1), so \<^verbatim>\<open>IsZero\<close> is equality with 0.
  \<^item> Go's built-in maps, as association lists without repeated keys. The order of the list
    stands for one iteration order, which Go leaves open: what a property says of a loop over a
    map it says for every order (\<open>gm_same\<close>).
  \<^item> Lemmas on lists the components share, most of all on \<open>lastn\<close>, the last entries of a list,
    which is what the ring buffers keep.
\<close>

section \<open>Collections of facts\<close>

named_theorems frame_simps \<open>what an operation leaves unchanged\<close>
named_theorems inv_intros \<open>an operation keeps its invariant\<close>

section \<open>Machine types\<close>

type_synonym u8 = "8 word"
type_synonym u16 = "16 word"
type_synonym u32 = "32 word"
type_synonym u64 = "64 word"
type_synonym i64 = "64 word"
type_synonym bytes = "u8 list"

type_synonym duration = int
type_synonym instant = int

abbreviation (input) millisecond :: duration where "millisecond \<equiv> 1000000"
abbreviation (input) second :: duration where "second \<equiv> 1000000000"
abbreviation (input) minute :: duration where "minute \<equiv> 60000000000"
abbreviation (input) hour :: duration where "hour \<equiv> 3600000000000"

abbreviation (input) max_duration :: duration where "max_duration \<equiv> 9223372036854775807"
abbreviation (input) min_duration :: duration where "min_duration \<equiv> -9223372036854775808"

definition in_int64 :: "int \<Rightarrow> bool" where
  "in_int64 x \<longleftrightarrow> min_duration \<le> x \<and> x \<le> max_duration"

text \<open>\<^verbatim>\<open>Time.IsZero\<close>, and \<^verbatim>\<open>Time.Sub\<close>, which saturates at the ends of \<^verbatim>\<open>time.Duration\<close>.\<close>

definition is_zero_time :: "instant \<Rightarrow> bool" where
  "is_zero_time t \<longleftrightarrow> t = 0"

definition time_sub :: "instant \<Rightarrow> instant \<Rightarrow> duration" where
  "time_sub a b = max min_duration (min max_duration (a - b))"

lemma time_sub_in_range: "in_int64 (a - b) \<Longrightarrow> time_sub a b = a - b"
  by (simp add: time_sub_def in_int64_def)

lemma time_sub_nonneg: "b \<le> a \<Longrightarrow> 0 \<le> time_sub a b"
  by (simp add: time_sub_def)

lemma time_sub_gt_iff: "0 \<le> d \<Longrightarrow> d < max_duration \<Longrightarrow> d < time_sub a b \<longleftrightarrow> d < a - b"
  by (auto simp: time_sub_def)

section \<open>The last entries of a list\<close>

definition lastn :: "nat \<Rightarrow> 'a list \<Rightarrow> 'a list" where
  "lastn n xs = drop (length xs - n) xs"

lemma length_lastn [simp]: "length (lastn n xs) = min n (length xs)"
  by (simp add: lastn_def)

lemma lastn_all [simp]: "length xs \<le> n \<Longrightarrow> lastn n xs = xs"
  by (simp add: lastn_def)

lemma lastn_Nil [simp]: "lastn n [] = []"
  by (simp add: lastn_def)

lemma set_lastn_subset: "set (lastn n xs) \<subseteq> set xs"
  by (simp add: lastn_def set_drop_subset)

lemma lastn_append_lastn: "lastn n (lastn n xs @ ys) = lastn n (xs @ ys)"
proof -
  have "xs @ ys = take (length xs - n) xs @ (lastn n xs @ ys)"
    by (simp add: lastn_def)
  then have "lastn n (xs @ ys) = lastn n (take (length xs - n) xs @ (lastn n xs @ ys))"
    by (rule arg_cong)
  also have "\<dots> = lastn n (lastn n xs @ ys)"
    by (cases "n \<le> length xs") (auto simp: lastn_def)
  finally show ?thesis by simp
qed

lemma lastn_snoc_full:
  "length xs = n \<Longrightarrow> 0 < n \<Longrightarrow> lastn n (xs @ [x]) = tl xs @ [x]"
  by (cases xs) (simp_all add: lastn_def)

lemma lastn_snoc_room: "length xs < n \<Longrightarrow> lastn n (xs @ [x]) = xs @ [x]"
  by simp

lemma last_in_lastn: "0 < n \<Longrightarrow> x \<in> set (lastn n (xs @ [x]))"
  by (simp add: lastn_def)

section \<open>Go maps\<close>

type_synonym ('k, 'v) gomap = "('k \<times> 'v) list"

definition gm_wf :: "('k, 'v) gomap \<Rightarrow> bool" where
  "gm_wf m \<longleftrightarrow> distinct (map fst m)"

text \<open>\<^verbatim>\<open>m[k]\<close> with the zero value for a key that is not there.\<close>

definition gm_get :: "'v \<Rightarrow> ('k, 'v) gomap \<Rightarrow> 'k \<Rightarrow> 'v" where
  "gm_get z m k = (case map_of m k of None \<Rightarrow> z | Some v \<Rightarrow> v)"

abbreviation gm_set :: "'k \<Rightarrow> 'v \<Rightarrow> ('k, 'v) gomap \<Rightarrow> ('k, 'v) gomap" where
  "gm_set \<equiv> AList.update"

abbreviation gm_del :: "'k \<Rightarrow> ('k, 'v) gomap \<Rightarrow> ('k, 'v) gomap" where
  "gm_del \<equiv> AList.delete"

text \<open>The same map, iterated in another order.\<close>

definition gm_same :: "('k, 'v) gomap \<Rightarrow> ('k, 'v) gomap \<Rightarrow> bool" where
  "gm_same m m' \<longleftrightarrow> mset m = mset m'"

lemma gm_wf_Nil [simp]: "gm_wf []"
  by (simp add: gm_wf_def)

lemma gm_wf_set [inv_intros]: "gm_wf m \<Longrightarrow> gm_wf (gm_set k v m)"
  by (simp add: gm_wf_def distinct_update)

lemma gm_wf_del [inv_intros]: "gm_wf m \<Longrightarrow> gm_wf (gm_del k m)"
  by (simp add: gm_wf_def distinct_delete)

lemma map_of_gm_set [simp]: "map_of (gm_set k v m) = (map_of m)(k \<mapsto> v)"
  by (rule update_conv')

lemma map_of_gm_del [simp]: "map_of (gm_del k m) = (map_of m)(k := None)"
  by (rule delete_conv')

lemma gm_get_set [simp]: "gm_get z (gm_set k v m) k' = (if k' = k then v else gm_get z m k')"
  by (simp add: gm_get_def)

lemma gm_get_Nil [simp]: "gm_get z [] k = z"
  by (simp add: gm_get_def)

lemma gm_wf_set_iff: "gm_wf m \<Longrightarrow> (k, v) \<in> set m \<longleftrightarrow> map_of m k = Some v"
  by (simp add: gm_wf_def)

lemma gm_same_sym: "gm_same m m' \<Longrightarrow> gm_same m' m"
  by (simp add: gm_same_def)

lemma gm_same_set: "gm_same m m' \<Longrightarrow> set m = set m'"
  by (metis gm_same_def set_mset_mset)

lemma gm_same_wf: "gm_same m m' \<Longrightarrow> gm_wf m \<Longrightarrow> gm_wf m'"
  unfolding gm_same_def gm_wf_def
  by (metis mset_eq_imp_distinct_iff mset_map)

lemma gm_same_map_of: "gm_same m m' \<Longrightarrow> gm_wf m \<Longrightarrow> map_of m = map_of m'"
  using gm_same_set [of m m'] gm_same_wf [of m m'] unfolding gm_wf_def
  by (simp add: map_of_inject_set)

lemma gm_same_length: "gm_same m m' \<Longrightarrow> length m = length m'"
  by (metis gm_same_def size_mset)

lemma length_gm_set:
  "length (gm_set k v m) = (if k \<in> fst ` set m then length m else Suc (length m))"
  by (induction m) (auto split: if_splits)

lemma length_gm_del_le: "length (gm_del k m) \<le> length m"
  by (rule length_delete_le)

lemma gm_set_fresh: "k \<notin> fst ` set m \<Longrightarrow> gm_set k v m = m @ [(k, v)]"
  by (induction m) auto

lemma map_of_None_key: "map_of m k = None \<longleftrightarrow> k \<notin> fst ` set m"
  by (rule map_of_eq_None_iff)

lemma set_gm_set_subset: "set (gm_set k v m) \<subseteq> insert (k, v) (set m)"
  by (induction m) auto

lemma set_gm_del_subset: "set (gm_del k m) \<subseteq> set m"
  by (induction m) auto

lemma gm_wf_map_values [inv_intros]: "gm_wf m \<Longrightarrow> gm_wf (map (\<lambda>(k, v). (k, f k v)) m)"
  by (simp add: gm_wf_def comp_def case_prod_beta)

lemma gm_wf_filter [inv_intros]: "gm_wf m \<Longrightarrow> gm_wf (filter P m)"
  by (simp add: gm_wf_def distinct_map_filter)

lemma map_of_map_values:
  "map_of (map (\<lambda>(k, v). (k, f k v)) m) k = map_option (f k) (map_of m k)"
  by (induction m) auto

lemma map_of_filter_wf:
  "gm_wf m \<Longrightarrow> map_of (filter P m) k =
     (case map_of m k of None \<Rightarrow> None | Some v \<Rightarrow> if P (k, v) then Some v else None)"
proof (induction m)
  case Nil
  then show ?case by simp
next
  case (Cons kv m)
  obtain k' v' where kv: "kv = (k', v')" by (cases kv)
  with Cons.prems have wf: "gm_wf m" and fresh: "map_of m k' = None"
    by (auto simp: gm_wf_def map_of_None_key image_iff)
  show ?case
    using Cons.IH [OF wf] fresh by (auto simp: kv split: option.splits)
qed

end
