(* ===== verification/Go_Text.thy ===== *)
theory Go_Text
  imports Prelude
begin

text \<open>
  The functions of Go's \<^verbatim>\<open>strings\<close>, \<^verbatim>\<open>strconv\<close> and \<^verbatim>\<open>fmt\<close> that the program calls, on byte
  strings. They are exact for ASCII text, which is what the program handles (DNS names are
  escaped to ASCII by the DNS library); the Unicode case and space tables are not modelled.
\<close>

section \<open>strings\<close>

definition has_prefix :: "string \<Rightarrow> string \<Rightarrow> bool" where
  "has_prefix s p \<longleftrightarrow> take (length p) s = p"

definition has_suffix :: "string \<Rightarrow> string \<Rightarrow> bool" where
  "has_suffix s p \<longleftrightarrow> length p \<le> length s \<and> drop (length s - length p) s = p"

definition trim_prefix :: "string \<Rightarrow> string \<Rightarrow> string" where
  "trim_prefix s p = (if has_prefix s p then drop (length p) s else s)"

definition trim_suffix :: "string \<Rightarrow> string \<Rightarrow> string" where
  "trim_suffix s p = (if has_suffix s p then take (length s - length p) s else s)"

text \<open>White space: tab, line feed, vertical tab, form feed, carriage return, space.\<close>

definition is_space :: "char \<Rightarrow> bool" where
  "is_space c \<longleftrightarrow> c \<in> {CHR 0x09, CHR 0x0A, CHR 0x0B, CHR 0x0C, CHR 0x0D, CHR '' ''}"

definition trim_left :: "string \<Rightarrow> string" where
  "trim_left s = dropWhile is_space s"

definition trim_space :: "string \<Rightarrow> string" where
  "trim_space s = rev (trim_left (rev (trim_left s)))"

definition lower_char :: "char \<Rightarrow> char" where
  "lower_char c = (let n = of_char c :: nat in if 65 \<le> n \<and> n \<le> 90 then char_of (n + 32) else c)"

definition upper_char :: "char \<Rightarrow> char" where
  "upper_char c = (let n = of_char c :: nat in if 97 \<le> n \<and> n \<le> 122 then char_of (n - 32) else c)"

definition to_lower :: "string \<Rightarrow> string" where
  "to_lower s = map lower_char s"

definition to_upper :: "string \<Rightarrow> string" where
  "to_upper s = map upper_char s"

definition equal_fold :: "string \<Rightarrow> string \<Rightarrow> bool" where
  "equal_fold s t \<longleftrightarrow> to_lower s = to_lower t"

text \<open>\<^verbatim>\<open>strings.Split\<close> and \<^verbatim>\<open>strings.SplitN(s, sep, 2)\<close>, for a one-byte separator.\<close>

fun split_char :: "char \<Rightarrow> string \<Rightarrow> string list" where
  "split_char c [] = [[]]"
| "split_char c (x # xs) =
     (if x = c then [] # split_char c xs
      else (case split_char c xs of [] \<Rightarrow> [[x]] | y # ys \<Rightarrow> (x # y) # ys))"

definition split2 :: "char \<Rightarrow> string \<Rightarrow> string list" where
  "split2 c s =
     (if c \<in> set s then [takeWhile (\<lambda>x. x \<noteq> c) s, tl (dropWhile (\<lambda>x. x \<noteq> c) s)] else [s])"

definition join :: "string \<Rightarrow> string list \<Rightarrow> string" where
  "join sep xs = (case xs of [] \<Rightarrow> [] | x # ys \<Rightarrow> x @ concat (map (\<lambda>y. sep @ y) ys))"

fun contains_sub :: "string \<Rightarrow> string \<Rightarrow> bool" where
  "contains_sub [] sub = (sub = [])"
| "contains_sub (x # xs) sub = (has_prefix (x # xs) sub \<or> contains_sub xs sub)"

text \<open>\<^verbatim>\<open>strings.Fields\<close>: the maximal runs of bytes that are not white space.\<close>

function go_fields :: "string \<Rightarrow> string list" where
  "go_fields s =
     (let t = dropWhile is_space s in
      if t = [] then []
      else takeWhile (\<lambda>c. \<not> is_space c) t # go_fields (dropWhile (\<lambda>c. \<not> is_space c) t))"
  by pat_completeness auto
termination
proof (relation "measure length", goal_cases)
  case 1
  then show ?case by simp
next
  case (2 s t)
  then have "t \<noteq> []" "\<not> is_space (hd t)" by (auto simp: hd_dropWhile)
  then obtain c u where "t = c # u" "\<not> is_space c" by (cases t) auto
  then have "length (dropWhile (\<lambda>c. \<not> is_space c) t) < length t"
    by (simp add: length_dropWhile_le less_Suc_eq_le)
  moreover have "length t \<le> length s"
    using 2 by (simp add: length_dropWhile_le)
  ultimately show ?case by simp
qed

declare go_fields.simps [simp del]

subsection \<open>Lemmas\<close>

lemma has_prefix_iff: "has_prefix s p \<longleftrightarrow> (\<exists>t. s = p @ t)"
  by (metis append_eq_conv_conj append_take_drop_id has_prefix_def)

lemma trim_left_idem [simp]: "trim_left (trim_left s) = trim_left s"
  by (simp add: trim_left_def)

lemma trim_left_hd: "trim_left s \<noteq> [] \<Longrightarrow> \<not> is_space (hd (trim_left s))"
  by (simp add: trim_left_def hd_dropWhile)

lemma trim_left_fix: "s = [] \<or> \<not> is_space (hd s) \<Longrightarrow> trim_left s = s"
  by (cases s) (auto simp: trim_left_def)

lemma trim_space_Nil [simp]: "trim_space [] = []"
  by (simp add: trim_space_def trim_left_def)

text \<open>A string with no space at either end is its own trimming, and a trimming is one.\<close>

definition trimmed :: "string \<Rightarrow> bool" where
  "trimmed s \<longleftrightarrow> s = [] \<or> \<not> is_space (hd s) \<and> \<not> is_space (last s)"

lemma trim_space_trimmed: "trimmed s \<Longrightarrow> trim_space s = s"
  by (auto simp: trim_space_def trimmed_def trim_left_fix hd_rev)

lemma trimmed_trim_space: "trimmed (trim_space s)"
proof -
  define a where "a = trim_left s"
  define b where "b = trim_left (rev a)"
  have tb: "trim_space s = rev b" by (simp add: trim_space_def a_def b_def)
  show ?thesis
  proof (cases "b = []")
    case True
    then show ?thesis by (simp add: tb trimmed_def)
  next
    case False
    have hb: "\<not> is_space (hd b)" using False unfolding b_def by (rule trim_left_hd)
    obtain pre where pre: "rev a = pre @ b"
      unfolding b_def trim_left_def by (metis takeWhile_dropWhile_id)
    then have "a = rev b @ rev pre" by (metis rev_append rev_rev_ident)
    with False have "hd (rev b) = hd a" "a \<noteq> []" by auto
    with trim_left_hd [of s] a_def have "\<not> is_space (hd (rev b))" by simp
    with hb False show ?thesis by (simp add: tb trimmed_def last_rev)
  qed
qed

lemma trim_space_idem [simp]: "trim_space (trim_space s) = trim_space s"
  by (rule trim_space_trimmed [OF trimmed_trim_space])

lemma lower_char_idem [simp]: "lower_char (lower_char c) = lower_char c"
  by (auto simp: lower_char_def Let_def)

lemma to_lower_idem [simp]: "to_lower (to_lower s) = to_lower s"
  by (simp add: to_lower_def)

lemma to_lower_Nil_iff [simp]: "to_lower s = [] \<longleftrightarrow> s = []"
  by (simp add: to_lower_def)

lemma to_lower_append [simp]: "to_lower (s @ t) = to_lower s @ to_lower t"
  by (simp add: to_lower_def)

lemma split_char_nonempty [simp]: "split_char c s \<noteq> []"
  by (induction s) (auto split: list.splits)

lemma split_char_no_sep: "c \<notin> set s \<Longrightarrow> split_char c s = [s]"
  by (induction s) auto

lemma split_char_append_sep: "c \<notin> set s \<Longrightarrow> split_char c (s @ c # t) = s # split_char c t"
  by (induction s) (auto split: list.splits)

lemma split_char_join:
  "xs \<noteq> [] \<Longrightarrow> \<forall>x \<in> set xs. c \<notin> set x \<Longrightarrow> split_char c (join [c] xs) = xs"
proof (induction xs)
  case Nil
  then show ?case by simp
next
  case (Cons x xs)
  show ?case
  proof (cases xs)
    case Nil
    with Cons.prems show ?thesis by (simp add: join_def split_char_no_sep)
  next
    case (Cons y ys)
    then have "join [c] (x # xs) = x @ c # join [c] xs" by (simp add: join_def)
    with Cons.IH Cons.prems Cons show ?thesis by (simp add: split_char_append_sep)
  qed
qed

lemma split_char_no_sep_parts: "x \<in> set (split_char c s) \<Longrightarrow> c \<notin> set x"
  by (induction s arbitrary: x) (fastforce split: if_splits list.splits)+

lemma split2_append: "c \<notin> set s \<Longrightarrow> split2 c (s @ c # t) = [s, t]"
proof -
  assume a: "c \<notin> set s"
  then have "takeWhile (\<lambda>x. x \<noteq> c) (s @ c # t) = s" "dropWhile (\<lambda>x. x \<noteq> c) (s @ c # t) = c # t"
    by (induction s) auto
  then show ?thesis by (simp add: split2_def)
qed

end
