(* ===== verification/Go_Format.thy ===== *)
theory Go_Format
  imports Go_Text
begin

text \<open>
  \<^verbatim>\<open>fmt\<close> and \<^verbatim>\<open>strconv\<close>: decimal numbers both ways, quoted strings, and the strings of
  \<^verbatim>\<open>encoding/json\<close>. All are exact for ASCII text.
\<close>

section \<open>Decimal numbers\<close>

definition digit_char :: "nat \<Rightarrow> char" where
  "digit_char d = char_of (48 + d)"

definition is_digit :: "char \<Rightarrow> bool" where
  "is_digit c \<longleftrightarrow> 48 \<le> (of_char c :: nat) \<and> (of_char c :: nat) \<le> 57"

definition digit_val :: "char \<Rightarrow> nat" where
  "digit_val c = of_char c - 48"

text \<open>\<^verbatim>\<open>%d\<close>.\<close>

fun show_nat :: "nat \<Rightarrow> string" where
  "show_nat n = (if n < 10 then [digit_char n] else show_nat (n div 10) @ [digit_char (n mod 10)])"

declare show_nat.simps [simp del]

definition show_int :: "int \<Rightarrow> string" where
  "show_int i = (if i < 0 then ''-'' @ show_nat (nat (- i)) else show_nat (nat i))"

definition digits_val :: "string \<Rightarrow> nat" where
  "digits_val s = foldl (\<lambda>acc c. 10 * acc + digit_val c) 0 s"

text \<open>
  \<^verbatim>\<open>strconv.ParseUint(s, 10, w)\<close>: at least one digit, digits only, and a value below
  \<open>2 ^ w\<close>; anything else is an error (no sign, no underscore in base 10).
\<close>

definition parse_uint :: "nat \<Rightarrow> string \<Rightarrow> nat option" where
  "parse_uint w s =
     (if s \<noteq> [] \<and> list_all is_digit s \<and> digits_val s < 2 ^ w then Some (digits_val s) else None)"

text \<open>\<^verbatim>\<open>strconv.Atoi\<close>: an optional sign, then digits, within 64 bits.\<close>

definition atoi :: "string \<Rightarrow> int option" where
  "atoi s =
     (let neg = has_prefix s ''-'';
          t = (if neg \<or> has_prefix s ''+'' then tl s else s);
          v = (if neg then - int (digits_val t) else int (digits_val t))
      in if t \<noteq> [] \<and> list_all is_digit t \<and> in_int64 v then Some v else None)"

text \<open>\<^verbatim>\<open>strconv.ParseBool\<close>; the callers ignore its error and keep the \<open>False\<close> it comes with.\<close>

definition parse_bool :: "string \<Rightarrow> bool option" where
  "parse_bool s =
     (if s \<in> {''1'', ''t'', ''T'', ''TRUE'', ''true'', ''True''} then Some True
      else if s \<in> {''0'', ''f'', ''F'', ''FALSE'', ''false'', ''False''} then Some False
      else None)"

lemma of_char_digit_char: "d < 10 \<Longrightarrow> (of_char (digit_char d) :: nat) = 48 + d"
  by (simp add: digit_char_def of_char_of)

lemma is_digit_digit_char: "d < 10 \<Longrightarrow> is_digit (digit_char d)"
  by (simp add: is_digit_def of_char_digit_char)

lemma digit_val_digit_char: "d < 10 \<Longrightarrow> digit_val (digit_char d) = d"
  by (simp add: digit_val_def of_char_digit_char)

lemma show_nat_nonempty [simp]: "show_nat n \<noteq> []"
  by (subst show_nat.simps) simp

lemma show_nat_digits: "list_all is_digit (show_nat n)"
proof (induction n rule: show_nat.induct)
  case (1 n)
  then show ?case by (subst show_nat.simps) (simp add: is_digit_digit_char)
qed

lemma digits_val_snoc [simp]: "digits_val (s @ [c]) = 10 * digits_val s + digit_val c"
  by (simp add: digits_val_def)

lemma digits_val_show_nat [simp]: "digits_val (show_nat n) = n"
proof (induction n rule: show_nat.induct)
  case (1 n)
  show ?case
  proof (cases "n < 10")
    case True
    then show ?thesis
      by (subst show_nat.simps) (simp add: digits_val_def digit_val_digit_char)
  next
    case False
    with 1 show ?thesis
      by (subst show_nat.simps) (simp add: digit_val_digit_char)
  qed
qed

lemma parse_uint_show_nat: "n < 2 ^ w \<Longrightarrow> parse_uint w (show_nat n) = Some n"
  by (simp add: parse_uint_def show_nat_digits)

lemma parse_uint_bound: "parse_uint w s = Some n \<Longrightarrow> n < 2 ^ w"
  by (auto simp: parse_uint_def split: if_splits)

lemma inj_show_nat: "inj show_nat"
  by (metis digits_val_show_nat injI)

section \<open>Durations\<close>

text \<open>
  \<^verbatim>\<open>Duration.String\<close>: the fraction without trailing zeros (\<open>frac_digits\<close>, of the lowest \<open>p\<close> digits),
  in nanoseconds, microseconds or milliseconds below a second, and hours, minutes and seconds
  from there on. The micro sign takes two bytes.
\<close>

fun low_digits :: "nat \<Rightarrow> nat \<Rightarrow> string" where
  "low_digits 0 u = []"
| "low_digits (Suc p) u = low_digits p (u div 10) @ [digit_char (u mod 10)]"

lemma low_digits_numeral: "low_digits (numeral k) u = low_digits (pred_numeral k) (u div 10) @ [digit_char (u mod 10)]"
  by (metis low_digits.simps(2) numeral_eq_Suc)

definition frac_digits :: "nat \<Rightarrow> nat \<Rightarrow> string" where
  "frac_digits p u =
     (let ds = rev (dropWhile (\<lambda>c. c = CHR ''0'') (rev (low_digits p u)))
      in if ds = [] then [] else ''.'' @ ds)"

definition show_duration :: "duration \<Rightarrow> string" where
  "show_duration d =
     (let u = nat \<bar>d\<bar>; secs = u div 1000000000; mins = secs div 60; hours = mins div 60 in
      if u = 0 then ''0s''
      else (if d < 0 then ''-'' else []) @
        (if u < 1000 then show_nat u @ ''ns''
         else if u < 1000000 then show_nat (u div 1000) @ frac_digits 3 u @ [CHR 0xC2, CHR 0xB5, CHR ''s'']
         else if u < 1000000000 then show_nat (u div 1000000) @ frac_digits 6 u @ ''ms''
         else (if 0 < hours then show_nat hours @ ''h'' else []) @
              (if 0 < mins then show_nat (mins mod 60) @ ''m'' else []) @
              show_nat (secs mod 60) @ frac_digits 9 u @ ''s''))"

section \<open>Quoted strings\<close>

definition hex_char :: "nat \<Rightarrow> char" where
  "hex_char d = (if d < 10 then char_of (48 + d) else char_of (87 + d))"

text \<open>
  \<^verbatim>\<open>strconv.Quote\<close>: a backslash before a quote or a backslash, the seven letter escapes, and
  \<open>\x\<close> with two hexadecimal digits for the other bytes that do not print.
\<close>

definition quote_char :: "char \<Rightarrow> string" where
  "quote_char c =
     (let n = of_char c :: nat in
      if c = CHR 0x22 \<or> c = CHR 0x5C then [CHR 0x5C, c]
      else if n = 7 then [CHR 0x5C, CHR ''a'']
      else if n = 8 then [CHR 0x5C, CHR ''b'']
      else if n = 9 then [CHR 0x5C, CHR ''t'']
      else if n = 10 then [CHR 0x5C, CHR ''n'']
      else if n = 11 then [CHR 0x5C, CHR ''v'']
      else if n = 12 then [CHR 0x5C, CHR ''f'']
      else if n = 13 then [CHR 0x5C, CHR ''r'']
      else if n < 32 \<or> 127 \<le> n then [CHR 0x5C, CHR ''x'', hex_char (n div 16), hex_char (n mod 16)]
      else [c])"

definition quote :: "string \<Rightarrow> string" where
  "quote s = [CHR 0x22] @ concat (map quote_char s) @ [CHR 0x22]"

definition printable :: "char \<Rightarrow> bool" where
  "printable c \<longleftrightarrow> 32 \<le> (of_char c :: nat) \<and> (of_char c :: nat) < 127"

lemma printable_hex: "d < 16 \<Longrightarrow> printable (hex_char d)"
  by (auto simp: printable_def hex_char_def of_char_of)

lemma printable_quote_char: "list_all printable (quote_char c)"
proof -
  define n where "n = (of_char c :: nat)"
  have n: "n < 256" by (simp add: n_def)
  have h: "printable (hex_char (n div 16))" "printable (hex_char (n mod 16))"
    using n by (auto intro!: printable_hex)
  have l: "printable (CHR 0x5C)" "printable (CHR 0x22)" "printable (CHR ''x'')"
    "printable (CHR ''a'')" "printable (CHR ''b'')" "printable (CHR ''t'')" "printable (CHR ''n'')"
    "printable (CHR ''v'')" "printable (CHR ''f'')" "printable (CHR ''r'')"
    by (simp_all add: printable_def)
  show ?thesis
  proof (cases "c = CHR 0x22 \<or> c = CHR 0x5C")
    case True
    with l show ?thesis by (auto simp: quote_char_def)
  next
    case False
    with h l show ?thesis by (auto simp: quote_char_def Let_def n_def printable_def [of c])
  qed
qed

section \<open>JSON strings\<close>

text \<open>
  The string encoding of \<^verbatim>\<open>encoding/json\<close> with its HTML escaping on: \<open>"\<close> and the backslash
  are escaped by a backslash, line feed, carriage return, tab, backspace and form feed have
  letters, and the other control bytes and \<open><\<close>, \<open>>\<close>, \<open>&\<close> are written \<open>\u00XX\<close>.
\<close>

definition json_char :: "char \<Rightarrow> string" where
  "json_char c =
     (let n = of_char c :: nat in
      if c = CHR 0x22 \<or> c = CHR 0x5C then [CHR 0x5C, c]
      else if n = 8 then [CHR 0x5C, CHR ''b'']
      else if n = 9 then [CHR 0x5C, CHR ''t'']
      else if n = 10 then [CHR 0x5C, CHR ''n'']
      else if n = 12 then [CHR 0x5C, CHR ''f'']
      else if n = 13 then [CHR 0x5C, CHR ''r'']
      else if n < 32 \<or> c \<in> {CHR ''<'', CHR ''>'', CHR ''&''}
        then [CHR 0x5C, CHR ''u'', CHR ''0'', CHR ''0'', hex_char (n div 16), hex_char (n mod 16)]
      else [c])"

definition json_string :: "string \<Rightarrow> string" where
  "json_string s = [CHR 0x22] @ concat (map json_char s) @ [CHR 0x22]"

section \<open>Evaluating on concrete text\<close>

lemmas text_eval =
  has_prefix_def has_suffix_def trim_prefix_def trim_suffix_def is_space_def trim_left_def
  trim_space_def lower_char_def upper_char_def to_lower_def to_upper_def equal_fold_def
  split2_def join_def show_nat.simps show_int_def digit_char_def is_digit_def digit_val_def
  digits_val_def parse_uint_def char_of_def bit_Suc_0_iff Let_def

end
