(* ===== verification/Go_Sort.thy ===== *)
theory Go_Sort
  imports Prelude
begin

text \<open>
  \<^verbatim>\<open>sort.Slice\<close> with a \<open>lt\<close> function. The standard library promises a sorted permutation
  and nothing about the order of elements that are equal under \<open>lt\<close>
  (\<open>is_sort_slice\<close>). \<open>go_sort\<close> is one such result, computed by insertion; the locale
  \<open>sort_less_total\<close> shows that it is the only one when no two elements are equal, so a caller
  with such a \<open>lt\<close> gets the same result from every sorting algorithm.
\<close>

definition is_sort_slice :: "('a \<Rightarrow> 'a \<Rightarrow> bool) \<Rightarrow> 'a list \<Rightarrow> 'a list \<Rightarrow> bool" where
  "is_sort_slice lt xs ys \<longleftrightarrow>
     mset ys = mset xs \<and> sorted_wrt (\<lambda>a b. \<not> lt b a) ys"

fun sort_insert :: "('a \<Rightarrow> 'a \<Rightarrow> bool) \<Rightarrow> 'a \<Rightarrow> 'a list \<Rightarrow> 'a list" where
  "sort_insert lt x [] = [x]"
| "sort_insert lt x (y # ys) =
     (if lt y x then y # sort_insert lt x ys else x # y # ys)"

definition go_sort :: "('a \<Rightarrow> 'a \<Rightarrow> bool) \<Rightarrow> 'a list \<Rightarrow> 'a list" where
  "go_sort lt xs = foldr (sort_insert lt) xs []"

lemma mset_sort_insert [simp]: "mset (sort_insert lt x ys) = add_mset x (mset ys)"
  by (induction ys) auto

lemma set_sort_insert [simp]: "set (sort_insert lt x ys) = insert x (set ys)"
  by (induction ys) auto

lemma go_sort_Nil [simp]: "go_sort lt [] = []"
  by (simp add: go_sort_def)

lemma go_sort_Cons [simp]: "go_sort lt (x # xs) = sort_insert lt x (go_sort lt xs)"
  by (simp add: go_sort_def)

lemma mset_go_sort [simp]: "mset (go_sort lt xs) = mset xs"
  by (induction xs) auto

lemma set_go_sort [simp]: "set (go_sort lt xs) = set xs"
  by (metis mset_go_sort set_mset_mset)

lemma length_go_sort [simp]: "length (go_sort lt xs) = length xs"
  by (metis mset_go_sort size_mset)

text \<open>What a \<open>lt\<close> function must satisfy for \<^verbatim>\<open>sort.Slice\<close>: a strict weak order.\<close>

locale sort_less =
  fixes lt :: "'a \<Rightarrow> 'a \<Rightarrow> bool"
  assumes lt_asym: "lt a b \<Longrightarrow> \<not> lt b a"
    and lt_weak: "\<not> lt a b \<Longrightarrow> \<not> lt b c \<Longrightarrow> \<not> lt a c"
begin

lemma sorted_sort_insert:
  "sorted_wrt (\<lambda>a b. \<not> lt b a) ys \<Longrightarrow> sorted_wrt (\<lambda>a b. \<not> lt b a) (sort_insert lt x ys)"
proof (induction ys)
  case Nil
  then show ?case by simp
next
  case (Cons y ys)
  show ?case
  proof (cases "lt y x")
    case True
    with Cons show ?thesis by (auto dest: lt_asym)
  next
    case False
    with Cons.prems have "\<forall>z \<in> set ys. \<not> lt z x" by (auto dest: lt_weak)
    with False Cons.prems show ?thesis by simp
  qed
qed

lemma go_sort_sorted: "sorted_wrt (\<lambda>a b. \<not> lt b a) (go_sort lt xs)"
  by (induction xs) (simp_all add: sorted_sort_insert)

lemma go_sort_is_sort_slice: "is_sort_slice lt xs (go_sort lt xs)"
  by (simp add: is_sort_slice_def go_sort_sorted)

text \<open>Cutting a sorted list: whatever is cut off does not come before what stays.\<close>

lemma sorted_take_rest:
  assumes "sorted_wrt (\<lambda>a b. \<not> lt b a) ys" and "a \<in> set (take n ys)" and "b \<in> set (drop n ys)"
  shows "\<not> lt b a"
proof -
  have "sorted_wrt (\<lambda>a b. \<not> lt b a) (take n ys @ drop n ys)"
    using assms(1) by simp
  with assms(2,3) show ?thesis
    unfolding sorted_wrt_append by blast
qed

end

text \<open>A \<open>lt\<close> that tells any two different elements apart: the result is determined.\<close>

locale sort_less_total = sort_less +
  assumes lt_total: "a \<noteq> b \<Longrightarrow> lt a b \<or> lt b a"
begin

lemma sorted_unique:
  assumes "sorted_wrt (\<lambda>a b. \<not> lt b a) xs" and "sorted_wrt (\<lambda>a b. \<not> lt b a) ys"
    and "mset xs = mset ys"
  shows "xs = ys"
  using assms
proof (induction xs arbitrary: ys)
  case Nil
  then show ?case by simp
next
  case (Cons x xs)
  then obtain y ys' where ys: "ys = y # ys'" by (cases ys) auto
  have "x = y"
  proof (rule ccontr)
    assume ne: "x \<noteq> y"
    have "x \<in> set ys'" "y \<in> set xs"
      using Cons.prems(3) ne ys by (metis insert_iff list.set(2) mset_eq_setD)+
    with Cons.prems(1,2) ys have "\<not> lt y x" "\<not> lt x y" by auto
    with lt_total ne show False by blast
  qed
  with Cons ys show ?case by auto
qed

lemma is_sort_slice_unique: "is_sort_slice lt xs ys \<longleftrightarrow> ys = go_sort lt xs"
  using sorted_unique go_sort_sorted by (auto simp: is_sort_slice_def)

lemma go_sort_cong: "mset xs = mset ys \<Longrightarrow> go_sort lt xs = go_sort lt ys"
  by (rule sorted_unique) (simp_all add: go_sort_sorted)

end

text \<open>\<^verbatim>\<open>sort.Strings\<close> is \<^verbatim>\<open>sort.Slice\<close> with the byte order of strings, which is total.\<close>

definition string_less :: "string \<Rightarrow> string \<Rightarrow> bool" where
  "string_less a b \<longleftrightarrow> a < b"

interpretation string_order: sort_less_total string_less
  by unfold_locales (auto simp: string_less_def)

end
