(* ===== verification/Stats.thy ===== *)
theory Stats
  imports Go_Format Go_Sort
begin

text \<open>
  \<^verbatim>\<open>internal/stats/stats.go\<close>: the process-wide counters (\<^verbatim>\<open>expvar.Map\<close> "dnss") and the
  per-domain query counts, with the two one-line reports. Counters are 64-bit and wrap.
  \<^verbatim>\<open>expvar\<close>'s registry and the clock are the environment: a report takes the public variables
  (name and rendered value) and the formatted time as arguments.
\<close>

section \<open>State\<close>

record stats_state =
  counters :: "(string, i64) gomap"
  domain_counts :: "(string, i64) gomap"

definition empty_stats :: stats_state where
  "empty_stats = \<lparr>counters = [], domain_counts = []\<rparr>"

definition stats_add :: "string \<Rightarrow> i64 \<Rightarrow> stats_state \<Rightarrow> stats_state" where
  "stats_add name delta st =
     st\<lparr>counters := gm_set name (gm_get 0 (counters st) name + delta) (counters st)\<rparr>"

definition stats_inc :: "string \<Rightarrow> stats_state \<Rightarrow> stats_state" where
  "stats_inc name st = stats_add name 1 st"

definition counter :: "stats_state \<Rightarrow> string \<Rightarrow> i64" where
  "counter st name = gm_get 0 (counters st) name"

lemma counter_stats_inc [simp]:
  "counter (stats_inc n st) m = (if m = n then counter st m + 1 else counter st m)"
  by (simp add: counter_def stats_inc_def stats_add_def)

lemma domain_counts_stats_inc [simp]: "domain_counts (stats_inc n st) = domain_counts st"
  by (simp add: stats_inc_def stats_add_def)

section \<open>Domain queries\<close>

text \<open>
  \<^verbatim>\<open>RecordDomainQuery\<close>, in two parts: the key a name is counted under (none for a blank name),
  and the increment.
\<close>

definition domain_key :: "string \<Rightarrow> string option" where
  "domain_key name =
     (let name = to_lower (trim_space name) in
      if name = [] then None
      else (let name = trim_suffix name ''.'' in
            if name = [] then Some ''.'' else Some name))"

definition record_domain_query :: "string \<Rightarrow> stats_state \<Rightarrow> stats_state" where
  "record_domain_query name st =
     (case domain_key name of
        None \<Rightarrow> st
      | Some k \<Rightarrow>
          st\<lparr>domain_counts := gm_set k (gm_get 0 (domain_counts st) k + 1) (domain_counts st)\<rparr>)"

definition domain_count_of :: "stats_state \<Rightarrow> string \<Rightarrow> i64" where
  "domain_count_of st k = gm_get 0 (domain_counts st) k"

lemma counters_record_domain_query [simp]: "counters (record_domain_query n st) = counters st"
  by (simp add: record_domain_query_def split: option.splits)

lemma counter_record_domain_query [simp]: "counter (record_domain_query n st) m = counter st m"
  by (simp add: counter_def)

lemma gm_wf_record_domain_query [inv_intros]:
  "gm_wf (domain_counts st) \<Longrightarrow> gm_wf (domain_counts (record_domain_query n st))"
  by (simp add: record_domain_query_def gm_wf_set split: option.splits)

lemma domain_count_of_record:
  "domain_count_of (record_domain_query n st) k =
     (if domain_key n = Some k then domain_count_of st k + 1 else domain_count_of st k)"
  by (auto simp: record_domain_query_def domain_count_of_def split: option.splits)

text \<open>All the queries of a run, in order.\<close>

definition record_all :: "string list \<Rightarrow> stats_state \<Rightarrow> stats_state" where
  "record_all names st = fold record_domain_query names st"

lemma gm_wf_record_all [inv_intros]:
  "gm_wf (domain_counts st) \<Longrightarrow> gm_wf (domain_counts (record_all ns st))"
  unfolding record_all_def
  by (induction ns arbitrary: st) (simp_all add: gm_wf_record_domain_query)

text \<open>The names that should be counted together, stated without the code's steps.\<close>

definition names_domain :: "string \<Rightarrow> string \<Rightarrow> bool" where
  "names_domain n k \<longleftrightarrow>
     (let t = to_lower (trim_space n) in
      k \<noteq> [] \<and> t = k @ ''.'' \<or> k \<noteq> [] \<and> t = k \<and> last k \<noteq> CHR ''.'' \<or> k = ''.'' \<and> t = ''.'')"

lemma domain_key_iff: "domain_key n = Some k \<longleftrightarrow> names_domain n k"
proof -
  define t where "t = to_lower (trim_space n)"
  show ?thesis
  proof (cases t rule: rev_cases)
    case Nil
    then show ?thesis by (auto simp: domain_key_def names_domain_def Let_def t_def to_lower_def)
  next
    case (snoc u c)
    have suf: "has_suffix t ''.'' \<longleftrightarrow> c = CHR ''.''" by (simp add: has_suffix_def snoc)
    then show ?thesis
      using snoc unfolding domain_key_def names_domain_def Let_def t_def [symmetric]
      by (auto simp: trim_suffix_def suf)
  qed
qed

text \<open>
  C36: after any sequence of queries the count of a domain is the number of queries for it, modulo
  the width of the counter: those whose name, without the spaces around it and in lower case, is
  the domain with or without one final dot. Blank names are counted nowhere, and the root is
  counted as a dot.
\<close>

theorem record_all_counts:
  "domain_count_of (record_all names empty_stats) k =
     of_nat (length (filter (\<lambda>n. names_domain n k) names))"
proof -
  have "domain_count_of (fold record_domain_query names st) k =
     domain_count_of st k + of_nat (length (filter (\<lambda>n. names_domain n k) names))" for st
    by (induction names arbitrary: st) (simp_all add: domain_count_of_record domain_key_iff)
  then show ?thesis
    by (simp add: record_all_def empty_stats_def domain_count_of_def)
qed

section \<open>Top domains\<close>

record domain_count =
  dc_name :: string
  dc_count :: i64

definition dc_less :: "domain_count \<Rightarrow> domain_count \<Rightarrow> bool" where
  "dc_less a b =
     (if dc_count a \<noteq> dc_count b then sint (dc_count a) > sint (dc_count b)
      else dc_name a < dc_name b)"

lemma dc_less_lex:
  "dc_less a b \<longleftrightarrow> sint (dc_count b) < sint (dc_count a) \<or>
     sint (dc_count a) = sint (dc_count b) \<and> dc_name a < dc_name b"
  by (auto simp: dc_less_def dest: signed_word_eqI)

interpretation dc: sort_less_total dc_less
proof
  fix a b c :: domain_count
  show "dc_less a b \<Longrightarrow> \<not> dc_less b a"
    by (auto simp: dc_less_lex)
  show "\<not> dc_less a b \<Longrightarrow> \<not> dc_less b c \<Longrightarrow> \<not> dc_less a c"
    by (auto simp: dc_less_lex)
  show "a \<noteq> b \<Longrightarrow> dc_less a b \<or> dc_less b a"
    by (cases a; cases b) (auto simp: dc_less_lex dest: signed_word_eqI)
qed

definition top_domains :: "int \<Rightarrow> stats_state \<Rightarrow> domain_count list" where
  "top_domains limit st =
     (if limit \<le> 0 then []
      else (let all = map (\<lambda>(name, count). \<lparr>dc_name = name, dc_count = count\<rparr>) (domain_counts st);
                all = go_sort dc_less all
            in if int (length all) > limit then take (nat limit) all else all))"

definition all_domains :: "stats_state \<Rightarrow> domain_count list" where
  "all_domains st = map (\<lambda>(name, count). \<lparr>dc_name = name, dc_count = count\<rparr>) (domain_counts st)"

lemma top_domains_take: "top_domains limit st = take (nat limit) (go_sort dc_less (all_domains st))"
  by (simp add: top_domains_def all_domains_def Let_def)

text \<open>
  C37: the top list holds the \<open>limit\<close> highest ranked domains and no other: it is a duplicate-free
  sorted prefix, its length is the limit or the number of known domains, and a domain left out
  never ranks before one that is listed.
\<close>

theorem top_domains_ranked:
  assumes "gm_wf (domain_counts st)" and "0 < limit"
  shows "sorted_wrt (\<lambda>a b. \<not> dc_less b a) (top_domains limit st)
    \<and> distinct (map dc_name (top_domains limit st))
    \<and> length (top_domains limit st) = min (nat limit) (length (domain_counts st))
    \<and> (\<forall>d. d \<in> set (top_domains limit st) \<longrightarrow> map_of (domain_counts st) (dc_name d) = Some (dc_count d))
    \<and> (\<forall>d k c. d \<in> set (top_domains limit st) \<and> map_of (domain_counts st) k = Some c
          \<and> \<lparr>dc_name = k, dc_count = c\<rparr> \<notin> set (top_domains limit st)
          \<longrightarrow> dc_less d \<lparr>dc_name = k, dc_count = c\<rparr>)"
proof (intro conjI allI impI; (elim conjE)?)
  let ?s = "go_sort dc_less (all_domains st)"
  have names: "distinct (map dc_name ?s)"
  proof -
    have "mset (map dc_name ?s) = mset (map fst (domain_counts st))"
      by (simp add: all_domains_def multiset.map_comp comp_def case_prod_beta)
    with assms(1) show ?thesis
      unfolding gm_wf_def by (metis mset_eq_imp_distinct_iff)
  qed
  show "sorted_wrt (\<lambda>a b. \<not> dc_less b a) (top_domains limit st)"
    by (simp add: top_domains_take sorted_wrt_take dc.go_sort_sorted)
  show "distinct (map dc_name (top_domains limit st))"
    using names by (simp add: top_domains_take flip: take_map)
  show "length (top_domains limit st) = min (nat limit) (length (domain_counts st))"
    by (simp add: top_domains_take all_domains_def)
next
  fix d
  assume "d \<in> set (top_domains limit st)"
  then have "d \<in> set (all_domains st)"
    by (auto simp: top_domains_take dest: in_set_takeD)
  with assms(1) show "map_of (domain_counts st) (dc_name d) = Some (dc_count d)"
    by (auto simp: all_domains_def gm_wf_set_iff)
next
  fix d k c
  let ?r = "\<lparr>dc_name = k, dc_count = c\<rparr>"
  assume d: "d \<in> set (top_domains limit st)" and k: "map_of (domain_counts st) k = Some c"
    and out: "?r \<notin> set (top_domains limit st)"
  from k have "?r \<in> set (all_domains st)"
    by (force simp: all_domains_def dest: map_of_SomeD)
  with out have "?r \<in> set (drop (nat limit) (go_sort dc_less (all_domains st)))"
    by (metis Un_iff append_take_drop_id set_append set_go_sort top_domains_take)
  with d have "\<not> dc_less ?r d"
    unfolding top_domains_take by (rule dc.sorted_take_rest [OF dc.go_sort_sorted])
  with d out show "dc_less d ?r" using dc.lt_total by metis
qed

theorem top_domains_ranked_witness:
  "length (top_domains 2 (record_all [''b.'', ''A'', ''c'', ''a''] empty_stats)) = 2"
  using top_domains_ranked [of "record_all [''b.'', ''A'', ''c'', ''a''] empty_stats" 2]
  by (simp add: record_all_def record_domain_query_def domain_key_def empty_stats_def text_eval
      gm_wf_def)

text \<open>
  The top list does not depend on the order in which Go iterates over the map of counts, nor on
  which sorting algorithm \<^verbatim>\<open>sort.Slice\<close> runs: every result it may return is this one.
\<close>

lemma top_domains_deterministic:
  assumes "gm_same (domain_counts st) (domain_counts st')"
    and "is_sort_slice dc_less (all_domains st') ys" and "0 \<le> limit"
  shows "take (nat limit) ys = top_domains limit st"
proof -
  have "mset (all_domains st) = mset (all_domains st')"
    using assms(1) by (simp add: all_domains_def gm_same_def)
  then have "ys = go_sort dc_less (all_domains st)"
    using assms(2) dc.is_sort_slice_unique dc.go_sort_cong by metis
  then show ?thesis by (simp add: top_domains_take)
qed

lemma top_domains_deterministic_witness:
  "take 1 [\<lparr>dc_name = ''a'', dc_count = 2\<rparr>, \<lparr>dc_name = ''b'', dc_count = 1\<rparr>] =
     top_domains 1 (record_all [''b'', ''A'', ''a''] empty_stats)"
  using top_domains_deterministic
    [of "record_all [''b'', ''A'', ''a''] empty_stats"
        "record_all [''A'', ''b'', ''a''] empty_stats"
        "[\<lparr>dc_name = ''a'', dc_count = 2\<rparr>, \<lparr>dc_name = ''b'', dc_count = 1\<rparr>]" 1]
  by (simp add: record_all_def record_domain_query_def domain_key_def empty_stats_def text_eval
      gm_same_def gm_get_def is_sort_slice_def all_domains_def dc_less_def)

section \<open>Reports\<close>

text \<open>\<^verbatim>\<open>json.Marshal\<close> of the list: an array of objects with the fields in declaration order.\<close>

definition json_domain_count :: "domain_count \<Rightarrow> string" where
  "json_domain_count d =
     ''{'' @ json_string ''name'' @ '':'' @ json_string (dc_name d) @ '',''
       @ json_string ''count'' @ '':'' @ show_int (sint (dc_count d)) @ ''}''"

definition json_domain_counts :: "domain_count list \<Rightarrow> string" where
  "json_domain_counts ds = ''['' @ join '','' (map json_domain_count ds) @ '']''"

definition report_top_domains :: "string \<Rightarrow> int \<Rightarrow> stats_state \<Rightarrow> string" where
  "report_top_domains now limit st =
     ''dnss top_domains '' @ now @ '' limit='' @ show_int limit @ '' domains=''
       @ json_domain_counts (top_domains limit st) @ [CHR 0x0A]"

text \<open>
  \<^verbatim>\<open>Report\<close>: the variables \<^verbatim>\<open>expvar.Do\<close> hands over go into a map, and are printed in the order of
  their names.
\<close>

definition report :: "string \<Rightarrow> (string \<times> string) list \<Rightarrow> string" where
  "report now public =
     (let vars = fold (\<lambda>(k, v) m. gm_set k v m) public [];
          keys = go_sort string_less (map fst vars)
      in ''dnss statistics '' @ now
           @ concat (map (\<lambda>k. '' '' @ k @ ''='' @ gm_get [] vars k) keys) @ [CHR 0x0A])"

text \<open>
  The periodic loops run until the process exits; the model runs them over the ticks so far, each
  with what the report reads at that time.
\<close>

definition periodically_report ::
    "duration \<Rightarrow> (string \<times> (string \<times> string) list) list \<Rightarrow> string" where
  "periodically_report interval ticks =
     (if interval \<le> 0 then [] else concat (map (\<lambda>(now, public). report now public) ticks))"

definition periodically_report_top_domains ::
    "duration \<Rightarrow> int \<Rightarrow> (string \<times> stats_state) list \<Rightarrow> string" where
  "periodically_report_top_domains interval limit ticks =
     (if interval \<le> 0 \<or> limit \<le> 0 then []
      else concat (map (\<lambda>(now, st). report_top_domains now limit st) ticks))"

end
