(* ===== verification/Dns_Msg.thy ===== *)
theory Dns_Msg
  imports Go_Format "HOL-Library.Sublist"
begin

text \<open>
  The messages of the DNS library (\<^verbatim>\<open>github.com/miekg/dns\<close>) as the program sees them, and the
  library's functions as parameters. The library is not part of the repository: a definition that
  calls it takes a \<open>dns_lib\<close>, and what a theorem relies on is a named predicate over it that states
  documented behaviour. The records hold the fields the program reads or writes.
\<close>

section \<open>Messages\<close>

record question =
  q_name :: string
  q_type :: u16
  q_class :: u16

text \<open>A resource record: its header, and the rest, which the program never looks into.\<close>

record rr =
  rr_name :: string
  rr_type :: u16
  rr_class :: u16
  rr_ttl :: u32
  rr_data :: bytes

record msg =
  m_id :: u16
  m_response :: bool
  m_opcode :: int
  m_authoritative :: bool
  m_truncated :: bool
  m_recursion_desired :: bool
  m_recursion_available :: bool
  m_authenticated_data :: bool
  m_checking_disabled :: bool
  m_rcode :: int
  m_question :: "question list"
  m_answer :: "rr list"
  m_ns :: "rr list"
  m_extra :: "rr list"

text \<open>\<^verbatim>\<open>&dns.Msg{}\<close>, and the constants of the protocol (RFC 1035).\<close>

definition empty_msg :: msg where
  "empty_msg = \<lparr>m_id = 0, m_response = False, m_opcode = 0, m_authoritative = False,
     m_truncated = False, m_recursion_desired = False, m_recursion_available = False,
     m_authenticated_data = False, m_checking_disabled = False, m_rcode = 0,
     m_question = [], m_answer = [], m_ns = [], m_extra = []\<rparr>"

abbreviation (input) rcode_success :: int where "rcode_success \<equiv> 0"
abbreviation (input) rcode_server_failure :: int where "rcode_server_failure \<equiv> 2"
abbreviation (input) opcode_query :: int where "opcode_query \<equiv> 0"
abbreviation (input) type_A :: u16 where "type_A \<equiv> 1"

section \<open>The library\<close>

record dns_lib =
  canonical_name :: "string \<Rightarrow> string"
  is_sub_domain :: "string \<Rightarrow> string \<Rightarrow> bool"
  count_label :: "string \<Rightarrow> nat"
  fqdn :: "string \<Rightarrow> string"
  type_to_string :: "u16 \<Rightarrow> string"
  class_to_string :: "u16 \<Rightarrow> string"
  string_to_type :: "string \<Rightarrow> u16 option"
  rr_string :: "rr \<Rightarrow> string"
  hdr_string :: "msg \<Rightarrow> string"
  question_string :: "question \<Rightarrow> string"
  pack_msg :: "msg \<Rightarrow> string + bytes"
  unpack_msg :: "bytes \<Rightarrow> string + msg"
  truncate_msg :: "int \<Rightarrow> msg \<Rightarrow> msg"
  edns_udp_size :: "msg \<Rightarrow> u16 option"
  set_question :: "u16 \<Rightarrow> string \<Rightarrow> u16 \<Rightarrow> msg"
  set_rcode :: "msg \<Rightarrow> int \<Rightarrow> msg"

text \<open>
  What the documentation says of names, through the labels of a name (\<^verbatim>\<open>SplitDomainName\<close>):
  \<^verbatim>\<open>CanonicalName\<close> gives a lower-case, fully qualified name, so canonicalising twice changes
  nothing; \<^verbatim>\<open>CountLabel\<close> counts the labels; \<^verbatim>\<open>IsSubDomain\<close> compares the labels from the right; and a
  canonical name is determined by its labels.
\<close>

definition names_documented :: "dns_lib \<Rightarrow> (string \<Rightarrow> string list) \<Rightarrow> bool" where
  "names_documented L labels \<longleftrightarrow>
     (\<forall>s. canonical_name L (canonical_name L s) = canonical_name L s) \<and>
     (\<forall>s. count_label L s = length (labels s)) \<and>
     (\<forall>p s. is_sub_domain L (canonical_name L p) (canonical_name L s) \<longleftrightarrow>
        suffix (labels (canonical_name L p)) (labels (canonical_name L s))) \<and>
     (\<forall>s t. labels (canonical_name L s) = labels (canonical_name L t) \<longrightarrow>
        canonical_name L s = canonical_name L t)"

lemma canonical_idem:
  "names_documented L labels \<Longrightarrow> canonical_name L (canonical_name L s) = canonical_name L s"
  by (simp add: names_documented_def)

lemma count_label_labels: "names_documented L labels \<Longrightarrow> count_label L s = length (labels s)"
  by (simp add: names_documented_def)

lemma is_sub_domain_labels:
  "names_documented L labels \<Longrightarrow>
     is_sub_domain L (canonical_name L p) (canonical_name L s) \<longleftrightarrow>
       suffix (labels (canonical_name L p)) (labels (canonical_name L s))"
  by (simp add: names_documented_def)

lemma labels_canonical_inj:
  "names_documented L labels \<Longrightarrow> labels (canonical_name L s) = labels (canonical_name L t) \<Longrightarrow>
     canonical_name L s = canonical_name L t"
  by (simp add: names_documented_def)

section \<open>A concrete library, for the witnesses\<close>

text \<open>
  Names without escapes: the labels are the parts between dots. This is one library that meets
  the documentation on names, to show that the hypotheses can hold; nothing is proved from it
  elsewhere.
\<close>

definition plain_labels :: "string \<Rightarrow> string list" where
  "plain_labels s =
     (let t = (if has_suffix s ''.'' then butlast s else s) in
      if t = [] then [] else split_char (CHR ''.'') t)"

definition plain_canonical :: "string \<Rightarrow> string" where
  "plain_canonical s = (let t = to_lower s in if has_suffix t ''.'' then t else t @ ''.'')"

definition plain_lib :: dns_lib where
  "plain_lib = \<lparr>
     canonical_name = plain_canonical,
     is_sub_domain = (\<lambda>p s. let a = plain_labels p; b = plain_labels s in
        length a \<le> length b \<and> drop (length b - length a) b = a),
     count_label = (\<lambda>s. length (plain_labels s)),
     fqdn = (\<lambda>s. if has_suffix s ''.'' then s else s @ ''.''),
     type_to_string = (\<lambda>t. if t = 1 then ''A'' else if t = 28 then ''AAAA'' else []),
     class_to_string = (\<lambda>c. if c = 1 then ''IN'' else []),
     string_to_type = (\<lambda>s. if s = ''A'' then Some 1 else if s = ''AAAA'' then Some 28 else None),
     rr_string = (\<lambda>r. rr_name r @ '' 300 IN A 1.2.3.4''),
     hdr_string = (\<lambda>m. ''header''),
     question_string = (\<lambda>q. '';'' @ q_name q),
     pack_msg = (\<lambda>m. Inr [ucast (m_id m), of_nat (length (m_answer m))]),
     unpack_msg = (\<lambda>b. if b = [] then Inl ''overflow unpacking uint16''
        else Inr (empty_msg\<lparr>m_id := ucast (hd b),
          m_question := [\<lparr>q_name = ''a.'', q_type = 1, q_class = 1\<rparr>]\<rparr>)),
     truncate_msg = (\<lambda>n m. if n < 100 then m\<lparr>m_truncated := True, m_answer := []\<rparr>
        else m\<lparr>m_truncated := False\<rparr>),
     edns_udp_size = (\<lambda>m. None),
     set_question = (\<lambda>i n t. empty_msg\<lparr>m_id := i, m_recursion_desired := True,
        m_question := [\<lparr>q_name = n, q_type = t, q_class = 1\<rparr>]\<rparr>),
     set_rcode = (\<lambda>m c. empty_msg\<lparr>m_id := m_id m, m_response := True, m_rcode := c,
        m_question := m_question m\<rparr>)\<rparr>"

lemma has_suffix_dot: "has_suffix s ''.'' \<longleftrightarrow> s \<noteq> [] \<and> last s = CHR ''.''"
proof (cases s rule: rev_cases)
  case Nil
  then show ?thesis by (simp add: has_suffix_def)
next
  case (snoc ys y)
  then show ?thesis by (simp add: has_suffix_def)
qed

lemma plain_canonical_last: "plain_canonical s \<noteq> [] \<and> last (plain_canonical s) = CHR ''.''"
  by (auto simp: plain_canonical_def Let_def has_suffix_dot)

lemma lower_char_dot: "lower_char (CHR ''.'') = CHR ''.''"
  by (simp add: lower_char_def)

lemma plain_canonical_lower: "to_lower (plain_canonical s) = plain_canonical s"
  by (simp add: plain_canonical_def Let_def) (simp add: to_lower_def lower_char_dot)

lemma plain_canonical_idem: "plain_canonical (plain_canonical s) = plain_canonical s"
  using plain_canonical_last [of s]
  by (subst plain_canonical_def) (simp add: plain_canonical_lower has_suffix_dot)

lemma join_split_char: "join [c] (split_char c s) = s"
proof (induction s)
  case Nil
  then show ?case by (simp add: join_def)
next
  case (Cons x s)
  obtain y ys where "split_char c s = y # ys" by (cases "split_char c s") auto
  with Cons show ?case by (auto simp: join_def)
qed

lemma plain_labels_inj:
  assumes "s \<noteq> []" "last s = CHR ''.''" "t \<noteq> []" "last t = CHR ''.''"
    and "plain_labels s = plain_labels t"
  shows "s = t"
proof -
  have eq: "plain_labels u = (if butlast u = [] then [] else split_char (CHR ''.'') (butlast u))"
    if "u \<noteq> []" "last u = CHR ''.''" for u
    using that by (simp add: plain_labels_def has_suffix_dot)
  have "join [CHR ''.''] (plain_labels u) = butlast u" if "u \<noteq> []" "last u = CHR ''.''" for u
    using eq [OF that] by (simp add: join_split_char) (simp add: join_def)
  with assms have "butlast s = butlast t" by metis
  with assms(1-4) show ?thesis by (metis append_butlast_last_id)
qed

lemma suffix_drop: "suffix a b \<longleftrightarrow> length a \<le> length b \<and> drop (length b - length a) b = a"
  unfolding suffix_def by (metis append_take_drop_id append_eq_conv_conj diff_add_inverse2 le_add2 length_append)

lemma plain_names_documented: "names_documented plain_lib plain_labels"
  unfolding names_documented_def
proof (intro conjI allI impI)
  fix s t
  assume "plain_labels (canonical_name plain_lib s) = plain_labels (canonical_name plain_lib t)"
  then show "canonical_name plain_lib s = canonical_name plain_lib t"
    using plain_labels_inj plain_canonical_last by (simp add: plain_lib_def)
qed (simp_all add: plain_lib_def plain_canonical_idem suffix_drop Let_def)

end
