(* ===== verification/Dnss_Trace.thy ===== *)
theory Dnss_Trace
  imports Stats Dns_Msg
begin

text \<open>
  \<^verbatim>\<open>internal/trace/trace.go\<close>: the trace a request carries, which calls \<^verbatim>\<open>internal/nettrace\<close>, and the
  state the handlers share. A handler appends the calls it makes on its \<^verbatim>\<open>nettrace.Trace\<close> to
  \<open>w_trace\<close> (what they do to the trace is the subject of the theories on \<^verbatim>\<open>nettrace\<close>), and counts
  in \<open>w_stats\<close>. The verbosity \<open>v\<close> stands for \<^verbatim>\<open>log.V(n)\<close>, which holds when \<open>n \<le> v\<close>; the
  log output itself is not modelled.
\<close>

datatype trace_op =
    OpNew string string
  | OpSetMaxEvents int
  | OpSetError
  | OpPrintf string
  | OpFinish

record world =
  w_stats :: stats_state
  w_trace :: "trace_op list"

definition empty_world :: world where
  "empty_world = \<lparr>w_stats = empty_stats, w_trace = []\<rparr>"

section \<open>Counting\<close>

definition inc :: "string \<Rightarrow> world \<Rightarrow> world" where
  "inc name w = w\<lparr>w_stats := stats_inc name (w_stats w)\<rparr>"

definition record_domain :: "string \<Rightarrow> world \<Rightarrow> world" where
  "record_domain name w = w\<lparr>w_stats := record_domain_query name (w_stats w)\<rparr>"

definition count :: "world \<Rightarrow> string \<Rightarrow> i64" where
  "count w name = counter (w_stats w) name"

section \<open>Tracing\<close>

definition emit :: "trace_op list \<Rightarrow> world \<Rightarrow> world" where
  "emit ops w = w\<lparr>w_trace := w_trace w @ ops\<rparr>"

definition trace_new :: "string \<Rightarrow> string \<Rightarrow> world \<Rightarrow> world" where
  "trace_new family title w = emit [OpNew family title, OpSetMaxEvents 30] w"

definition trace_printf :: "string \<Rightarrow> world \<Rightarrow> world" where
  "trace_printf s w = emit [OpPrintf s] w"

text \<open>\<^verbatim>\<open>lprintf\<close>, \<^verbatim>\<open>Errorf\<close> and \<^verbatim>\<open>Error\<close>, without the copy to the log.\<close>

definition trace_lprintf :: "string \<Rightarrow> world \<Rightarrow> world" where
  "trace_lprintf s w = emit [OpPrintf s] w"

definition trace_errorf :: "string \<Rightarrow> world \<Rightarrow> world" where
  "trace_errorf err w = emit [OpSetError, OpPrintf (''error: '' @ err)] w"

definition trace_error :: "string \<Rightarrow> world \<Rightarrow> world" where
  "trace_error err w = emit [OpSetError, OpPrintf (''error: '' @ err)] w"

definition trace_finish :: "world \<Rightarrow> world" where
  "trace_finish w = emit [OpFinish] w"

definition questions_to_string :: "dns_lib \<Rightarrow> question list \<Rightarrow> string" where
  "questions_to_string L qs =
     ''Q: '' @ join '' ; '' (map (\<lambda>q. ''('' @ q_name q @ '' '' @ type_to_string L (q_type q)
       @ '' '' @ class_to_string L (q_class q) @ '')'') qs)"

definition trace_question :: "dns_lib \<Rightarrow> nat \<Rightarrow> question list \<Rightarrow> world \<Rightarrow> world" where
  "trace_question L v qs w = (if 1 \<le> v then trace_lprintf (questions_to_string L qs) w else w)"

definition trace_answer :: "dns_lib \<Rightarrow> nat \<Rightarrow> msg \<Rightarrow> world \<Rightarrow> world" where
  "trace_answer L v m w =
     (if \<not> 1 \<le> v then w
      else fold (\<lambda>rr. trace_lprintf (rr_string L rr)) (m_answer m) (trace_lprintf (hdr_string L m) w))"

text \<open>\<^verbatim>\<open>quote\<close>, used for what is copied to the log: \<^verbatim>\<open>strconv.Quote\<close> without its two quotes.\<close>

definition trace_quote :: "string \<Rightarrow> string" where
  "trace_quote s = (let qs = quote s in take (length qs - 2) (drop 1 qs))"

section \<open>What the calls leave unchanged\<close>

lemma w_trace_inc [simp, frame_simps]: "w_trace (inc n w) = w_trace w"
  by (simp add: inc_def)

lemma w_trace_record_domain [simp, frame_simps]: "w_trace (record_domain n w) = w_trace w"
  by (simp add: record_domain_def)

lemma w_stats_emit [simp, frame_simps]: "w_stats (emit ops w) = w_stats w"
  by (simp add: emit_def)

lemma w_stats_trace [simp, frame_simps]:
  "w_stats (trace_new f t w) = w_stats w" "w_stats (trace_printf s w) = w_stats w"
  "w_stats (trace_lprintf s w) = w_stats w" "w_stats (trace_errorf s w) = w_stats w"
  "w_stats (trace_error s w) = w_stats w" "w_stats (trace_finish w) = w_stats w"
  "w_stats (trace_question L v qs w) = w_stats w"
  by (simp_all add: trace_new_def trace_printf_def trace_lprintf_def trace_errorf_def
      trace_error_def trace_finish_def trace_question_def)

lemma w_stats_fold_lprintf [simp, frame_simps]:
  "w_stats (fold (\<lambda>r. trace_lprintf (f r)) rs w) = w_stats w"
  by (induction rs arbitrary: w) simp_all

lemma w_stats_trace_answer [simp, frame_simps]: "w_stats (trace_answer L v m w) = w_stats w"
  by (simp add: trace_answer_def)

lemma count_trace [simp, frame_simps]:
  "count (trace_new f t w) n = count w n" "count (trace_printf s w) n = count w n"
  "count (trace_lprintf s w) n = count w n" "count (trace_errorf s w) n = count w n"
  "count (trace_error s w) n = count w n" "count (trace_finish w) n = count w n"
  "count (trace_question L v qs w) n = count w n" "count (trace_answer L v m w) n = count w n"
  by (simp_all add: count_def)

lemma count_inc [simp]: "count (inc m w) n = (if n = m then count w n + 1 else count w n)"
  by (simp add: count_def inc_def)

lemma count_record_domain [simp]: "count (record_domain m w) n = count w n"
  by (simp add: count_def record_domain_def)

section \<open>Nothing unprintable reaches the log\<close>

lemma trace_quote_concat: "trace_quote s = concat (map quote_char s)"
  by (simp add: trace_quote_def quote_def Let_def)

text \<open>
  Whatever a client puts in a name or a message, the message text copied to the log is printable
  ASCII only, so no line break or control sequence of a request gets there through it.
\<close>

lemma trace_quote_printable: "list_all printable (trace_quote s)"
  using printable_quote_char by (induction s) (simp_all add: trace_quote_concat)

end
