(* ===== verification/Resolver.thy ===== *)
theory Resolver
  imports Dnss_Trace "HOL-Library.Monad_Syntax"
begin

text \<open>
  The interface \<^verbatim>\<open>dnsserver.Resolver\<close> (\<^verbatim>\<open>internal/dnsserver/resolver.go\<close>): \<^verbatim>\<open>Query\<close>, and the steps of
  the loop \<^verbatim>\<open>Maintain\<close>, each over the resolver's own state \<open>'s\<close> and the shared \<open>world\<close>. The result
  \<open>None\<close> is a panic, which ends the process. An error is its text; what \<^verbatim>\<open>Query\<close> returns together
  with an error is never used and is not modelled. \<open>'e\<close> is the type of the maintenance steps: one
  per ticker of the loops that \<^verbatim>\<open>Maintain\<close> starts, with the time the step reads from the clock.
\<close>

type_synonym 's query_fn = "msg \<Rightarrow> 's \<Rightarrow> world \<Rightarrow> ((string + msg) \<times> 's \<times> world) option"
type_synonym ('s, 'e) tick_fn = "'e \<Rightarrow> 's \<Rightarrow> world \<Rightarrow> ('s \<times> world) option"

datatype 'e resolver_event =
    ReQuery msg
  | ReTick 'e

fun resolver_step :: "'s query_fn \<Rightarrow> ('s, 'e) tick_fn \<Rightarrow> 'e resolver_event \<Rightarrow> 's \<times> world \<Rightarrow> ('s \<times> world) option" where
  "resolver_step query tick (ReQuery r) (s, w) = map_option snd (query r s w)"
| "resolver_step query tick (ReTick e) (s, w) = tick e s w"

fun resolver_run :: "'s query_fn \<Rightarrow> ('s, 'e) tick_fn \<Rightarrow> 'e resolver_event list \<Rightarrow> 's \<times> world \<Rightarrow> ('s \<times> world) option" where
  "resolver_run query tick [] sw = Some sw"
| "resolver_run query tick (e # es) sw =
     (case resolver_step query tick e sw of None \<Rightarrow> None | Some sw' \<Rightarrow> resolver_run query tick es sw')"

text \<open>
  The contract a client of a resolver relies on: an invariant of its state under which queries and
  maintenance steps do not panic, and which they keep.
\<close>

locale resolver =
  fixes query :: "'s query_fn"
    and tick :: "('s, 'e) tick_fn"
    and rinv :: "'s \<Rightarrow> bool"
  assumes query_total: "rinv s \<Longrightarrow> \<exists>res s' w'. query r s w = Some (res, s', w') \<and> rinv s'"
    and tick_total: "rinv s \<Longrightarrow> \<exists>s' w'. tick e s w = Some (s', w') \<and> rinv s'"
begin

lemma query_keeps: "rinv s \<Longrightarrow> query r s w = Some (res, s', w') \<Longrightarrow> rinv s'"
  using query_total [of s r w] by auto

lemma tick_keeps: "rinv s \<Longrightarrow> tick e s w = Some (s', w') \<Longrightarrow> rinv s'"
  using tick_total [of s e w] by auto

lemma step_total: "rinv (fst sw) \<Longrightarrow> \<exists>sw'. resolver_step query tick e sw = Some sw' \<and> rinv (fst sw')"
  using query_total tick_total by (cases e; cases sw) fastforce+

lemma run_total: "rinv (fst sw) \<Longrightarrow> \<exists>sw'. resolver_run query tick es sw = Some sw' \<and> rinv (fst sw')"
proof (induction es arbitrary: sw)
  case Nil
  then show ?case by simp
next
  case (Cons e es)
  then obtain sw' where "resolver_step query tick e sw = Some sw'" "rinv (fst sw')"
    using step_total by blast
  with Cons.IH show ?case by simp
qed

end

end
