(* ===== verification/Caching_Resolver.thy ===== *)
theory Caching_Resolver
  imports Resolver
begin

text \<open>
  \<^verbatim>\<open>cachingResolver\<close> of \<^verbatim>\<open>internal/dnsserver/resolver.go\<close>, on top of any resolver. The critical
  sections of the code are operations of their own (\<open>cache_lookup\<close>, \<open>cache_store\<close>, \<open>gc_pass\<close>,
  \<open>flush_cache\<close>), and \<open>caching_query\<close> runs them in the order of the source. \<^verbatim>\<open>answer[0]\<close> of an
  empty answer would panic; it is \<open>None\<close> here.
\<close>

section \<open>State and constants\<close>

record cache_cfg =
  max_cache_size :: int
  min_ttl :: duration
  max_ttl :: duration
  maintenance_period :: duration

definition default_cfg :: cache_cfg where
  "default_cfg = \<lparr>max_cache_size = 2000, min_ttl = 2 * minute, max_ttl = 2 * hour,
     maintenance_period = 30 * second\<rparr>"

record 's caching =
  cr_back :: 's
  cr_answer :: "(question, rr list) gomap"
  cr_total :: i64
  cr_bypassed :: i64
  cr_misses :: i64
  cr_hits :: i64
  cr_recorded :: i64

definition new_caching_resolver :: "'s \<Rightarrow> 's caching" where
  "new_caching_resolver back = \<lparr>cr_back = back, cr_answer = [], cr_total = 0, cr_bypassed = 0,
     cr_misses = 0, cr_hits = 0, cr_recorded = 0\<rparr>"

section \<open>TTLs\<close>

text \<open>\<^verbatim>\<open>time.Duration(rr.Header().Ttl) * time.Second\<close>, and back with \<^verbatim>\<open>uint32(d.Seconds())\<close>.\<close>

definition ttl_duration :: "u32 \<Rightarrow> duration" where
  "ttl_duration t = uint t * second"

definition duration_ttl :: "duration \<Rightarrow> u32" where
  "duration_ttl d = word_of_int (d div second)"

definition get_ttl :: "rr list \<Rightarrow> duration option" where
  "get_ttl answer = (case answer of [] \<Rightarrow> None | rr # _ \<Rightarrow> Some (ttl_duration (rr_ttl rr)))"

definition limit_ttl :: "cache_cfg \<Rightarrow> rr list \<Rightarrow> duration option" where
  "limit_ttl cfg answer =
     (case answer of
        [] \<Rightarrow> None
      | rr # _ \<Rightarrow> (let ttl = ttl_duration (rr_ttl rr) in
                   Some (if ttl > max_ttl cfg then max_ttl cfg else ttl)))"

definition set_ttl :: "rr list \<Rightarrow> duration \<Rightarrow> rr list" where
  "set_ttl answer newTTL = map (\<lambda>rr. rr\<lparr>rr_ttl := duration_ttl newTTL\<rparr>) answer"

text \<open>\<^verbatim>\<open>dns.Copy\<close> copies one record; on values it is the identity.\<close>

definition copy_rr_slice :: "rr list \<Rightarrow> rr list" where
  "copy_rr_slice a = foldl (\<lambda>b rr. b @ [rr]) [] a"

section \<open>What is worth caching\<close>

definition want_to_cache :: "dns_lib \<Rightarrow> question \<Rightarrow> msg \<Rightarrow> string option" where
  "want_to_cache L q reply =
     (if m_rcode reply \<noteq> rcode_success then Some ''unsuccessful query''
      else if \<not> m_response reply then Some ''response = false''
      else if m_opcode reply \<noteq> opcode_query
        then Some (''opcode '' @ show_int (m_opcode reply) @ '' != query'')
      else if length (m_answer reply) = 0 then Some ''answer is empty''
      else if length (m_question reply) \<noteq> 1
        then Some (''too many/few questions ('' @ show_nat (length (m_question reply)) @ '')'')
      else if m_truncated reply then Some ''truncated reply''
      else if hd (m_question reply) \<noteq> q
        then Some (''reply question does not match: asked '' @ question_string L q
                     @ '', got '' @ question_string L (hd (m_question reply)))
      else None)"

section \<open>Initialisation and variables\<close>

text \<open>\<^verbatim>\<open>Init\<close> passes on that of the resolver behind the cache.\<close>

definition caching_init :: "('s \<Rightarrow> (string option \<times> 's) option) \<Rightarrow> 's caching \<Rightarrow> (string option \<times> 's caching) option" where
  "caching_init back_init c = map_option (\<lambda>(err, s). (err, c\<lparr>cr_back := s\<rparr>)) (back_init (cr_back c))"

text \<open>The counters under the names \<^verbatim>\<open>init\<close> publishes them by.\<close>

definition cache_vars :: "'s caching \<Rightarrow> (string \<times> i64) list" where
  "cache_vars c = [(''cache-total'', cr_total c), (''cache-bypassed'', cr_bypassed c), (''cache-hits'', cr_hits c),
     (''cache-misses'', cr_misses c), (''cache-recorded'', cr_recorded c)]"

section \<open>The critical sections\<close>

definition cache_lookup :: "'s caching \<Rightarrow> question \<Rightarrow> rr list option" where
  "cache_lookup c q = map_of (cr_answer c) q"

text \<open>
  The end of \<^verbatim>\<open>Query\<close>, under the lock: \<^verbatim>\<open>setTTL\<close> writes into the records of the reply, which the
  cache shares, so the reply returned carries the limited TTL too.
\<close>

definition cache_store :: "cache_cfg \<Rightarrow> question \<Rightarrow> duration \<Rightarrow> msg \<Rightarrow> 's caching \<Rightarrow> msg \<times> 's caching" where
  "cache_store cfg q ttl reply c =
     (if int (length (cr_answer c)) < max_cache_size cfg
      then (let answer = set_ttl (m_answer reply) ttl in
            (reply\<lparr>m_answer := answer\<rparr>,
             c\<lparr>cr_answer := gm_set q answer (cr_answer c), cr_recorded := cr_recorded c + 1\<rparr>))
      else (reply, c))"

text \<open>
  One pass of \<^verbatim>\<open>Maintain\<close> over the map: each entry is replaced by an aged copy, or deleted and
  counted. Both are allowed while Go iterates over the map, and each entry is visited once.
\<close>

fun gc_entries ::
    "cache_cfg \<Rightarrow> (question, rr list) gomap \<Rightarrow> ((question, rr list) gomap \<times> nat) option" where
  "gc_entries cfg [] = Some ([], 0)"
| "gc_entries cfg ((q, ans) # rest) =
     (case get_ttl ans of
        None \<Rightarrow> None
      | Some ttl \<Rightarrow>
          (case gc_entries cfg rest of
             None \<Rightarrow> None
           | Some (m, expired) \<Rightarrow>
               (let newTTL = ttl - maintenance_period cfg in
                if newTTL > 0
                then Some ((q, set_ttl (copy_rr_slice ans) newTTL) # m, expired)
                else Some (m, expired + 1))))"

definition gc_pass :: "cache_cfg \<Rightarrow> 's caching \<Rightarrow> world \<Rightarrow> ('s caching \<times> world) option" where
  "gc_pass cfg c w =
     (let w = trace_new ''dnsserver.Cache'' ''GC'' w;
          total = length (cr_answer c)
      in case gc_entries cfg (cr_answer c) of
           None \<Rightarrow> None
         | Some (m, expired) \<Rightarrow>
             Some (c\<lparr>cr_answer := m\<rparr>,
               trace_finish (trace_printf (''total: '' @ show_nat total @ ''   expired: ''
                 @ show_nat expired) w)))"

definition flush_cache :: "'s caching \<Rightarrow> 's caching \<times> string" where
  "flush_cache c = (c\<lparr>cr_answer := []\<rparr>, ''cache flush complete'')"

section \<open>Query\<close>

definition hit_reply :: "msg \<Rightarrow> rr list \<Rightarrow> msg" where
  "hit_reply r answer =
     empty_msg\<lparr>m_id := m_id r, m_response := True, m_authoritative := False,
       m_rcode := rcode_success, m_question := m_question r, m_answer := answer\<rparr>"

definition caching_query :: "dns_lib \<Rightarrow> cache_cfg \<Rightarrow> 's query_fn \<Rightarrow> 's caching query_fn" where
  "caching_query L cfg backq r c w =
     (let c = c\<lparr>cr_total := cr_total c + 1\<rparr> in
      if length (m_question r) \<noteq> 1 then
        (let w = trace_printf ''cache bypass: multi-question query'' w;
             c = c\<lparr>cr_bypassed := cr_bypassed c + 1\<rparr>
         in do {
           (res, s, w) \<leftarrow> backq r (cr_back c) w;
           Some (res, c\<lparr>cr_back := s\<rparr>, w)
         })
      else
        (let q = hd (m_question r) in
         case cache_lookup c q of
           Some answer \<Rightarrow>
             (let w = trace_printf ''cache hit'' w;
                  c = c\<lparr>cr_hits := cr_hits c + 1\<rparr>
              in Some (Inr (hit_reply r answer), c, w))
         | None \<Rightarrow>
             (let w = trace_printf ''cache miss'' w;
                  c = c\<lparr>cr_misses := cr_misses c + 1\<rparr>
              in do {
                (res, s, w) \<leftarrow> backq r (cr_back c) w;
                let c = c\<lparr>cr_back := s\<rparr>;
                case res of
                  Inl err \<Rightarrow> Some (Inl err, c, w)
                | Inr reply \<Rightarrow>
                    (case want_to_cache L q reply of
                       Some err \<Rightarrow>
                         Some (Inr reply, c, trace_printf (''cache not recording reply: '' @ err) w)
                     | None \<Rightarrow> do {
                         ttl \<leftarrow> limit_ttl cfg (m_answer reply);
                         if ttl < min_ttl cfg then Some (Inr reply, c, w)
                         else (let (reply, c) = cache_store cfg q ttl reply c
                               in Some (Inr reply, c, w))
                       })
              })))"

text \<open>
  \<^verbatim>\<open>Maintain\<close> starts the back resolver's maintenance and then runs its own ticker: a step is one
  pass over the cache (\<open>None\<close>), or a step of the back resolver (\<open>Some e\<close>).
\<close>

definition caching_tick ::
    "cache_cfg \<Rightarrow> ('s, 'e) tick_fn \<Rightarrow> ('s caching, 'e option) tick_fn" where
  "caching_tick cfg back_tick e c w =
     (case e of
        None \<Rightarrow> gc_pass cfg c w
      | Some e \<Rightarrow> do {
          (s, w) \<leftarrow> back_tick e (cr_back c) w;
          Some (c\<lparr>cr_back := s\<rparr>, w)
        })"

end
