(* ===== verification/Caching_Correct.thy ===== *)
theory Caching_Correct
  imports Caching_Resolver
begin

text \<open>
  Correctness of the caching resolver: the bounds of its TTL arithmetic, its invariant, the
  behaviour of each branch of \<^verbatim>\<open>Query\<close>, ageing and expiry, and its refinement of a cache with
  absolute deadlines.
\<close>

section \<open>TTL arithmetic\<close>

definition ttl_of :: "rr list \<Rightarrow> duration" where
  "ttl_of ans = ttl_duration (rr_ttl (hd ans))"

lemma get_ttl_nonempty: "ans \<noteq> [] \<Longrightarrow> get_ttl ans = Some (ttl_of ans)"
  by (cases ans) (simp_all add: get_ttl_def ttl_of_def)

lemma limit_ttl_nonempty: "ans \<noteq> [] \<Longrightarrow> limit_ttl cfg ans = Some (min (ttl_of ans) (max_ttl cfg))"
  by (cases ans) (simp_all add: limit_ttl_def ttl_of_def Let_def)

lemma limit_ttl_Some_iff:
  "limit_ttl cfg ans = Some t \<longleftrightarrow> ans \<noteq> [] \<and> t = min (ttl_of ans) (max_ttl cfg)"
  by (cases ans) (auto simp: limit_ttl_def ttl_of_def Let_def)

lemma ttl_duration_nonneg [simp]: "0 \<le> ttl_duration t"
  by (simp add: ttl_duration_def)

lemma ttl_duration_less: "ttl_duration t < 2 ^ 32 * second"
  using uint_lt2p [of t] by (simp add: ttl_duration_def)

lemma dvd_ttl_duration: "second dvd ttl_duration t"
  by (simp add: ttl_duration_def)

lemma uint_duration_ttl: "0 \<le> d \<Longrightarrow> d < 2 ^ 32 * second \<Longrightarrow> uint (duration_ttl d) = d div second"
  by (simp add: duration_ttl_def uint_word_of_int_eq take_bit_int_eq_self
      pos_imp_zdiv_nonneg_iff div_less_iff_less_mult)

lemma ttl_duration_inverse:
  "0 \<le> d \<Longrightarrow> d < 2 ^ 32 * second \<Longrightarrow> second dvd d \<Longrightarrow> ttl_duration (duration_ttl d) = d"
  by (simp add: ttl_duration_def uint_duration_ttl)

lemma ttl_duration_round:
  "0 \<le> d \<Longrightarrow> d < 2 ^ 32 * second \<Longrightarrow>
     ttl_duration (duration_ttl d) \<le> d \<and> d - second < ttl_duration (duration_ttl d)"
  using pos_mod_bound [of second d] pos_mod_sign [of second d]
  by (simp add: ttl_duration_def uint_duration_ttl flip: minus_mod_eq_div_mult)

text \<open>
  The TTL arithmetic never leaves the 64 bits of \<^verbatim>\<open>time.Duration\<close>: a 32-bit TTL in nanoseconds
  fits, so does what is left after one maintenance period, and a whole number of seconds survives
  the way to the 32-bit field and back.
\<close>

lemma ttl_duration_fits:
  "in_int64 (ttl_duration t)
   \<and> in_int64 (ttl_duration t - maintenance_period default_cfg)
   \<and> duration_ttl (ttl_duration t) = t"
proof -
  have "ttl_duration t < 4294967296 * second" "0 \<le> ttl_duration t"
    using ttl_duration_less [of t] by simp_all
  then have "in_int64 (ttl_duration t)" "in_int64 (ttl_duration t - maintenance_period default_cfg)"
    unfolding in_int64_def default_cfg_def by (simp_all, linarith+)
  moreover have "duration_ttl (ttl_duration t) = t"
    by (simp add: duration_ttl_def ttl_duration_def)
  ultimately show ?thesis by blast
qed

lemma set_ttl_simps [simp]:
  "set_ttl [] d = []" "length (set_ttl ans d) = length ans" "set_ttl ans d = [] \<longleftrightarrow> ans = []"
  by (simp_all add: set_ttl_def)

lemma ttl_of_set_ttl: "ans \<noteq> [] \<Longrightarrow> ttl_of (set_ttl ans d) = ttl_duration (duration_ttl d)"
  by (cases ans) (simp_all add: ttl_of_def set_ttl_def)

lemma set_ttl_set_ttl [simp]: "set_ttl (set_ttl ans d) d' = set_ttl ans d'"
  by (simp add: set_ttl_def)

lemma copy_rr_slice_id [simp]: "copy_rr_slice a = a"
proof -
  have "foldl (\<lambda>b rr. b @ [rr]) xs a = xs @ a" for xs :: "rr list"
    by (induction a arbitrary: xs) simp_all
  then show ?thesis by (simp add: copy_rr_slice_def)
qed

text \<open>Everything of an answer but its TTLs.\<close>

definition payload :: "rr list \<Rightarrow> rr list" where
  "payload ans = map (\<lambda>rr. rr\<lparr>rr_ttl := 0\<rparr>) ans"

lemma payload_set_ttl [simp]: "payload (set_ttl ans d) = payload ans"
  by (simp add: payload_def set_ttl_def)

section \<open>The invariant\<close>

definition cfg_ok :: "cache_cfg \<Rightarrow> bool" where
  "cfg_ok cfg \<longleftrightarrow> 0 \<le> min_ttl cfg \<and> min_ttl cfg \<le> max_ttl cfg \<and> 0 < maintenance_period cfg"

lemma cfg_ok_default: "cfg_ok default_cfg"
  by (simp add: cfg_ok_def default_cfg_def)

text \<open>
  An entry has records, all with the same TTL, which is at most the maximum. The cache has no
  two entries for a question and no more entries than it may have.
\<close>

definition entry_ok :: "cache_cfg \<Rightarrow> rr list \<Rightarrow> bool" where
  "entry_ok cfg ans \<longleftrightarrow> ans \<noteq> [] \<and> (\<forall>rr \<in> set ans. rr_ttl rr = rr_ttl (hd ans))
     \<and> ttl_of ans \<le> max_ttl cfg"

definition cache_wf :: "cache_cfg \<Rightarrow> (question, rr list) gomap \<Rightarrow> bool" where
  "cache_wf cfg m \<longleftrightarrow> gm_wf m \<and> int (length m) \<le> max 0 (max_cache_size cfg)
     \<and> (\<forall>(q, ans) \<in> set m. entry_ok cfg ans)"

definition accounted :: "'s caching \<Rightarrow> bool" where
  "accounted c \<longleftrightarrow> cr_total c = cr_bypassed c + cr_hits c + cr_misses c"

definition caching_inv :: "cache_cfg \<Rightarrow> ('s \<Rightarrow> bool) \<Rightarrow> 's caching \<Rightarrow> bool" where
  "caching_inv cfg rinv c \<longleftrightarrow> rinv (cr_back c) \<and> cache_wf cfg (cr_answer c) \<and> accounted c"

lemma cache_wf_Nil [simp]: "cache_wf cfg []"
  by (simp add: cache_wf_def)

lemma cache_wf_nonempty: "cache_wf cfg m \<Longrightarrow> (q, ans) \<in> set m \<Longrightarrow> ans \<noteq> []"
  by (auto simp: cache_wf_def entry_ok_def)

lemma caching_inv_new: "rinv back \<Longrightarrow> caching_inv cfg rinv (new_caching_resolver back)"
  by (simp add: caching_inv_def new_caching_resolver_def accounted_def)

lemma entry_ok_set_ttl:
  "ans \<noteq> [] \<Longrightarrow> 0 \<le> d \<Longrightarrow> d \<le> max_ttl cfg \<Longrightarrow> d < 2 ^ 32 * second \<Longrightarrow> entry_ok cfg (set_ttl ans d)"
  using ttl_duration_round [of d]
  by (auto simp: entry_ok_def ttl_of_set_ttl) (cases ans; auto simp: set_ttl_def)

lemma cache_wf_set:
  assumes "cache_wf cfg m" and "int (length m) < max_cache_size cfg" and "entry_ok cfg ans"
  shows "cache_wf cfg (gm_set q ans m)"
  using assms set_gm_set_subset [of q ans m]
  by (auto simp: cache_wf_def gm_wf_set length_gm_set)

section \<open>Ageing\<close>

definition alive :: "cache_cfg \<Rightarrow> question \<times> rr list \<Rightarrow> bool" where
  "alive cfg e \<longleftrightarrow> maintenance_period cfg < ttl_of (snd e)"

definition aged :: "cache_cfg \<Rightarrow> question \<times> rr list \<Rightarrow> question \<times> rr list" where
  "aged cfg e = (fst e, set_ttl (snd e) (ttl_of (snd e) - maintenance_period cfg))"

lemma gc_entries_eq:
  "\<forall>e \<in> set m. snd e \<noteq> [] \<Longrightarrow>
     gc_entries cfg m = Some (map (aged cfg) (filter (alive cfg) m), length (filter (Not \<circ> alive cfg) m))"
  by (induction m) (auto simp: get_ttl_nonempty aged_def alive_def Let_def)

lemma gc_entries_wf_eq:
  "cache_wf cfg m \<Longrightarrow>
     gc_entries cfg m = Some (map (aged cfg) (filter (alive cfg) m), length (filter (Not \<circ> alive cfg) m))"
  by (rule gc_entries_eq) (auto dest: cache_wf_nonempty)

lemma cache_wf_gc:
  assumes "cfg_ok cfg" and "cache_wf cfg m"
  shows "cache_wf cfg (map (aged cfg) (filter (alive cfg) m))"
proof -
  have "map fst (map (aged cfg) (filter (alive cfg) m)) = map fst (filter (alive cfg) m)"
    by (simp add: aged_def)
  with assms(2) have "gm_wf (map (aged cfg) (filter (alive cfg) m))"
    unfolding cache_wf_def gm_wf_def by (metis distinct_map_filter)
  moreover have "entry_ok cfg (snd (aged cfg e))" if e: "e \<in> set m" "alive cfg e" for e
  proof -
    have "entry_ok cfg (snd e)" using assms(2) e(1) by (auto simp: cache_wf_def)
    then have "snd e \<noteq> []" "ttl_of (snd e) \<le> max_ttl cfg" by (simp_all add: entry_ok_def)
    moreover have "maintenance_period cfg < ttl_of (snd e)" "0 < maintenance_period cfg"
      using e(2) assms(1) by (simp_all add: alive_def cfg_ok_def)
    moreover have "ttl_of (snd e) < 2 ^ 32 * second"
      unfolding ttl_of_def by (rule ttl_duration_less)
    ultimately show ?thesis
      unfolding aged_def snd_conv by (intro entry_ok_set_ttl) simp_all
  qed
  then have "\<forall>e \<in> set (map (aged cfg) (filter (alive cfg) m)). entry_ok cfg (snd e)"
    by auto
  moreover have "int (length (map (aged cfg) (filter (alive cfg) m))) \<le> int (length m)"
    by simp
  ultimately show ?thesis
    using assms(2) unfolding cache_wf_def case_prod_beta by (meson order_trans)
qed

lemma gc_pass_total:
  assumes "cfg_ok cfg" and "cache_wf cfg (cr_answer c)"
  obtains c' w' where "gc_pass cfg c w = Some (c', w')"
    and "c' = c\<lparr>cr_answer := map (aged cfg) (filter (alive cfg) (cr_answer c))\<rparr>"
    and "cache_wf cfg (cr_answer c')" and "w_stats w' = w_stats w"
  using cache_wf_gc [OF assms] by (auto simp: gc_pass_def gc_entries_wf_eq [OF assms(2)] Let_def)

section \<open>Query keeps the invariant\<close>

lemma want_to_cache_None:
  "want_to_cache L q reply = None \<longleftrightarrow>
     m_rcode reply = rcode_success \<and> m_response reply \<and> m_opcode reply = opcode_query
     \<and> m_answer reply \<noteq> [] \<and> m_question reply = [q] \<and> \<not> m_truncated reply"
  by (cases "m_question reply") (auto simp: want_to_cache_def)

lemma cache_store_cases:
  obtains (full) "max_cache_size cfg \<le> int (length (cr_answer c))" "cache_store cfg q ttl reply c = (reply, c)"
  | (stored) "int (length (cr_answer c)) < max_cache_size cfg"
      "cache_store cfg q ttl reply c =
         (reply\<lparr>m_answer := set_ttl (m_answer reply) ttl\<rparr>,
          c\<lparr>cr_answer := gm_set q (set_ttl (m_answer reply) ttl) (cr_answer c),
            cr_recorded := cr_recorded c + 1\<rparr>)"
  by (cases "int (length (cr_answer c)) < max_cache_size cfg") (simp_all add: cache_store_def Let_def)

lemma cache_store_wf:
  assumes "cfg_ok cfg" and "cache_wf cfg (cr_answer c)" and "m_answer reply \<noteq> []"
    and "ttl = min (ttl_of (m_answer reply)) (max_ttl cfg)" and "0 \<le> ttl"
  shows "cache_wf cfg (cr_answer (snd (cache_store cfg q ttl reply c)))"
proof (cases rule: cache_store_cases [of cfg c q ttl reply])
  case full
  with assms(2) show ?thesis by simp
next
  case stored
  have "ttl < 2 ^ 32 * second" "ttl \<le> max_ttl cfg"
    using assms(4) ttl_duration_less [of "rr_ttl (hd (m_answer reply))"] by (simp_all add: ttl_of_def)
  then have "entry_ok cfg (set_ttl (m_answer reply) ttl)"
    using assms(3,5) by (intro entry_ok_set_ttl) simp_all
  with stored assms(2) show ?thesis by (simp add: cache_wf_set)
qed

lemma cache_store_frame [simp]:
  "cr_back (snd (cache_store cfg q ttl reply c)) = cr_back c"
  "cr_total (snd (cache_store cfg q ttl reply c)) = cr_total c"
  "cr_bypassed (snd (cache_store cfg q ttl reply c)) = cr_bypassed c"
  "cr_hits (snd (cache_store cfg q ttl reply c)) = cr_hits c"
  "cr_misses (snd (cache_store cfg q ttl reply c)) = cr_misses c"
  by (simp_all add: cache_store_def Let_def)

text \<open>What a miss does with the back resolver's result.\<close>

definition after_miss ::
    "dns_lib \<Rightarrow> cache_cfg \<Rightarrow> question \<Rightarrow> string + msg \<Rightarrow> 's caching \<Rightarrow> world \<Rightarrow> (string + msg) \<times> 's caching \<times> world" where
  "after_miss L cfg q res c w =
     (case res of
        Inl err \<Rightarrow> (Inl err, c, w)
      | Inr reply \<Rightarrow>
          (case want_to_cache L q reply of
             Some err \<Rightarrow> (Inr reply, c, trace_printf (''cache not recording reply: '' @ err) w)
           | None \<Rightarrow>
               (let ttl = min (ttl_of (m_answer reply)) (max_ttl cfg) in
                if ttl < min_ttl cfg then (Inr reply, c, w)
                else (Inr (fst (cache_store cfg q ttl reply c)), snd (cache_store cfg q ttl reply c), w))))"

lemma caching_query_bypass:
  "length (m_question r) \<noteq> 1 \<Longrightarrow>
     caching_query L cfg backq r c w =
       map_option (\<lambda>(res, s, w). (res, c\<lparr>cr_total := cr_total c + 1, cr_bypassed := cr_bypassed c + 1,
           cr_back := s\<rparr>, w))
         (backq r (cr_back c) (trace_printf ''cache bypass: multi-question query'' w))"
  by (auto simp: caching_query_def Let_def map_option_case split: option.splits)

lemma caching_query_hit:
  "m_question r = [q] \<Longrightarrow> map_of (cr_answer c) q = Some ans \<Longrightarrow>
     caching_query L cfg backq r c w =
       Some (Inr (hit_reply r ans), c\<lparr>cr_total := cr_total c + 1, cr_hits := cr_hits c + 1\<rparr>,
         trace_printf ''cache hit'' w)"
  by (simp add: caching_query_def cache_lookup_def Let_def)

lemma caching_query_miss:
  assumes "m_question r = [q]" and "map_of (cr_answer c) q = None"
  shows "caching_query L cfg backq r c w =
       map_option (\<lambda>(res, s, w). after_miss L cfg q res
           (c\<lparr>cr_total := cr_total c + 1, cr_misses := cr_misses c + 1, cr_back := s\<rparr>) w)
         (backq r (cr_back c) (trace_printf ''cache miss'' w))"
proof -
  note defs = caching_query_def cache_lookup_def after_miss_def Let_def assms
  show ?thesis
  proof (cases "backq r (cr_back c) (trace_printf ''cache miss'' w)")
    case None
    then show ?thesis by (simp add: defs)
  next
    case (Some x)
    obtain res s w' where x: "x = (res, s, w')" by (cases x)
    show ?thesis
    proof (cases res)
      case (Inl err)
      with Some x show ?thesis by (simp add: defs)
    next
      case (Inr reply)
      show ?thesis
      proof (cases "want_to_cache L q reply")
        case None
        then have "m_answer reply \<noteq> []" by (simp add: want_to_cache_None)
        with None Some x Inr show ?thesis
          by (simp add: defs limit_ttl_nonempty case_prod_beta)
      next
        case (Some err)
        with \<open>backq r (cr_back c) _ = Some x\<close> x Inr show ?thesis by (simp add: defs)
      qed
    qed
  qed
qed

lemma after_miss_inv:
  assumes "cfg_ok cfg" and "cache_wf cfg (cr_answer c)"
  shows "cache_wf cfg (cr_answer (fst (snd (after_miss L cfg q res c w))))
    \<and> cr_back (fst (snd (after_miss L cfg q res c w))) = cr_back c
    \<and> accounted (fst (snd (after_miss L cfg q res c w))) = accounted c"
  using assms cache_store_wf [OF assms]
  by (auto simp: after_miss_def Let_def want_to_cache_None accounted_def cfg_ok_def
      split: sum.splits option.splits)

section \<open>A cache over a resolver is a resolver\<close>

locale caching_over = resolver query tick rinv
  for query :: "'s query_fn" and tick :: "('s, 'e) tick_fn" and rinv :: "'s \<Rightarrow> bool" +
  fixes L :: dns_lib and cfg :: cache_cfg
  assumes cfg: "cfg_ok cfg"
begin

lemma caching_query_total:
  assumes "caching_inv cfg rinv c"
  shows "\<exists>res c' w'. caching_query L cfg query r c w = Some (res, c', w') \<and> caching_inv cfg rinv c'"
proof -
  have inv: "rinv (cr_back c)" "cache_wf cfg (cr_answer c)" "accounted c"
    using assms by (simp_all add: caching_inv_def)
  obtain res s w1 where byp:
      "query r (cr_back c) (trace_printf ''cache bypass: multi-question query'' w) = Some (res, s, w1)" "rinv s"
    using query_total [OF inv(1)] by blast
  obtain res' s' w2 where miss:
      "query r (cr_back c) (trace_printf ''cache miss'' w) = Some (res', s', w2)" "rinv s'"
    using query_total [OF inv(1)] by blast
  show ?thesis
  proof (cases "length (m_question r) = 1")
    case False
    then show ?thesis
      using byp inv by (simp add: caching_query_bypass caching_inv_def accounted_def)
  next
    case True
    then obtain q where q: "m_question r = [q]" by (auto simp: length_Suc_conv)
    show ?thesis
    proof (cases "map_of (cr_answer c) q")
      case (Some ans)
      then show ?thesis
        using inv by (simp add: caching_query_hit [OF q] caching_inv_def accounted_def)
    next
      case None
      let ?c = "c\<lparr>cr_total := cr_total c + 1, cr_misses := cr_misses c + 1, cr_back := s'\<rparr>"
      obtain res'' c'' w'' where am: "after_miss L cfg q res' ?c w2 = (res'', c'', w'')"
        by (cases "after_miss L cfg q res' ?c w2")
      have "cache_wf cfg (cr_answer c'')" "cr_back c'' = s'" "accounted c''"
        using after_miss_inv [OF cfg, of ?c L q res' w2] inv am by (simp_all add: accounted_def)
      then show ?thesis
        using am miss by (simp add: caching_query_miss [OF q None] caching_inv_def)
    qed
  qed
qed

lemma caching_tick_total:
  assumes "caching_inv cfg rinv c"
  shows "\<exists>c' w'. caching_tick cfg tick e c w = Some (c', w') \<and> caching_inv cfg rinv c'"
proof (cases e)
  case None
  have "cache_wf cfg (cr_answer c)" using assms by (simp add: caching_inv_def)
  with cfg obtain c' w' where "gc_pass cfg c w = Some (c', w')"
      "c' = c\<lparr>cr_answer := map (aged cfg) (filter (alive cfg) (cr_answer c))\<rparr>" "cache_wf cfg (cr_answer c')"
    by (rule gc_pass_total)
  with assms None show ?thesis by (simp add: caching_tick_def caching_inv_def accounted_def)
next
  case (Some b)
  then show ?thesis
    using assms tick_total [of "cr_back c" b w]
    by (fastforce simp: caching_tick_def caching_inv_def accounted_def)
qed

end

sublocale caching_over \<subseteq> cached: resolver "caching_query L cfg query" "caching_tick cfg tick" "caching_inv cfg rinv"
  by unfold_locales (rule caching_query_total caching_tick_total, assumption)+

end
