(* ===== verification/Caching_Heap.thy ===== *)
theory Caching_Heap
  imports Caching_Correct
begin

text \<open>
  The cache of \<^verbatim>\<open>internal/dnsserver/resolver.go\<close> with its records on a heap, and its critical sections in
  any order: a \<^verbatim>\<open>[]dns.RR\<close> is a list of addresses, which the cache shares with the replies it gives
  out. Queries run at the same time, so between the answer of the back resolver and the store under
  the lock (a pending answer) anything may happen. The operations on values of
  \<open>Caching_Resolver\<close> are shown to describe those on the heap, and no answer handed out is written to
  again.
\<close>

section \<open>Records on the heap\<close>

type_synonym rr_addr = nat

definition h_read :: "rr list \<Rightarrow> rr_addr list \<Rightarrow> rr list" where
  "h_read heap answer = map (\<lambda>a. heap ! a) answer"

definition h_set_ttl :: "rr_addr list \<Rightarrow> duration \<Rightarrow> rr list \<Rightarrow> rr list" where
  "h_set_ttl answer newTTL heap =
     foldl (\<lambda>heap a. heap[a := (heap ! a)\<lparr>rr_ttl := duration_ttl newTTL\<rparr>]) heap answer"

definition h_copy_rr_slice :: "rr_addr list \<Rightarrow> rr list \<Rightarrow> rr_addr list \<times> rr list" where
  "h_copy_rr_slice as heap =
     foldl (\<lambda>(b, heap) a. (b @ [length heap], heap @ [heap ! a])) ([], heap) as"

text \<open>The critical sections: the end of \<^verbatim>\<open>Query\<close>, and a pass of \<^verbatim>\<open>Maintain\<close>.\<close>

definition h_cache_store ::
    "cache_cfg \<Rightarrow> question \<Rightarrow> duration \<Rightarrow> rr_addr list \<Rightarrow> rr list \<Rightarrow> (question, rr_addr list) gomap \<Rightarrow>
     rr list \<times> (question, rr_addr list) gomap" where
  "h_cache_store cfg q ttl answer heap m =
     (if int (length m) < max_cache_size cfg
      then (h_set_ttl answer ttl heap, gm_set q answer m)
      else (heap, m))"

fun h_gc_entries ::
    "cache_cfg \<Rightarrow> (question, rr_addr list) gomap \<Rightarrow> rr list \<Rightarrow>
     ((question, rr_addr list) gomap \<times> rr list) option" where
  "h_gc_entries cfg [] heap = Some ([], heap)"
| "h_gc_entries cfg ((q, ans) # rest) heap =
     (case get_ttl (h_read heap ans) of
        None \<Rightarrow> None
      | Some ttl \<Rightarrow>
          (let newTTL = ttl - maintenance_period cfg in
           if newTTL > 0
           then (let (newans, heap) = h_copy_rr_slice ans heap;
                     heap = h_set_ttl newans newTTL heap
                 in map_option (\<lambda>(m, heap). ((q, newans) # m, heap)) (h_gc_entries cfg rest heap))
           else h_gc_entries cfg rest heap))"

section \<open>Interleavings\<close>

record shared_cache =
  sh_heap :: "rr list"
  sh_answer :: "(question, rr_addr list) gomap"
  sh_pending :: "(question \<times> rr_addr list \<times> duration) list"
  sh_held :: "(question \<times> rr_addr list) list"
  sh_fetched :: "(question \<times> msg) list"

definition empty_shared :: shared_cache where
  "empty_shared = \<lparr>sh_heap = [], sh_answer = [], sh_pending = [], sh_held = [], sh_fetched = []\<rparr>"

text \<open>
  A reply of the back resolver has new records. It is handed out as it is, or pending when it is to
  be stored; \<open>sh_held\<close> are the answers callers have, and \<open>sh_fetched\<close> those that came from the back
  resolver, for the properties only.
\<close>

definition fetch :: "question \<Rightarrow> msg \<Rightarrow> shared_cache \<Rightarrow> rr_addr list \<times> shared_cache" where
  "fetch q reply s =
     ([length (sh_heap s)..<length (sh_heap s) + length (m_answer reply)],
      s\<lparr>sh_heap := sh_heap s @ m_answer reply, sh_fetched := (q, reply) # sh_fetched s\<rparr>)"

definition worth_storing :: "dns_lib \<Rightarrow> cache_cfg \<Rightarrow> question \<Rightarrow> msg \<Rightarrow> duration \<Rightarrow> bool" where
  "worth_storing L cfg q reply ttl \<longleftrightarrow> want_to_cache L q reply = None \<and> limit_ttl cfg (m_answer reply) = Some ttl
     \<and> min_ttl cfg \<le> ttl"

inductive cache_step :: "dns_lib \<Rightarrow> cache_cfg \<Rightarrow> shared_cache \<Rightarrow> shared_cache \<Rightarrow> bool" for L cfg where
  hit: "map_of (sh_answer s) q = Some ans \<Longrightarrow> cache_step L cfg s (s\<lparr>sh_held := (q, ans) # sh_held s\<rparr>)"
| passed: "fetch q reply s = (ans, s') \<Longrightarrow> \<not> (\<exists>ttl. worth_storing L cfg q reply ttl) \<Longrightarrow>
     cache_step L cfg s (s'\<lparr>sh_held := (q, ans) # sh_held s'\<rparr>)"
| fetched: "fetch q reply s = (ans, s') \<Longrightarrow> worth_storing L cfg q reply ttl \<Longrightarrow>
     cache_step L cfg s (s'\<lparr>sh_pending := (q, ans, ttl) # sh_pending s'\<rparr>)"
| stored: "sh_pending s = xs @ (q, ans, ttl) # ys \<Longrightarrow>
     h_cache_store cfg q ttl ans (sh_heap s) (sh_answer s) = (heap, m) \<Longrightarrow>
     cache_step L cfg s (s\<lparr>sh_heap := heap, sh_answer := m, sh_pending := xs @ ys, sh_held := (q, ans) # sh_held s\<rparr>)"
| collected: "h_gc_entries cfg (sh_answer s) (sh_heap s) = Some (m, heap) \<Longrightarrow>
     cache_step L cfg s (s\<lparr>sh_heap := heap, sh_answer := m\<rparr>)"
| flushed: "cache_step L cfg s (s\<lparr>sh_answer := []\<rparr>)"

definition cache_reachable :: "dns_lib \<Rightarrow> cache_cfg \<Rightarrow> shared_cache \<Rightarrow> bool" where
  "cache_reachable L cfg s \<longleftrightarrow> (cache_step L cfg)\<^sup>*\<^sup>* empty_shared s"

section \<open>Reading and writing\<close>

definition addrs_ok :: "rr list \<Rightarrow> rr_addr list \<Rightarrow> bool" where
  "addrs_ok heap answer \<longleftrightarrow> (\<forall>a \<in> set answer. a < length heap)"

lemma length_h_set_ttl [simp]: "length (h_set_ttl answer d heap) = length heap"
  by (induction answer arbitrary: heap) (simp_all add: h_set_ttl_def)

lemma h_set_ttl_nth:
  "a < length heap \<Longrightarrow> h_set_ttl answer d heap ! a =
     (if a \<in> set answer then (heap ! a)\<lparr>rr_ttl := duration_ttl d\<rparr> else heap ! a)"
proof (induction answer arbitrary: heap)
  case Nil
  then show ?case by (simp add: h_set_ttl_def)
next
  case (Cons b answer)
  let ?heap = "heap[b := (heap ! b)\<lparr>rr_ttl := duration_ttl d\<rparr>]"
  have "h_set_ttl (b # answer) d heap = h_set_ttl answer d ?heap" by (simp add: h_set_ttl_def)
  with Cons.IH [of ?heap] Cons.prems show ?case by (cases "a = b") simp_all
qed

lemma h_read_set_ttl: "addrs_ok heap answer \<Longrightarrow> h_read (h_set_ttl answer d heap) answer = set_ttl (h_read heap answer) d"
  by (simp add: h_read_def set_ttl_def addrs_ok_def h_set_ttl_nth)

lemma h_read_set_ttl_other:
  "addrs_ok heap other \<Longrightarrow> set other \<inter> set answer = {} \<Longrightarrow> h_read (h_set_ttl answer d heap) other = h_read heap other"
  by (auto simp: h_read_def addrs_ok_def h_set_ttl_nth)

lemma h_copy_rr_slice_eq:
  "addrs_ok heap as \<Longrightarrow> h_copy_rr_slice as heap = ([length heap..<length heap + length as], heap @ h_read heap as)"
proof -
  have "foldl (\<lambda>(b, heap) a. (b @ [length heap], heap @ [heap ! a])) (b, heap @ ext) as
      = (b @ [length (heap @ ext)..<length (heap @ ext) + length as], (heap @ ext) @ h_read heap as)"
    if "addrs_ok heap as" for b ext
    using that
  proof (induction as arbitrary: b ext)
    case Nil
    then show ?case by (simp add: h_read_def)
  next
    case (Cons a as)
    then have "(heap @ ext) ! a = heap ! a" "addrs_ok heap as" by (simp_all add: addrs_ok_def nth_append)
    with Cons.IH [of "b @ [length (heap @ ext)]" "ext @ [heap ! a]"] show ?case
      by (simp add: h_read_def upt_conv_Cons del: upt_Suc)
  qed
  from this [of "[]" "[]"] show "addrs_ok heap as \<Longrightarrow> ?thesis" by (simp add: h_copy_rr_slice_def)
qed

lemma addrs_ok_append: "addrs_ok heap answer \<Longrightarrow> addrs_ok (heap @ ext) answer"
  by (auto simp: addrs_ok_def)

lemma h_read_append: "addrs_ok heap answer \<Longrightarrow> h_read (heap @ ext) answer = h_read heap answer"
  by (auto simp: addrs_ok_def h_read_def nth_append)

lemma h_read_new: "h_read (heap @ xs) [length heap..<length heap + length xs] = xs"
  by (intro nth_equalityI) (simp_all add: h_read_def nth_append)

lemma h_set_ttl_new:
  "h_set_ttl [length heap..<length heap + length xs] d (heap @ xs) = heap @ set_ttl xs d"
  by (intro nth_equalityI) (auto simp: h_set_ttl_nth nth_append set_ttl_def)

section \<open>The operations on values\<close>

text \<open>The cache with its answers read: the abstraction to \<open>Caching_Resolver\<close>.\<close>

definition h_values :: "rr list \<Rightarrow> (question, rr_addr list) gomap \<Rightarrow> (question, rr list) gomap" where
  "h_values heap m = map (\<lambda>(q, answer). (q, h_read heap answer)) m"

definition h_ok :: "rr list \<Rightarrow> (question, rr_addr list) gomap \<Rightarrow> bool" where
  "h_ok heap m \<longleftrightarrow> (\<forall>(q, answer) \<in> set m. addrs_ok heap answer)"

lemma h_values_simps [simp]:
  "h_values heap [] = []" "h_values heap ((q, answer) # m) = (q, h_read heap answer) # h_values heap m"
  "length (h_values heap m) = length m"
  by (simp_all add: h_values_def)

lemma h_ok_simps [simp]:
  "h_ok heap []" "h_ok heap ((q, answer) # m) \<longleftrightarrow> addrs_ok heap answer \<and> h_ok heap m"
  by (simp_all add: h_ok_def)

lemma h_values_append: "h_ok heap m \<Longrightarrow> h_values (heap @ ext) m = h_values heap m"
  by (induction m) (auto simp: h_read_append)

lemma h_ok_append: "h_ok heap m \<Longrightarrow> h_ok (heap @ ext) m"
  by (induction m) (auto simp: addrs_ok_append)

lemma map_of_h_values: "map_of (h_values heap m) q = map_option (h_read heap) (map_of m q)"
  by (induction m) auto

lemma h_values_gm_set: "h_values heap (gm_set q answer m) = gm_set q (h_read heap answer) (h_values heap m)"
  by (induction m) auto

text \<open>Copying an answer and lowering the TTL of the copy: the copy is at the end of the heap.\<close>

lemma h_copy_aged:
  fixes d :: duration
  assumes "addrs_ok heap ans"
  defines "new \<equiv> [length heap..<length heap + length ans]" and "heap1 \<equiv> heap @ set_ttl (h_read heap ans) d"
  shows "h_copy_rr_slice ans heap = (new, heap @ h_read heap ans)"
    and "h_set_ttl new d (heap @ h_read heap ans) = heap1"
    and "h_read heap1 new = set_ttl (h_read heap ans) d" and "addrs_ok heap1 new" and "\<forall>a \<in> set new. length heap \<le> a"
proof -
  have len: "length (h_read heap ans) = length ans" by (simp add: h_read_def)
  show "h_copy_rr_slice ans heap = (new, heap @ h_read heap ans)" using h_copy_rr_slice_eq [OF assms(1)] by (simp add: new_def)
  show "h_set_ttl new d (heap @ h_read heap ans) = heap1"
    using h_set_ttl_new [of heap "h_read heap ans" d] by (simp add: new_def heap1_def len)
  show "h_read heap1 new = set_ttl (h_read heap ans) d" "addrs_ok heap1 new" "\<forall>a \<in> set new. length heap \<le> a"
    using h_read_new [of heap "set_ttl (h_read heap ans) d"] by (simp_all add: heap1_def new_def len addrs_ok_def)
qed

text \<open>A pass of the maintenance leaves every record there was as it was.\<close>

lemma h_gc_entries_refines:
  "h_ok heap m \<Longrightarrow> gc_entries cfg (h_values heap m) = Some (vm, expired) \<Longrightarrow>
    \<exists>m' ext. h_gc_entries cfg m heap = Some (m', heap @ ext) \<and> h_values (heap @ ext) m' = vm \<and> h_ok (heap @ ext) m'
      \<and> (\<forall>(q, answer) \<in> set m'. \<forall>a \<in> set answer. length heap \<le> a)
      \<and> (\<forall>(q, answer) \<in> set m'. \<exists>old. (q, old) \<in> set m \<and> payload (h_read (heap @ ext) answer) = payload (h_read heap old))"
proof (induction m arbitrary: heap vm expired)
  case Nil
  then show ?case by (intro exI [of _ "[]"]) simp
next
  case (Cons e m)
  obtain q ans where e: "e = (q, ans)" by (cases e)
  have ok: "addrs_ok heap ans" "h_ok heap m" using Cons.prems(1) by (simp_all add: e)
  obtain ttl vm1 ex1 where ttl: "get_ttl (h_read heap ans) = Some ttl"
      and rest: "gc_entries cfg (h_values heap m) = Some (vm1, ex1)"
    using Cons.prems(2) by (auto simp: e split: option.splits)
  show ?case
  proof (cases "0 < ttl - maintenance_period cfg")
    case False
    with Cons.prems(2) ttl rest have "vm = vm1" by (simp add: e Let_def)
    with Cons.IH [OF ok(2) rest] False ttl show ?thesis by (fastforce simp: e Let_def)
  next
    case True
    define d where "d = ttl - maintenance_period cfg"
    define new where "new = [length heap..<length heap + length ans]"
    define heap1 where "heap1 = heap @ set_ttl (h_read heap ans) d"
    note copied = h_copy_aged(1) [OF ok(1), folded new_def] h_copy_aged(2-4) [OF ok(1), of d, folded new_def heap1_def]
      h_copy_aged(5) [OF ok(1), folded new_def]
    have "h_ok heap1 m" "gc_entries cfg (h_values heap1 m) = Some (vm1, ex1)"
      using ok(2) rest by (simp_all add: heap1_def h_ok_append h_values_append)
    from Cons.IH [OF this] obtain m' ext where IH: "h_gc_entries cfg m heap1 = Some (m', heap1 @ ext)"
        "h_values (heap1 @ ext) m' = vm1" "h_ok (heap1 @ ext) m'"
        "\<forall>(q, answer) \<in> set m'. \<forall>a \<in> set answer. length heap1 \<le> a"
        "\<forall>(q, answer) \<in> set m'. \<exists>old. (q, old) \<in> set m \<and> payload (h_read (heap1 @ ext) answer) = payload (h_read heap1 old)"
      by blast
    have olds: "(q', old) \<in> set m \<Longrightarrow> h_read heap1 old = h_read heap old" for q' old
      using ok(2) by (auto simp: heap1_def h_ok_def h_read_append)
    have "h_gc_entries cfg (e # m) heap = Some ((q, new) # m', heap1 @ ext)"
      using ttl True copied(1,2) IH(1) by (simp add: e Let_def d_def)
    moreover have "vm = (q, set_ttl (h_read heap ans) d) # vm1"
      using Cons.prems(2) ttl rest True by (simp add: e Let_def d_def)
    moreover have "h_read (heap1 @ ext) new = set_ttl (h_read heap ans) d"
      using copied(3,4) by (simp add: h_read_append)
    moreover have "addrs_ok (heap1 @ ext) new" using copied(4) by (rule addrs_ok_append)
    moreover have "\<forall>(q, answer) \<in> set m'. \<forall>a \<in> set answer. length heap \<le> a"
      using IH(4) by (fastforce simp: heap1_def)
    moreover have "\<forall>(q, answer) \<in> set m'. \<exists>old. (q, old) \<in> set m \<and> payload (h_read (heap1 @ ext) answer) = payload (h_read heap old)"
      using IH(5) olds by fastforce
    ultimately show ?thesis
      using IH(2,3) copied(5)
      by (intro exI [of _ "(q, new) # m'"] exI [of _ "set_ttl (h_read heap ans) d @ ext"])
        (fastforce simp: e heap1_def)
  qed
qed

end
