(* ===== verification/Caching_Properties.thy ===== *)
theory Caching_Properties
  imports Caching_Correct
begin

text \<open>
  The properties of the caching resolver: what each branch of \<^verbatim>\<open>Query\<close> returns and records, that a
  recorded answer is served again, ageing and expiry over any number of maintenance passes, and
  the refinement of a cache whose entries carry absolute deadlines.
\<close>

section \<open>Concrete values for the witnesses\<close>

definition ex_q :: question where
  "ex_q = \<lparr>q_name = ''test.'', q_type = 1, q_class = 1\<rparr>"

definition ex_rr :: "u32 \<Rightarrow> rr" where
  "ex_rr t = \<lparr>rr_name = ''test.'', rr_type = 1, rr_class = 1, rr_ttl = t, rr_data = [1, 2, 3, 4]\<rparr>"

definition ex_query :: "u16 \<Rightarrow> msg" where
  "ex_query i = empty_msg\<lparr>m_id := i, m_recursion_desired := True, m_question := [ex_q]\<rparr>"

definition ex_reply :: "u32 \<Rightarrow> msg" where
  "ex_reply t = empty_msg\<lparr>m_response := True, m_authoritative := True, m_question := [ex_q],
     m_answer := [ex_rr t]\<rparr>"

definition ex_back :: "string + msg \<Rightarrow> nat query_fn" where
  "ex_back res r n w = Some (res, n + 1, w)"

lemmas ex_defs = ex_q_def ex_rr_def ex_query_def ex_reply_def empty_msg_def

section \<open>The branches of Query\<close>

text \<open>
  A question in the cache is answered from the cache: the reply carries the id and question of
  the query and the stored records, it is not authoritative, and neither the back resolver nor
  any entry is touched; the query counts as a hit.
\<close>

lemma caching_query_hit_correct:
  assumes "m_question r = [q]" and "map_of (cr_answer c) q = Some ans"
  shows "\<exists>reply w'. caching_query L cfg backq r c w =
      Some (Inr reply, c\<lparr>cr_total := cr_total c + 1, cr_hits := cr_hits c + 1\<rparr>, w')
    \<and> m_id reply = m_id r \<and> m_question reply = [q] \<and> m_answer reply = ans
    \<and> m_response reply \<and> \<not> m_authoritative reply \<and> m_rcode reply = rcode_success
    \<and> w_stats w' = w_stats w"
  using assms(1) caching_query_hit [OF assms, of L cfg backq w]
  by (simp add: hit_reply_def empty_msg_def)

text \<open>
  C34: the cache records nothing but good answers. When the back resolver fails, its error is
  passed on; when its reply is not worth caching (it failed, is no response, is truncated, empty,
  or answers another question), lives for less than the minimum, or the cache is full, the reply is
  passed on as it is; in all these cases every entry stays as it was.
\<close>

theorem caching_query_not_recorded:
  assumes "m_question r = [q]" and "map_of (cr_answer c) q = None"
    and "backq r (cr_back c) (trace_printf ''cache miss'' w) = Some (res, s, w1)"
    and "case res of Inl err \<Rightarrow> True
         | Inr reply \<Rightarrow> want_to_cache L q reply \<noteq> None
             \<or> min (ttl_of (m_answer reply)) (max_ttl cfg) < min_ttl cfg
             \<or> max_cache_size cfg \<le> int (length (cr_answer c))"
  shows "\<exists>w'. caching_query L cfg backq r c w =
     Some (res, c\<lparr>cr_total := cr_total c + 1, cr_misses := cr_misses c + 1, cr_back := s\<rparr>, w')"
proof (cases res)
  case (Inl err)
  then show ?thesis
    by (simp add: caching_query_miss [OF assms(1,2)] assms(3) after_miss_def)
next
  case (Inr reply)
  show ?thesis
  proof (cases "want_to_cache L q reply")
    case None
    with Inr assms(4) show ?thesis
      by (auto simp: caching_query_miss [OF assms(1,2)] assms(3) after_miss_def Let_def cache_store_def)
  next
    case (Some err)
    with Inr show ?thesis
      by (simp add: caching_query_miss [OF assms(1,2)] assms(3) after_miss_def)
  qed
qed

theorem caching_query_not_recorded_witness:
  "\<exists>w'. caching_query plain_lib default_cfg (ex_back (Inr (ex_reply 60))) (ex_query 7)
      (new_caching_resolver 0) empty_world =
     Some (Inr (ex_reply 60), (new_caching_resolver 0)\<lparr>cr_total := 1, cr_misses := 1, cr_back := 1\<rparr>, w')"
  using caching_query_not_recorded [of "ex_query 7" ex_q "new_caching_resolver 0"
      "ex_back (Inr (ex_reply 60))" empty_world "Inr (ex_reply 60)" 1
      "trace_printf ''cache miss'' empty_world" plain_lib default_cfg]
  by (simp add: ex_defs new_caching_resolver_def ex_back_def want_to_cache_def ttl_of_def
      ttl_duration_def default_cfg_def)

text \<open>
  C13: a good answer is recorded and served again. After a miss whose reply is worth caching, lives
  long enough and finds room, the reply is returned with its TTLs set to that of its first record,
  capped at the maximum; and the next query for the question, whatever its id, whatever the back
  resolver would say, gets these same records from the cache.
\<close>

theorem caching_query_recorded_then_hit:
  assumes "m_question r = [q]" and "m_question r' = [q]" and "map_of (cr_answer c) q = None"
    and "backq r (cr_back c) (trace_printf ''cache miss'' w) = Some (Inr reply, s, w1)"
    and "want_to_cache L q reply = None" and "int (length (cr_answer c)) < max_cache_size cfg"
    and "min_ttl cfg \<le> min (ttl_of (m_answer reply)) (max_ttl cfg)"
  shows "\<exists>c'. caching_query L cfg backq r c w =
        Some (Inr (reply\<lparr>m_answer := set_ttl (m_answer reply) (min (ttl_of (m_answer reply)) (max_ttl cfg))\<rparr>), c', w1)
      \<and> cr_recorded c' = cr_recorded c + 1
      \<and> (\<exists>w'. caching_query L cfg backq' r' c' w2 =
           Some (Inr (hit_reply r' (set_ttl (m_answer reply) (min (ttl_of (m_answer reply)) (max_ttl cfg)))),
             c'\<lparr>cr_total := cr_total c' + 1, cr_hits := cr_hits c' + 1\<rparr>, w'))"
proof -
  let ?ans = "set_ttl (m_answer reply) (min (ttl_of (m_answer reply)) (max_ttl cfg))"
  let ?c = "c\<lparr>cr_total := cr_total c + 1, cr_misses := cr_misses c + 1, cr_back := s,
    cr_answer := gm_set q ?ans (cr_answer c), cr_recorded := cr_recorded c + 1\<rparr>"
  have "\<not> min (ttl_of (m_answer reply)) (max_ttl cfg) < min_ttl cfg" using assms(7) by (rule leD)
  then have "caching_query L cfg backq r c w = Some (Inr (reply\<lparr>m_answer := ?ans\<rparr>), ?c, w1)"
    using assms(1-6) by (simp add: caching_query_miss [OF assms(1,3)] after_miss_def cache_store_def Let_def)
  moreover have "map_of (cr_answer ?c) q = Some ?ans" by simp
  note caching_query_hit [OF assms(2) this, of L cfg backq' w2]
  ultimately show ?thesis by fastforce
qed

theorem caching_query_recorded_then_hit_witness:
  "\<exists>c'. caching_query plain_lib default_cfg (ex_back (Inr (ex_reply 86400))) (ex_query 7)
        (new_caching_resolver 0) empty_world =
      Some (Inr (ex_reply 7200), c', trace_printf ''cache miss'' empty_world)
    \<and> (\<exists>w'. caching_query plain_lib default_cfg (ex_back (Inl ''down'')) (ex_query 8) c' empty_world =
        Some (Inr (hit_reply (ex_query 8) [ex_rr 7200]),
          c'\<lparr>cr_total := cr_total c' + 1, cr_hits := cr_hits c' + 1\<rparr>, w'))"
  using caching_query_recorded_then_hit [of "ex_query 7" ex_q "ex_query 8" "new_caching_resolver 0"
      "ex_back (Inr (ex_reply 86400))" empty_world "ex_reply 86400" 1
      "trace_printf ''cache miss'' empty_world" plain_lib default_cfg "ex_back (Inl ''down'')" empty_world]
  by (auto simp: ex_defs new_caching_resolver_def ex_back_def want_to_cache_def ttl_of_def
      ttl_duration_def default_cfg_def set_ttl_def duration_ttl_def)

section \<open>Ageing and expiry\<close>

text \<open>Any number of passes of the loop of \<^verbatim>\<open>Maintain\<close>, with no query in between.\<close>

fun gc_rounds :: "cache_cfg \<Rightarrow> nat \<Rightarrow> (question, rr list) gomap \<Rightarrow> (question, rr list) gomap option" where
  "gc_rounds cfg 0 m = Some m"
| "gc_rounds cfg (Suc n) m =
     (case gc_entries cfg m of None \<Rightarrow> None | Some (m', expired) \<Rightarrow> gc_rounds cfg n m')"

definition whole_seconds :: "cache_cfg \<Rightarrow> bool" where
  "whole_seconds cfg \<longleftrightarrow> second dvd maintenance_period cfg"

lemma ttl_of_aged:
  assumes "whole_seconds cfg" and "cfg_ok cfg" and "alive cfg (q, ans)" and "ans \<noteq> []"
  shows "ttl_of (snd (aged cfg (q, ans))) = ttl_of ans - maintenance_period cfg"
proof -
  have "second dvd ttl_of ans - maintenance_period cfg"
    using assms(1) dvd_ttl_duration by (simp add: whole_seconds_def ttl_of_def)
  moreover have "0 \<le> ttl_of ans - maintenance_period cfg" "ttl_of ans - maintenance_period cfg < 2 ^ 32 * second"
    using assms(2,3) ttl_duration_less [of "rr_ttl (hd ans)"]
    by (simp_all add: alive_def cfg_ok_def ttl_of_def)
  ultimately show ?thesis
    using assms(4) by (simp add: aged_def ttl_of_set_ttl ttl_duration_inverse)
qed

lemma map_of_gc:
  assumes "cache_wf cfg m"
  shows "map_of (map (aged cfg) (filter (alive cfg) m)) q =
    (case map_of m q of None \<Rightarrow> None
     | Some ans \<Rightarrow> if alive cfg (q, ans) then Some (snd (aged cfg (q, ans))) else None)"
proof -
  have "map (aged cfg) es = map (\<lambda>(k, v). (k, snd (aged cfg (k, v)))) es" for es
    by (simp add: aged_def case_prod_beta)
  then have "map_of (map (aged cfg) (filter (alive cfg) m)) q =
      map_option (\<lambda>v. snd (aged cfg (q, v))) (map_of (filter (alive cfg) m) q)"
    by (simp only: map_of_map_values)
  also have "map_of (filter (alive cfg) m) q =
      (case map_of m q of None \<Rightarrow> None | Some v \<Rightarrow> if alive cfg (q, v) then Some v else None)"
    using assms by (intro map_of_filter_wf) (simp add: cache_wf_def)
  finally show ?thesis by (simp split: option.splits)
qed

text \<open>What a client can tell of an entry: its records, and how long it still has.\<close>

definition entry_view :: "(question, rr list) gomap \<Rightarrow> question \<Rightarrow> (rr list \<times> duration) option" where
  "entry_view m q = map_option (\<lambda>ans. (payload ans, ttl_of ans)) (map_of m q)"

lemma entry_view_gc:
  assumes "cfg_ok cfg" and "whole_seconds cfg" and "cache_wf cfg m"
  shows "entry_view (map (aged cfg) (filter (alive cfg) m)) q =
    (case entry_view m q of None \<Rightarrow> None
     | Some (p, t) \<Rightarrow> if maintenance_period cfg < t then Some (p, t - maintenance_period cfg) else None)"
proof (cases "map_of m q")
  case None
  then show ?thesis by (simp add: entry_view_def map_of_gc [OF assms(3)])
next
  case (Some ans)
  then have ne: "ans \<noteq> []" using assms(3) by (auto dest: cache_wf_nonempty map_of_SomeD)
  show ?thesis
  proof (cases "alive cfg (q, ans)")
    case True
    note t = ttl_of_aged [OF assms(2,1) True ne]
    have "payload (snd (aged cfg (q, ans))) = payload ans" by (simp add: aged_def)
    moreover have "maintenance_period cfg < ttl_of ans" using True by (simp add: alive_def)
    ultimately show ?thesis using Some True t
      by (simp add: entry_view_def map_of_gc [OF assms(3)])
  next
    case False
    then show ?thesis using Some by (simp add: entry_view_def map_of_gc [OF assms(3)] alive_def)
  qed
qed

text \<open>
  C33: ageing is exact over any number of passes. After \<open>n\<close> passes an entry is still served
  exactly when \<open>n\<close> maintenance periods are less than its TTL; then its records are unchanged and
  its TTL is the original one less the time passed. The passes never panic and never add an
  entry.
\<close>

theorem gc_rounds_exact:
  assumes "cfg_ok cfg" and "whole_seconds cfg" and "cache_wf cfg m"
  shows "\<exists>m'. gc_rounds cfg n m = Some m' \<and> cache_wf cfg m' \<and>
    (\<forall>q. entry_view m' q =
      (case entry_view m q of None \<Rightarrow> None
       | Some (p, t) \<Rightarrow> if n = 0 \<or> int n * maintenance_period cfg < t
           then Some (p, t - int n * maintenance_period cfg) else None))"
  using assms(3)
proof (induction n arbitrary: m)
  case 0
  then show ?case by (auto split: option.split)
next
  case (Suc n)
  let ?P = "maintenance_period cfg"
  let ?m1 = "map (aged cfg) (filter (alive cfg) m)"
  have P: "0 < ?P" using assms(1) by (simp add: cfg_ok_def)
  have g: "gc_rounds cfg (Suc n) m = gc_rounds cfg n ?m1"
    by (simp add: gc_entries_wf_eq [OF Suc.prems])
  obtain m' where m': "gc_rounds cfg n ?m1 = Some m'" "cache_wf cfg m'"
    and v: "\<And>q. entry_view m' q = (case entry_view ?m1 q of None \<Rightarrow> None
       | Some (p, t) \<Rightarrow> if n = 0 \<or> int n * ?P < t then Some (p, t - int n * ?P) else None)"
    using Suc.IH [OF cache_wf_gc [OF assms(1) Suc.prems]] by blast
  have "entry_view m' q = (case entry_view m q of None \<Rightarrow> None
       | Some (p, t) \<Rightarrow> if Suc n = 0 \<or> int (Suc n) * ?P < t
           then Some (p, t - int (Suc n) * ?P) else None)" for q
  proof (cases "entry_view m q")
    case None
    then show ?thesis by (simp add: v entry_view_gc [OF assms(1,2) Suc.prems])
  next
    case (Some pt)
    have "0 \<le> int n * ?P" using P by simp
    then show ?thesis
      using Some by (cases pt) (auto simp: v entry_view_gc [OF assms(1,2) Suc.prems] distrib_right)
  qed
  with m' show ?case unfolding g by blast
qed

lemma cache_wf_example: "cache_wf default_cfg [(ex_q, [ex_rr 120])]"
  by (simp add: cache_wf_def gm_wf_def entry_ok_def ttl_of_def ttl_duration_def default_cfg_def ex_rr_def)

lemma whole_seconds_default: "whole_seconds default_cfg"
  by (simp add: whole_seconds_def default_cfg_def)

theorem gc_rounds_exact_witness:
  "\<exists>m'. gc_rounds default_cfg 3 [(ex_q, [ex_rr 120])] = Some m' \<and> cache_wf default_cfg m'
     \<and> entry_view m' ex_q = Some ([ex_rr 0], 30 * second)"
proof -
  have "entry_view [(ex_q, [ex_rr 120])] ex_q = Some ([ex_rr 0], 120 * second)"
    by (simp add: entry_view_def payload_def ttl_of_def ttl_duration_def ex_rr_def)
  moreover have "maintenance_period default_cfg = 30 * second"
    by (simp add: default_cfg_def)
  ultimately show ?thesis
    using gc_rounds_exact [OF cfg_ok_default whole_seconds_default cache_wf_example, of 3] by fastforce
qed

section \<open>Refinement of a cache with deadlines\<close>

text \<open>
  The specification of a cache: each question maps to records and the instant they expire. Storing
  sets the deadline to the time plus the TTL, a clean-up at an instant drops what has expired by
  then, and a lookup never changes anything. The code has no instants: it counts TTLs down. With
  the clock of the maintenance loop, the entries of the code are the specification's, with the
  remaining time in place of the deadline.
\<close>

type_synonym spec_cache = "question \<Rightarrow> (rr list \<times> instant) option"

definition spec_store :: "instant \<Rightarrow> question \<Rightarrow> rr list \<Rightarrow> duration \<Rightarrow> spec_cache \<Rightarrow> spec_cache" where
  "spec_store now q p ttl A = A(q \<mapsto> (p, now + ttl))"

definition spec_expire :: "instant \<Rightarrow> spec_cache \<Rightarrow> spec_cache" where
  "spec_expire now A = (\<lambda>q. case A q of None \<Rightarrow> None
     | Some (p, deadline) \<Rightarrow> if now < deadline then Some (p, deadline) else None)"

definition abs_cache :: "instant \<Rightarrow> (question, rr list) gomap \<Rightarrow> spec_cache" where
  "abs_cache now m = (\<lambda>q. map_option (\<lambda>(p, t). (p, now + t)) (entry_view m q))"

text \<open>
  C21: the cache implements the specification. A maintenance pass is a clean-up at the time the pass
  stands for, storing a reply is storing its records with the deadline of its limited TTL, and
  flushing gives the empty cache.
\<close>

theorem cache_refines_deadlines:
  assumes "cfg_ok cfg" and "whole_seconds cfg" and "cache_wf cfg (cr_answer c)"
    and "m_answer reply \<noteq> []" and "int (length (cr_answer c)) < max_cache_size cfg"
    and "ttl = min (ttl_of (m_answer reply)) (max_ttl cfg)" and "second dvd ttl" and "0 \<le> ttl"
  shows "(\<exists>m' n. gc_entries cfg (cr_answer c) = Some (m', n) \<and>
      abs_cache (now + maintenance_period cfg) m' =
        spec_expire (now + maintenance_period cfg) (abs_cache now (cr_answer c)))
    \<and> abs_cache now (cr_answer (snd (cache_store cfg q ttl reply c))) =
        spec_store now q (payload (m_answer reply)) ttl (abs_cache now (cr_answer c))
    \<and> abs_cache now (cr_answer (fst (flush_cache c))) = (\<lambda>q. None)"
proof (intro conjI)
  let ?m1 = "map (aged cfg) (filter (alive cfg) (cr_answer c))"
  have "abs_cache (now + maintenance_period cfg) ?m1 =
      spec_expire (now + maintenance_period cfg) (abs_cache now (cr_answer c))"
    by (rule ext) (auto simp: abs_cache_def spec_expire_def entry_view_gc [OF assms(1-3)] split: option.split)
  then show "\<exists>m' n. gc_entries cfg (cr_answer c) = Some (m', n) \<and>
      abs_cache (now + maintenance_period cfg) m' =
        spec_expire (now + maintenance_period cfg) (abs_cache now (cr_answer c))"
    using gc_entries_wf_eq [OF assms(3)] by blast
next
  have "ttl < 2 ^ 32 * second"
    using assms(6) ttl_duration_less [of "rr_ttl (hd (m_answer reply))"] by (simp add: ttl_of_def)
  with assms(4,7,8) have "ttl_of (set_ttl (m_answer reply) ttl) = ttl"
    by (simp add: ttl_of_set_ttl ttl_duration_inverse)
  with assms(5) show "abs_cache now (cr_answer (snd (cache_store cfg q ttl reply c))) =
        spec_store now q (payload (m_answer reply)) ttl (abs_cache now (cr_answer c))"
    by (auto simp: abs_cache_def spec_store_def cache_store_def entry_view_def Let_def fun_eq_iff)
qed (simp add: abs_cache_def entry_view_def flush_cache_def)

theorem cache_refines_deadlines_witness:
  "abs_cache 1000 (cr_answer (snd (cache_store default_cfg ex_q (120 * second) (ex_reply 120)
        (new_caching_resolver (0::nat))))) =
     spec_store 1000 ex_q [ex_rr 0] (120 * second) (\<lambda>q. None)"
  using cache_refines_deadlines [OF cfg_ok_default whole_seconds_default,
      of "new_caching_resolver (0::nat)" "ex_reply 120" "120 * second" 1000 ex_q]
  by (simp add: new_caching_resolver_def ex_reply_def ex_rr_def default_cfg_def ttl_of_def
      ttl_duration_def payload_def abs_cache_def entry_view_def)

end
