(* ===== verification/Caching_Threads.thy ===== *)
theory Caching_Threads
  imports Caching_Heap Caching_Properties
begin

text \<open>
  The invariant of the cache on the heap under any interleaving of its critical sections, and what
  it gives: the cache stays well-formed, no pass of the maintenance panics, what is cached or handed
  out for a question came from the back resolver for it, and an answer handed out never changes.
\<close>

section \<open>The invariant\<close>

definition pending_addrs :: "shared_cache \<Rightarrow> rr_addr list" where
  "pending_addrs s = concat (map (fst \<circ> snd) (sh_pending s))"

definition shared_addrs :: "shared_cache \<Rightarrow> rr_addr set" where
  "shared_addrs s = (\<Union>(q, answer) \<in> set (sh_answer s) \<union> set (sh_held s). set answer)"

text \<open>The answers for a question that came from the back resolver, up to their TTLs.\<close>

definition came_from :: "shared_cache \<Rightarrow> question \<Rightarrow> rr_addr list \<Rightarrow> bool" where
  "came_from s q answer \<longleftrightarrow> (\<exists>reply. (q, reply) \<in> set (sh_fetched s)
     \<and> payload (h_read (sh_heap s) answer) = payload (m_answer reply))"

definition recorded_from :: "dns_lib \<Rightarrow> shared_cache \<Rightarrow> question \<Rightarrow> rr_addr list \<Rightarrow> bool" where
  "recorded_from L s q answer \<longleftrightarrow> (\<exists>reply. (q, reply) \<in> set (sh_fetched s) \<and> want_to_cache L q reply = None
     \<and> payload (h_read (sh_heap s) answer) = payload (m_answer reply))"

definition pending_ok :: "dns_lib \<Rightarrow> cache_cfg \<Rightarrow> shared_cache \<Rightarrow> question \<times> rr_addr list \<times> duration \<Rightarrow> bool" where
  "pending_ok L cfg s p \<longleftrightarrow> (case p of (q, answer, ttl) \<Rightarrow>
     addrs_ok (sh_heap s) answer \<and> answer \<noteq> [] \<and> 0 \<le> ttl \<and> ttl = min (ttl_of (h_read (sh_heap s) answer)) (max_ttl cfg)
     \<and> recorded_from L s q answer)"

definition shared_inv :: "dns_lib \<Rightarrow> cache_cfg \<Rightarrow> shared_cache \<Rightarrow> bool" where
  "shared_inv L cfg s \<longleftrightarrow> cache_wf cfg (h_values (sh_heap s) (sh_answer s))
     \<and> (\<forall>(q, answer) \<in> set (sh_answer s). addrs_ok (sh_heap s) answer \<and> recorded_from L s q answer)
     \<and> (\<forall>(q, answer) \<in> set (sh_held s). addrs_ok (sh_heap s) answer \<and> came_from s q answer)
     \<and> (\<forall>p \<in> set (sh_pending s). pending_ok L cfg s p)
     \<and> distinct (pending_addrs s) \<and> set (pending_addrs s) \<inter> shared_addrs s = {}"

lemma shared_inv_empty: "shared_inv L cfg empty_shared"
  by (simp add: shared_inv_def empty_shared_def pending_addrs_def)

text \<open>A heap with more records, and no other change than to TTLs.\<close>

definition heap_ext :: "rr list \<Rightarrow> rr list \<Rightarrow> bool" where
  "heap_ext heap heap' \<longleftrightarrow> length heap \<le> length heap'
     \<and> (\<forall>a < length heap. (heap' ! a)\<lparr>rr_ttl := 0\<rparr> = (heap ! a)\<lparr>rr_ttl := 0\<rparr>)"

lemma heap_ext_refl: "heap_ext heap heap"
  by (simp add: heap_ext_def)

lemma heap_ext_append: "heap_ext heap (heap @ ext)"
  by (simp add: heap_ext_def nth_append)

lemma heap_ext_set_ttl: "heap_ext heap (h_set_ttl answer d heap)"
  by (simp add: heap_ext_def h_set_ttl_nth)

lemma addrs_ok_ext: "heap_ext heap heap' \<Longrightarrow> addrs_ok heap answer \<Longrightarrow> addrs_ok heap' answer"
  by (auto simp: heap_ext_def addrs_ok_def)

lemma payload_ext: "heap_ext heap heap' \<Longrightarrow> addrs_ok heap answer \<Longrightarrow> payload (h_read heap' answer) = payload (h_read heap answer)"
  by (auto simp: heap_ext_def addrs_ok_def payload_def h_read_def)

lemma recorded_from_ext:
  assumes "recorded_from L s q answer" and "addrs_ok (sh_heap s) answer" and "heap_ext (sh_heap s) (sh_heap s')"
    and "set (sh_fetched s) \<subseteq> set (sh_fetched s')"
  shows "recorded_from L s' q answer"
  using assms payload_ext [OF assms(3,2)] unfolding recorded_from_def by auto

lemma came_from_ext:
  assumes "came_from s q answer" and "addrs_ok (sh_heap s) answer" and "heap_ext (sh_heap s) (sh_heap s')"
    and "set (sh_fetched s) \<subseteq> set (sh_fetched s')"
  shows "came_from s' q answer"
  using assms payload_ext [OF assms(3,2)] unfolding came_from_def by auto

lemma recorded_came: "recorded_from L s q answer \<Longrightarrow> came_from s q answer"
  by (auto simp: recorded_from_def came_from_def)

lemma shared_inv_h_ok: "shared_inv L cfg s \<Longrightarrow> h_ok (sh_heap s) (sh_answer s)"
  by (auto simp: shared_inv_def h_ok_def)

lemma shared_addrs_bound: "shared_inv L cfg s \<Longrightarrow> a \<in> shared_addrs s \<Longrightarrow> a < length (sh_heap s)"
  by (auto simp: shared_inv_def shared_addrs_def addrs_ok_def)

lemma pending_addrs_bound: "shared_inv L cfg s \<Longrightarrow> a \<in> set (pending_addrs s) \<Longrightarrow> a < length (sh_heap s)"
  by (auto simp: shared_inv_def pending_addrs_def pending_ok_def addrs_ok_def)

section \<open>Each critical section keeps it\<close>

text \<open>A step that leaves the old records alone and keeps the pending answers.\<close>

lemma shared_inv_extend:
  assumes inv: "shared_inv L cfg s"
    and heap: "sh_heap s' = sh_heap s @ ext" and fetched: "set (sh_fetched s) \<subseteq> set (sh_fetched s')"
  shows "(q, answer) \<in> set (sh_answer s) \<Longrightarrow> addrs_ok (sh_heap s') answer \<and> recorded_from L s' q answer"
    and "(q, answer) \<in> set (sh_held s) \<Longrightarrow> addrs_ok (sh_heap s') answer \<and> came_from s' q answer"
    and "p \<in> set (sh_pending s) \<Longrightarrow> pending_ok L cfg s' p"
    and "h_values (sh_heap s') (sh_answer s) = h_values (sh_heap s) (sh_answer s)"
proof -
  have ext: "heap_ext (sh_heap s) (sh_heap s')" unfolding heap by (rule heap_ext_append)
  show "(q, answer) \<in> set (sh_answer s) \<Longrightarrow> addrs_ok (sh_heap s') answer \<and> recorded_from L s' q answer"
    using inv addrs_ok_ext [OF ext] recorded_from_ext [OF _ _ ext fetched] by (fastforce simp: shared_inv_def)
  show "(q, answer) \<in> set (sh_held s) \<Longrightarrow> addrs_ok (sh_heap s') answer \<and> came_from s' q answer"
    using inv addrs_ok_ext [OF ext] came_from_ext [OF _ _ ext fetched] by (fastforce simp: shared_inv_def)
  show "pending_ok L cfg s' p" if "p \<in> set (sh_pending s)"
  proof -
    obtain q' ans ttl where p: "p = (q', ans, ttl)" by (cases p)
    have "pending_ok L cfg s p" using inv that by (simp add: shared_inv_def)
    then show ?thesis
      using recorded_from_ext [OF _ _ ext fetched, of L q' ans] addrs_ok_ext [OF ext, of ans]
      by (auto simp: pending_ok_def p heap h_read_append)
  qed
  show "h_values (sh_heap s') (sh_answer s) = h_values (sh_heap s) (sh_answer s)"
    unfolding heap by (rule h_values_append [OF shared_inv_h_ok [OF inv]])
qed

lemma hit_inv:
  assumes inv: "shared_inv L cfg s" and hit: "map_of (sh_answer s) q = Some answer"
  shows "shared_inv L cfg (s\<lparr>sh_held := (q, answer) # sh_held s\<rparr>)" (is "shared_inv L cfg ?s")
proof -
  have e: "(q, answer) \<in> set (sh_answer s)" using hit by (rule map_of_SomeD)
  note ext = shared_inv_extend [OF inv, of ?s "[]", simplified]
  have "shared_addrs ?s = shared_addrs s" using e by (auto simp: shared_addrs_def)
  moreover have "pending_addrs ?s = pending_addrs s" by (simp add: pending_addrs_def)
  moreover have "came_from ?s q answer" using ext(1) [OF e] recorded_came by blast
  ultimately show ?thesis using inv ext e unfolding shared_inv_def by auto
qed

lemma fetch_inv:
  assumes inv: "shared_inv L cfg s" and fetch: "fetch q reply s = (answer, s')"
  shows "shared_inv L cfg s'" and "addrs_ok (sh_heap s') answer" and "h_read (sh_heap s') answer = m_answer reply"
    and "came_from s' q answer" and "distinct answer" and "set answer \<inter> set (pending_addrs s') = {}"
    and "set answer \<inter> shared_addrs s' = {}"
proof -
  have s': "sh_heap s' = sh_heap s @ m_answer reply" "sh_fetched s' = (q, reply) # sh_fetched s"
      "sh_answer s' = sh_answer s" "sh_held s' = sh_held s" "sh_pending s' = sh_pending s"
      "answer = [length (sh_heap s)..<length (sh_heap s) + length (m_answer reply)]"
    using fetch by (auto simp: fetch_def)
  have same: "shared_addrs s' = shared_addrs s" "pending_addrs s' = pending_addrs s"
    by (simp_all add: shared_addrs_def pending_addrs_def s')
  have "set (sh_fetched s) \<subseteq> set (sh_fetched s')" by (auto simp: s')
  note ext = shared_inv_extend [OF inv s'(1) this]
  show "shared_inv L cfg s'"
    using inv ext unfolding shared_inv_def same s'(3-5) by auto
  show "addrs_ok (sh_heap s') answer" by (simp add: addrs_ok_def s')
  show "h_read (sh_heap s') answer = m_answer reply" by (simp add: s' h_read_new)
  then show "came_from s' q answer" by (auto simp: came_from_def s')
  show "distinct answer" by (simp add: s')
  show "set answer \<inter> set (pending_addrs s') = {}" "set answer \<inter> shared_addrs s' = {}"
    using pending_addrs_bound [OF inv] shared_addrs_bound [OF inv] by (auto simp: same s'(6)) fastforce+
qed

lemma passed_inv:
  assumes "shared_inv L cfg s" and "fetch q reply s = (answer, s')"
  shows "shared_inv L cfg (s'\<lparr>sh_held := (q, answer) # sh_held s'\<rparr>)" (is "shared_inv L cfg ?s")
proof -
  note new = fetch_inv [OF assms]
  note ext = shared_inv_extend [OF new(1), of ?s "[]", simplified]
  have "shared_addrs ?s = set answer \<union> shared_addrs s'" by (auto simp: shared_addrs_def)
  moreover have "pending_addrs ?s = pending_addrs s'" by (simp add: pending_addrs_def)
  moreover have "came_from ?s q answer" using new(4) by (simp add: came_from_def)
  ultimately show ?thesis using new ext unfolding shared_inv_def by auto
qed

lemma fetched_inv:
  assumes cfg: "cfg_ok cfg" and inv: "shared_inv L cfg s" and fetch: "fetch q reply s = (answer, s')"
    and worth: "worth_storing L cfg q reply ttl"
  shows "shared_inv L cfg (s'\<lparr>sh_pending := (q, answer, ttl) # sh_pending s'\<rparr>)" (is "shared_inv L cfg ?s")
proof -
  note new = fetch_inv [OF inv fetch]
  note ext = shared_inv_extend [OF new(1), of ?s "[]", simplified]
  have "m_answer reply \<noteq> []" "ttl = min (ttl_of (m_answer reply)) (max_ttl cfg)" "0 \<le> ttl"
    using worth cfg by (auto simp: worth_storing_def limit_ttl_Some_iff cfg_ok_def)
  moreover have "(q, reply) \<in> set (sh_fetched s')" using fetch by (auto simp: fetch_def)
  ultimately have "pending_ok L cfg ?s (q, answer, ttl)"
    using new(2,3) worth by (auto simp: pending_ok_def recorded_from_def worth_storing_def h_read_def)
  moreover have "pending_addrs ?s = answer @ pending_addrs s'" by (simp add: pending_addrs_def)
  moreover have "shared_addrs ?s = shared_addrs s'" by (simp add: shared_addrs_def)
  ultimately show ?thesis using new ext unfolding shared_inv_def by auto
qed

text \<open>What a store may write to is not shared with the cache, a caller or another query.\<close>

lemma store_apart:
  assumes inv: "shared_inv L cfg s" and p: "sh_pending s = xs @ (q, answer, ttl) # ys"
  shows "pending_ok L cfg s (q, answer, ttl)" and "set answer \<inter> shared_addrs s = {}"
    and "(q', other, ttl') \<in> set xs \<union> set ys \<Longrightarrow> set other \<inter> set answer = {}"
proof -
  show "pending_ok L cfg s (q, answer, ttl)" using inv p by (simp add: shared_inv_def)
  have addrs: "pending_addrs s = concat (map (fst \<circ> snd) xs) @ answer @ concat (map (fst \<circ> snd) ys)"
    by (simp add: pending_addrs_def p)
  show "set answer \<inter> shared_addrs s = {}" using inv by (auto simp: shared_inv_def addrs)
  have "distinct (pending_addrs s)" using inv by (simp add: shared_inv_def)
  then show "(q', other, ttl') \<in> set xs \<union> set ys \<Longrightarrow> set other \<inter> set answer = {}"
    unfolding addrs by fastforce
qed

lemma stored_wf:
  assumes inv: "shared_inv L cfg s" and p: "sh_pending s = xs @ (q, answer, ttl) # ys"
    and store: "h_cache_store cfg q ttl answer (sh_heap s) (sh_answer s) = (heap, m)"
  shows "cache_wf cfg (h_values heap m)"
proof (cases "int (length (sh_answer s)) < max_cache_size cfg")
  case True
  note apart = store_apart [OF inv p]
  have ok: "addrs_ok (sh_heap s) answer" "answer \<noteq> []" "0 \<le> ttl"
      "ttl = min (ttl_of (h_read (sh_heap s) answer)) (max_ttl cfg)"
    using apart(1) by (auto simp: pending_ok_def)
  let ?heap = "h_set_ttl answer ttl (sh_heap s)"
  have new: "heap = ?heap" "m = gm_set q answer (sh_answer s)" using True store by (simp_all add: h_cache_store_def)
  have "h_values ?heap (sh_answer s) = h_values (sh_heap s) (sh_answer s)"
    unfolding h_values_def using apart(2) inv
    by (intro map_cong refl) (auto simp: shared_inv_def shared_addrs_def intro!: h_read_set_ttl_other)
  then have v: "h_values heap m = gm_set q (set_ttl (h_read (sh_heap s) answer) ttl) (h_values (sh_heap s) (sh_answer s))"
    by (simp add: new h_values_gm_set h_read_set_ttl [OF ok(1)])
  have "ttl < 2 ^ 32 * second" "ttl \<le> max_ttl cfg"
    using ok(4) ttl_duration_less [of "rr_ttl (hd (h_read (sh_heap s) answer))"] by (simp_all add: ttl_of_def)
  then have "entry_ok cfg (set_ttl (h_read (sh_heap s) answer) ttl)"
    using ok(2,3) by (intro entry_ok_set_ttl) (simp_all add: h_read_def)
  with True inv show ?thesis unfolding v by (intro cache_wf_set) (simp_all add: shared_inv_def)
next
  case False
  with store inv show ?thesis by (simp add: h_cache_store_def shared_inv_def)
qed

lemma stored_inv:
  assumes cfg: "cfg_ok cfg" and inv: "shared_inv L cfg s" and p: "sh_pending s = xs @ (q, answer, ttl) # ys"
    and store: "h_cache_store cfg q ttl answer (sh_heap s) (sh_answer s) = (heap, m)"
  shows "shared_inv L cfg (s\<lparr>sh_heap := heap, sh_answer := m, sh_pending := xs @ ys, sh_held := (q, answer) # sh_held s\<rparr>)"
    (is "shared_inv L cfg ?s")
proof -
  note apart = store_apart [OF inv p]
  have ok: "addrs_ok (sh_heap s) answer" "recorded_from L s q answer" using apart(1) by (auto simp: pending_ok_def)
  have ext: "heap_ext (sh_heap s) heap"
    using store heap_ext_set_ttl heap_ext_refl by (auto simp: h_cache_store_def split: if_splits)
  then have ext': "heap_ext (sh_heap s) (sh_heap ?s)" by simp
  have set_m: "set m \<subseteq> insert (q, answer) (set (sh_answer s))"
    using store set_gm_set_subset by (fastforce simp: h_cache_store_def split: if_splits)
  have wf: "cache_wf cfg (h_values heap m)" by (rule stored_wf [OF inv p store])
  have rec: "addrs_ok heap answer \<and> recorded_from L ?s q answer"
    using addrs_ok_ext [OF ext ok(1)] recorded_from_ext [OF ok(2,1) ext'] by simp
  have "addrs_ok heap ans \<and> recorded_from L ?s q' ans" if "(q', ans) \<in> set (sh_answer s)" for q' ans
    using that inv addrs_ok_ext [OF ext] recorded_from_ext [OF _ _ ext'] by (fastforce simp: shared_inv_def)
  with rec set_m have answers: "\<forall>(q', ans) \<in> set m. addrs_ok heap ans \<and> recorded_from L ?s q' ans" by auto
  have "addrs_ok heap ans \<and> came_from ?s q' ans" if "(q', ans) \<in> set (sh_held s)" for q' ans
    using that inv addrs_ok_ext [OF ext] came_from_ext [OF _ _ ext'] by (fastforce simp: shared_inv_def)
  with rec recorded_came have held: "\<forall>(q', ans) \<in> set ((q, answer) # sh_held s). addrs_ok heap ans \<and> came_from ?s q' ans"
    by auto
  have pend: "pending_ok L cfg ?s (q', ans, t)" if "(q', ans, t) \<in> set xs \<union> set ys" for q' ans t
  proof -
    have old: "pending_ok L cfg s (q', ans, t)" using inv p that by (auto simp: shared_inv_def)
    then have a: "addrs_ok (sh_heap s) ans" "recorded_from L s q' ans" by (simp_all add: pending_ok_def)
    have "h_read heap ans = h_read (sh_heap s) ans"
      using store h_read_set_ttl_other [OF a(1) apart(3) [OF that]] by (auto simp: h_cache_store_def split: if_splits)
    with old addrs_ok_ext [OF ext a(1)] recorded_from_ext [OF a(2,1) ext'] show ?thesis by (auto simp: pending_ok_def)
  qed
  have "distinct (pending_addrs s)" "set (pending_addrs s) \<inter> shared_addrs s = {}" using inv by (simp_all add: shared_inv_def)
  moreover obtain A B where "pending_addrs s = A @ answer @ B" "pending_addrs ?s = A @ B" by (simp add: pending_addrs_def p)
  ultimately have "distinct (pending_addrs ?s)" "set (pending_addrs ?s) \<inter> (set answer \<union> shared_addrs s) = {}"
    by auto
  moreover have "shared_addrs ?s \<subseteq> set answer \<union> shared_addrs s" using set_m by (fastforce simp: shared_addrs_def)
  ultimately show ?thesis
    using wf answers held pend by (auto simp: shared_inv_def)
qed

lemma collected_inv:
  assumes cfg: "cfg_ok cfg" and inv: "shared_inv L cfg s"
  shows "\<exists>m ext. h_gc_entries cfg (sh_answer s) (sh_heap s) = Some (m, sh_heap s @ ext)
    \<and> h_values (sh_heap s @ ext) m = map (aged cfg) (filter (alive cfg) (h_values (sh_heap s) (sh_answer s)))
    \<and> shared_inv L cfg (s\<lparr>sh_heap := sh_heap s @ ext, sh_answer := m\<rparr>)"
proof -
  have wf: "cache_wf cfg (h_values (sh_heap s) (sh_answer s))" using inv by (simp add: shared_inv_def)
  from h_gc_entries_refines [OF shared_inv_h_ok [OF inv] gc_entries_wf_eq [OF wf]] obtain m ext where
      m: "h_gc_entries cfg (sh_answer s) (sh_heap s) = Some (m, sh_heap s @ ext)"
      "h_values (sh_heap s @ ext) m = map (aged cfg) (filter (alive cfg) (h_values (sh_heap s) (sh_answer s)))"
      "h_ok (sh_heap s @ ext) m" "\<forall>(q, answer) \<in> set m. \<forall>a \<in> set answer. length (sh_heap s) \<le> a"
      "\<forall>(q, answer) \<in> set m. \<exists>old. (q, old) \<in> set (sh_answer s)
         \<and> payload (h_read (sh_heap s @ ext) answer) = payload (h_read (sh_heap s) old)"
    by blast
  let ?s = "s\<lparr>sh_heap := sh_heap s @ ext, sh_answer := m\<rparr>"
  note e = shared_inv_extend [OF inv, of ?s ext, simplified]
  have "addrs_ok (sh_heap ?s) answer \<and> recorded_from L ?s q answer" if a: "(q, answer) \<in> set m" for q answer
  proof -
    from a m(5) obtain old where old: "(q, old) \<in> set (sh_answer s)"
        "payload (h_read (sh_heap s @ ext) answer) = payload (h_read (sh_heap s) old)" by blast
    then have "recorded_from L s q old" using inv by (auto simp: shared_inv_def)
    with old(2) a m(3) show ?thesis by (auto simp: recorded_from_def h_ok_def)
  qed
  moreover have "cache_wf cfg (h_values (sh_heap ?s) m)" using m(2) cache_wf_gc [OF cfg wf] by simp
  moreover have "set (pending_addrs ?s) \<inter> shared_addrs ?s = {}"
  proof -
    have "a \<in> shared_addrs s \<or> length (sh_heap s) \<le> a" if "a \<in> shared_addrs ?s" for a
      using that m(4) by (fastforce simp: shared_addrs_def)
    moreover have "pending_addrs ?s = pending_addrs s" by (simp add: pending_addrs_def)
    ultimately show ?thesis using inv pending_addrs_bound [OF inv] by (fastforce simp: shared_inv_def)
  qed
  moreover have "distinct (pending_addrs ?s)" using inv by (simp add: shared_inv_def pending_addrs_def)
  ultimately have "shared_inv L cfg ?s" using e unfolding shared_inv_def by auto
  with m(1,2) show ?thesis by blast
qed

lemma flushed_inv: "shared_inv L cfg s \<Longrightarrow> shared_inv L cfg (s\<lparr>sh_answer := []\<rparr>)" (is "_ \<Longrightarrow> shared_inv L cfg ?s")
proof -
  assume inv: "shared_inv L cfg s"
  note e = shared_inv_extend [OF inv, of ?s "[]", simplified]
  have "shared_addrs ?s \<subseteq> shared_addrs s" "pending_addrs ?s = pending_addrs s"
    by (auto simp: shared_addrs_def pending_addrs_def)
  with inv e show "shared_inv L cfg ?s" unfolding shared_inv_def by auto
qed

section \<open>Runs\<close>

lemma cache_step_inv: "cache_step L cfg s s' \<Longrightarrow> cfg_ok cfg \<Longrightarrow> shared_inv L cfg s \<Longrightarrow> shared_inv L cfg s'"
proof (induction rule: cache_step.induct)
  case (collected s m heap)
  from collected_inv [OF collected.prems] collected.hyps show ?case by auto
qed (auto intro: hit_inv passed_inv fetched_inv stored_inv flushed_inv)

text \<open>No step writes to an answer a caller has.\<close>

lemma cache_step_held:
  "cache_step L cfg s s' \<Longrightarrow> cfg_ok cfg \<Longrightarrow> shared_inv L cfg s \<Longrightarrow> (q, answer) \<in> set (sh_held s) \<Longrightarrow>
     (q, answer) \<in> set (sh_held s') \<and> h_read (sh_heap s') answer = h_read (sh_heap s) answer"
proof (induction rule: cache_step.induct)
  case (stored s xs q' ans ttl ys heap m)
  have ok: "addrs_ok (sh_heap s) answer" "set answer \<subseteq> shared_addrs s"
    using stored.prems(2,3) by (auto simp: shared_inv_def shared_addrs_def)
  then have "set answer \<inter> set ans = {}" using store_apart(2) [OF stored.prems(2) stored.hyps(1)] by auto
  with stored.hyps(2) stored.prems(3) h_read_set_ttl_other [OF ok(1)] show ?case
    by (auto simp: h_cache_store_def split: if_splits)
next
  case (collected s m heap)
  have "addrs_ok (sh_heap s) answer" using collected.prems(2,3) by (auto simp: shared_inv_def)
  with collected_inv [OF collected.prems(1,2)] collected.hyps collected.prems(3) show ?case
    by (auto simp: h_read_append)
qed (auto simp: fetch_def shared_inv_def h_read_append)

lemma cache_reachable_inv: "cache_reachable L cfg s \<Longrightarrow> cfg_ok cfg \<Longrightarrow> shared_inv L cfg s"
  unfolding cache_reachable_def by (induction rule: rtranclp_induct) (auto intro: shared_inv_empty cache_step_inv)

section \<open>Properties\<close>

text \<open>
  C2: An answer handed out never changes: whatever queries, maintenance passes and flushes run at the
  same time, the records a caller holds stay as they were given, and they came from the back
  resolver for the question asked.
\<close>

theorem held_answers_immutable:
  assumes "cache_reachable L default_cfg s" and "(q, answer) \<in> set (sh_held s)"
    and "(cache_step L default_cfg)\<^sup>*\<^sup>* s s'"
  shows "h_read (sh_heap s') answer = h_read (sh_heap s) answer \<and> came_from s q answer"
proof -
  note inv = cache_reachable_inv [OF assms(1) cfg_ok_default]
  have "shared_inv L default_cfg s' \<and> (q, answer) \<in> set (sh_held s')
      \<and> h_read (sh_heap s') answer = h_read (sh_heap s) answer"
    using assms(3)
  proof (induction rule: rtranclp_induct)
    case base
    with inv assms(2) show ?case by simp
  next
    case (step y z)
    with cache_step_inv [OF step.hyps(2) cfg_ok_default] cache_step_held [OF step.hyps(2) cfg_ok_default]
    show ?case by auto
  qed
  moreover have "came_from s q answer" using inv assms(2) by (auto simp: shared_inv_def)
  ultimately show ?thesis by simp
qed

text \<open>
  C12: Under any interleaving of queries, maintenance and flushes the cache is well-formed and has at
  most 2000 entries, each of them came from the back resolver in a reply to its question that was worth
  caching, and the next maintenance pass does not panic.
\<close>

theorem interleaved_cache_sound:
  assumes "cache_reachable L default_cfg s"
  shows "cache_wf default_cfg (h_values (sh_heap s) (sh_answer s)) \<and> length (sh_answer s) \<le> 2000
    \<and> (\<forall>(q, answer) \<in> set (sh_answer s). recorded_from L s q answer)
    \<and> h_gc_entries default_cfg (sh_answer s) (sh_heap s) \<noteq> None"
proof -
  note inv = cache_reachable_inv [OF assms cfg_ok_default]
  then have "cache_wf default_cfg (h_values (sh_heap s) (sh_answer s))"
      "\<forall>(q, answer) \<in> set (sh_answer s). recorded_from L s q answer" by (auto simp: shared_inv_def)
  moreover from this(1) have "length (sh_answer s) \<le> 2000" by (simp add: cache_wf_def default_cfg_def)
  ultimately show ?thesis using collected_inv [OF cfg_ok_default inv] by auto
qed

text \<open>
  C22: The operations on values describe those on the heap: in every state the critical sections can
  reach, reading the cache after the store of a pending answer, or after a maintenance pass, gives what
  \<open>cache_store\<close> and \<open>gc_entries\<close> give on the cache read before; and the reply returned has the records
  that \<open>cache_store\<close> returns.
\<close>

theorem heap_refines_values:
  assumes "cache_reachable L default_cfg s" and "cr_answer c = h_values (sh_heap s) (sh_answer s)"
  shows "(\<exists>m heap expired. h_gc_entries default_cfg (sh_answer s) (sh_heap s) = Some (m, heap)
      \<and> gc_entries default_cfg (cr_answer c) = Some (h_values heap m, expired))
    \<and> (\<forall>(q, answer, ttl) \<in> set (sh_pending s). \<forall>reply. m_answer reply = h_read (sh_heap s) answer \<longrightarrow>
        (let (heap, m) = h_cache_store default_cfg q ttl answer (sh_heap s) (sh_answer s);
             (reply', c') = cache_store default_cfg q ttl reply c
         in h_values heap m = cr_answer c' \<and> h_read heap answer = m_answer reply'))"
proof (intro conjI ballI, goal_cases)
  note inv = cache_reachable_inv [OF assms(1) cfg_ok_default]
  case 1
  have "cache_wf default_cfg (cr_answer c)" using inv assms(2) by (simp add: shared_inv_def)
  with collected_inv [OF cfg_ok_default inv] gc_entries_wf_eq [OF this] assms(2) show ?case by auto
next
  case (2 p)
  note inv = cache_reachable_inv [OF assms(1) cfg_ok_default]
  obtain q answer ttl where p: "p = (q, answer, ttl)" by (cases p)
  from 2 obtain xs ys where split: "sh_pending s = xs @ (q, answer, ttl) # ys" unfolding p by (auto dest: split_list)
  have ok: "addrs_ok (sh_heap s) answer" using store_apart(1) [OF inv split] by (simp add: pending_ok_def)
  have "h_values (h_set_ttl answer ttl (sh_heap s)) (sh_answer s) = h_values (sh_heap s) (sh_answer s)"
    unfolding h_values_def using store_apart(2) [OF inv split] inv
    by (intro map_cong refl) (auto simp: shared_inv_def shared_addrs_def intro!: h_read_set_ttl_other)
  then show ?case
    using assms(2) h_read_set_ttl [OF ok, of ttl] by (simp add: p h_cache_store_def cache_store_def h_values_gm_set Let_def)
qed

section \<open>The properties on a concrete run\<close>

definition demo_pending :: shared_cache where
  "demo_pending = \<lparr>sh_heap = [ex_rr 300], sh_answer = [], sh_pending = [(ex_q, [0], 300 * second)], sh_held = [],
     sh_fetched = [(ex_q, ex_reply 300)]\<rparr>"

definition demo_stored :: shared_cache where
  "demo_stored = \<lparr>sh_heap = [ex_rr 300], sh_answer = [(ex_q, [0])], sh_pending = [], sh_held = [(ex_q, [0])],
     sh_fetched = [(ex_q, ex_reply 300)]\<rparr>"

definition demo_collected :: shared_cache where
  "demo_collected = \<lparr>sh_heap = [ex_rr 300, ex_rr 270], sh_answer = [(ex_q, [1])], sh_pending = [], sh_held = [(ex_q, [0])],
     sh_fetched = [(ex_q, ex_reply 300)]\<rparr>"

lemma demo_steps:
  "cache_step plain_lib default_cfg empty_shared demo_pending"
  "cache_step plain_lib default_cfg demo_pending demo_stored"
  "cache_step plain_lib default_cfg demo_stored demo_collected"
proof -
  have "fetch ex_q (ex_reply 300) empty_shared = ([0], \<lparr>sh_heap = [ex_rr 300], sh_answer = [], sh_pending = [],
      sh_held = [], sh_fetched = [(ex_q, ex_reply 300)]\<rparr>)"
    by (simp add: fetch_def empty_shared_def ex_defs)
  moreover have "worth_storing plain_lib default_cfg ex_q (ex_reply 300) (300 * second)"
    by (simp add: worth_storing_def want_to_cache_def limit_ttl_def default_cfg_def ttl_duration_def ex_defs)
  ultimately show "cache_step plain_lib default_cfg empty_shared demo_pending"
    by (auto dest: cache_step.fetched simp: demo_pending_def)
  show "cache_step plain_lib default_cfg demo_pending demo_stored"
    using cache_step.stored [of demo_pending "[]" ex_q "[0]" "300 * second" "[]" default_cfg "[ex_rr 300]" "[(ex_q, [0])]" plain_lib]
    by (simp add: demo_pending_def demo_stored_def h_cache_store_def h_set_ttl_def duration_ttl_def default_cfg_def ex_defs)
  show "cache_step plain_lib default_cfg demo_stored demo_collected"
    using cache_step.collected [of default_cfg demo_stored "[(ex_q, [1])]" "[ex_rr 300, ex_rr 270]" plain_lib]
    by (simp add: demo_stored_def demo_collected_def h_copy_rr_slice_def h_read_def h_set_ttl_def get_ttl_def ttl_duration_def
        duration_ttl_def default_cfg_def ex_defs Let_def)
qed

lemma demo_cache_reachable:
  "cache_reachable plain_lib default_cfg demo_pending" "cache_reachable plain_lib default_cfg demo_stored"
  using demo_steps unfolding cache_reachable_def by (auto intro: rtranclp.rtrancl_into_rtrancl)

theorem held_answers_immutable_witness:
  "h_read (sh_heap demo_collected) [0] = [ex_rr 300] \<and> h_read (sh_heap demo_collected) [1] = [ex_rr 270]"
  using held_answers_immutable [OF demo_cache_reachable(2), of ex_q "[0]" demo_collected] demo_steps(3)
  by (simp add: demo_stored_def demo_collected_def h_read_def)

theorem interleaved_cache_sound_witness:
  "recorded_from plain_lib demo_stored ex_q [0] \<and> h_gc_entries default_cfg (sh_answer demo_stored) (sh_heap demo_stored) \<noteq> None"
  using interleaved_cache_sound [OF demo_cache_reachable(2)] by (simp add: demo_stored_def)

theorem heap_refines_values_witness:
  "(\<exists>m heap expired. h_gc_entries default_cfg (sh_answer demo_pending) (sh_heap demo_pending) = Some (m, heap)
      \<and> gc_entries default_cfg [] = Some (h_values heap m, expired))
    \<and> (let (heap, m) = h_cache_store default_cfg ex_q (300 * second) [0] (sh_heap demo_pending) (sh_answer demo_pending);
           (reply', c') = cache_store default_cfg ex_q (300 * second) (ex_reply 300) (new_caching_resolver ())
       in h_values heap m = cr_answer c' \<and> h_read heap [0] = m_answer reply')"
proof -
  have "cr_answer (new_caching_resolver ()) = h_values (sh_heap demo_pending) (sh_answer demo_pending)"
    by (simp add: new_caching_resolver_def demo_pending_def)
  note refines = heap_refines_values [OF demo_cache_reachable(1) this]
  have "(ex_q, [0], 300 * second) \<in> set (sh_pending demo_pending)" by (simp add: demo_pending_def)
  with refines have "\<forall>reply. m_answer reply = h_read (sh_heap demo_pending) [0] \<longrightarrow>
      (let (heap, m) = h_cache_store default_cfg ex_q (300 * second) [0] (sh_heap demo_pending) (sh_answer demo_pending);
           (reply', c') = cache_store default_cfg ex_q (300 * second) reply (new_caching_resolver ())
       in h_values heap m = cr_answer c' \<and> h_read heap [0] = m_answer reply')" by blast
  moreover have "m_answer (ex_reply 300) = h_read (sh_heap demo_pending) [0]"
    by (simp add: demo_pending_def h_read_def ex_reply_def)
  ultimately show ?thesis using refines by (simp add: new_caching_resolver_def)
qed

end
