(* ===== verification/Codec.thy ===== *)
theory Codec
  imports Prelude
begin

text \<open>
  Encodings that can be read back from the front of a byte string, whatever follows: the interface
  of everything the dnstap writer puts on the wire, and what it gives for sequences.
\<close>

text \<open>Decoding until nothing is left, at most \<open>n\<close> times; each item takes a byte at least.\<close>

fun decode_all :: "('b list \<Rightarrow> ('a \<times> 'b list) option) \<Rightarrow> nat \<Rightarrow> 'b list \<Rightarrow> 'a list option" where
  "decode_all dec n [] = Some []"
| "decode_all dec 0 (b # bs) = None"
| "decode_all dec (Suc n) (b # bs) =
     (case dec (b # bs) of None \<Rightarrow> None | Some (x, rest) \<Rightarrow> map_option ((#) x) (decode_all dec n rest))"

definition decode_list :: "('b list \<Rightarrow> ('a \<times> 'b list) option) \<Rightarrow> 'b list \<Rightarrow> 'a list option" where
  "decode_list dec bs = decode_all dec (length bs) bs"

locale prefix_codec =
  fixes enc :: "'a \<Rightarrow> 'b list"
    and dec :: "'b list \<Rightarrow> ('a \<times> 'b list) option"
    and ok :: "'a \<Rightarrow> bool"
  assumes dec_enc: "ok x \<Longrightarrow> dec (enc x @ rest) = Some (x, rest)"
    and enc_nonempty: "enc x \<noteq> []"
begin

lemma decode_all_Cons:
  "ok x \<Longrightarrow> decode_all dec (Suc n) (enc x @ bs) = map_option ((#) x) (decode_all dec n bs)"
proof -
  assume ok: "ok x"
  obtain c cs where "enc x @ bs = c # cs" using enc_nonempty [of x] by (cases "enc x") auto
  with dec_enc [OF ok, of bs] show ?thesis by simp
qed

lemma decode_all_enc:
  "list_all ok xs \<Longrightarrow> length (concat (map enc xs)) \<le> n \<Longrightarrow> decode_all dec n (concat (map enc xs)) = Some xs"
proof (induction xs arbitrary: n)
  case Nil
  then show ?case by simp
next
  case (Cons x xs)
  obtain k where "length (enc x) = Suc k" using enc_nonempty [of x] by (cases "enc x") auto
  with Cons.prems(2) obtain n' where n: "n = Suc n'" "length (concat (map enc xs)) \<le> n'"
    by (cases n) auto
  with Cons show ?case by (simp add: decode_all_Cons)
qed

lemma decode_list_enc: "list_all ok xs \<Longrightarrow> decode_list dec (concat (map enc xs)) = Some xs"
  unfolding decode_list_def by (rule decode_all_enc) simp_all

lemma concat_enc_inject:
  "list_all ok xs \<Longrightarrow> list_all ok ys \<Longrightarrow> concat (map enc xs) = concat (map enc ys) \<Longrightarrow> xs = ys"
  using decode_list_enc by (metis option.inject)

lemma enc_inject: "ok x \<Longrightarrow> ok y \<Longrightarrow> enc x = enc y \<Longrightarrow> x = y"
  using concat_enc_inject [of "[x]" "[y]"] by simp

end

section \<open>Numbers of fixed width\<close>

text \<open>\<^verbatim>\<open>binary.BigEndian.PutUint32\<close>, and reading it.\<close>

definition be32 :: "u32 \<Rightarrow> bytes" where
  "be32 v = map (\<lambda>i. ucast (drop_bit (8 * i) v)) [3, 2, 1, 0]"

definition get_be32 :: "bytes \<Rightarrow> (u32 \<times> bytes) option" where
  "get_be32 b =
     (if length b < 4 then None
      else Some (foldl (\<lambda>a x. push_bit 8 a + ucast x) 0 (take 4 b), drop 4 b))"

lemma length_be32 [simp]: "length (be32 v) = 4"
  by (simp add: be32_def)

lemma unat_drop_bit_div: "unat (drop_bit k v) = unat v div 2 ^ k"
proof -
  have "unat (drop_bit k v) = drop_bit k (unat v)" by (simp only: unsigned_drop_bit_eq) (simp add: take_bit_nat_eq_self)
  then show ?thesis by (simp only: drop_bit_eq_div)
qed

lemma unat_be32_digit: "unat (ucast (drop_bit k v :: u32) :: u8) = unat v div 2 ^ k mod 256"
proof -
  have "unat (ucast (drop_bit k v) :: u8) = take_bit 8 (unat (drop_bit k v))"
    by (simp only: unsigned_ucast_eq) simp
  then show ?thesis by (simp only: unat_drop_bit_div take_bit_eq_mod) simp
qed

lemma be32_value:
  "foldl (\<lambda>a x. push_bit 8 a + ucast x) 0 (be32 v) = (v :: u32)"
proof -
  define n where "n = unat v"
  have n: "n < 2 ^ 32" unfolding n_def using unsigned_less [of v] by simp
  have d: "(ucast (ucast (drop_bit k v) :: u8) :: u32) = of_nat (n div 2 ^ k mod 256)" for k
    by (metis n_def unat_be32_digit of_nat_unat)
  have "n div 2 ^ 24 < 256" using n by (simp add: less_mult_imp_div_less)
  moreover have "n div 2 ^ 16 = n div 2 ^ 8 div 256" "n div 2 ^ 24 = n div 2 ^ 16 div 256"
    by (simp_all add: div_mult2_eq [symmetric])
  ultimately have digits: "((n div 2 ^ 24 mod 256 * 256 + n div 2 ^ 16 mod 256) * 256 + n div 2 ^ 8 mod 256) * 256
      + n div 2 ^ 0 mod 256 = n"
    by simp
  define d0 d1 d2 d3 where "d0 = n div 2 ^ 0 mod 256" and "d1 = n div 2 ^ 8 mod 256"
    and "d2 = n div 2 ^ 16 mod 256" and "d3 = n div 2 ^ 24 mod 256"
  have "be32 v = [ucast (drop_bit 24 v), ucast (drop_bit 16 v), ucast (drop_bit 8 v), ucast (drop_bit 0 v)]"
    by (simp add: be32_def)
  then have "foldl (\<lambda>a x. push_bit 8 a + ucast x) 0 (be32 v)
      = push_bit 8 (push_bit 8 (push_bit 8 (push_bit 8 0 + of_nat d3) + of_nat d2) + of_nat d1) + (of_nat d0 :: u32)"
    by (simp only: foldl.simps d d0_def d1_def d2_def d3_def)
  also have "\<dots> = of_nat (((d3 * 256 + d2) * 256 + d1) * 256 + d0)"
    by (simp add: push_bit_eq_mult distrib_right)
  also have "\<dots> = of_nat n" unfolding d0_def d1_def d2_def d3_def by (simp only: digits)
  also have "\<dots> = v" by (simp add: n_def)
  finally show ?thesis .
qed

interpretation be32: prefix_codec be32 get_be32 "\<lambda>x. True"
proof
  fix x :: u32 and rest :: bytes
  show "get_be32 (be32 x @ rest) = Some (x, rest)"
    by (simp add: get_be32_def be32_value)
  show "be32 x \<noteq> []" by (simp add: be32_def)
qed

unbundle bit_operations_syntax

section \<open>Variable-length numbers\<close>

lemma unat_drop7: "unat (drop_bit 7 (v :: u64)) = unat v div 128"
  by (simp only: unat_drop_bit_div) simp

text \<open>\<^verbatim>\<open>binary.AppendUvarint\<close> on an empty slice, and reading the number.\<close>

function uvarint :: "u64 \<Rightarrow> bytes" where
  "uvarint v = (if v < 0x80 then [ucast v] else (ucast v OR 0x80) # uvarint (drop_bit 7 v))"
  by pat_completeness auto

termination
proof (relation "measure unat", goal_cases)
  case 1
  then show ?case by simp
next
  case (2 v)
  then have "128 \<le> unat v" by (simp add: word_less_nat_alt)
  then show ?case by (simp add: unat_drop7)
qed

declare uvarint.simps [simp del]

fun get_uvarint_nat :: "bytes \<Rightarrow> (nat \<times> bytes) option" where
  "get_uvarint_nat [] = None"
| "get_uvarint_nat (b # bs) =
     (if unat b < 128 then Some (unat b, bs)
      else (case get_uvarint_nat bs of
              None \<Rightarrow> None
            | Some (n, rest) \<Rightarrow> Some (unat b - 128 + 128 * n, rest)))"

definition get_uvarint :: "bytes \<Rightarrow> (u64 \<times> bytes) option" where
  "get_uvarint b = map_option (\<lambda>(n, rest). (of_nat n, rest)) (get_uvarint_nat b)"

lemma take_bit_Suc_or: "take_bit (Suc m) n OR 2 ^ m = take_bit m n + (2 :: nat) ^ m"
proof -
  have "take_bit (Suc m) n OR 2 ^ m = take_bit m n OR (2 :: nat) ^ m"
    by (rule bit_eqI) (auto simp: bit_simps less_Suc_eq)
  also have "\<dots> = take_bit m n + 2 ^ m"
    by (rule disjunctive_add_eq_or [symmetric]) (rule bit_eqI, auto simp: bit_simps)
  finally show ?thesis .
qed

lemma unat_continuation: "unat ((ucast v OR 0x80) :: u8) = unat (v :: u64) mod 128 + 128"
proof -
  have "unat ((ucast v OR 0x80) :: u8) = take_bit 8 (unat v) OR 128"
    by (simp add: unsigned_or_eq unsigned_ucast_eq)
  also have "\<dots> = take_bit 7 (unat v) + 128" using take_bit_Suc_or [of 7 "unat v"] by simp
  finally show ?thesis by (simp add: take_bit_eq_mod)
qed

lemma get_uvarint_nat_uvarint: "get_uvarint_nat (uvarint v @ rest) = Some (unat v, rest)"
proof (induction v rule: uvarint.induct)
  case (1 v)
  show ?case
  proof (cases "v < 0x80")
    case True
    then have "unat v < 128" by (simp add: word_less_nat_alt)
    with True show ?thesis by (subst uvarint.simps) (simp add: unsigned_ucast_eq take_bit_eq_mod)
  next
    case False
    have "unat v mod 128 + 128 * (unat v div 128) = unat v" by simp
    with False 1 show ?thesis
      by (subst uvarint.simps) (simp add: unat_continuation unat_drop7)
  qed
qed

lemma uvarint_nonempty [simp]: "uvarint v \<noteq> []"
  by (subst uvarint.simps) simp

interpretation uvarint: prefix_codec uvarint get_uvarint "\<lambda>x. True"
  by unfold_locales (simp_all add: get_uvarint_def get_uvarint_nat_uvarint)

end
