(* ===== verification/Go_Net.thy ===== *)
theory Go_Net
  imports Go_Format
begin

text \<open>
  What the program uses of Go's \<^verbatim>\<open>net\<close>: the addresses of a connection, \<^verbatim>\<open>SplitHostPort\<close>,
  \<^verbatim>\<open>ParseIP\<close>, and the forms of an IP address. An IP is its bytes, and \<open>None\<close> is the nil IP.
\<close>

type_synonym ip = "bytes option"

text \<open>An address: that of a UDP or a TCP socket, or any other with its \<^verbatim>\<open>Network\<close> and \<^verbatim>\<open>String\<close>.\<close>

datatype net_addr =
    UDPAddr ip int string
  | TCPAddr ip int string
  | OtherAddr string string

fun addr_network :: "net_addr \<Rightarrow> string" where
  "addr_network (UDPAddr i p s) = ''udp''"
| "addr_network (TCPAddr i p s) = ''tcp''"
| "addr_network (OtherAddr n s) = n"

fun addr_string :: "net_addr \<Rightarrow> string" where
  "addr_string (UDPAddr i p s) = s"
| "addr_string (TCPAddr i p s) = s"
| "addr_string (OtherAddr n s) = s"

section \<open>The forms of an IP address\<close>

definition v4_in_v6_prefix :: bytes where
  "v4_in_v6_prefix = replicate 10 0 @ [255, 255]"

definition ip_to4 :: "bytes \<Rightarrow> bytes option" where
  "ip_to4 i =
     (if length i = 4 then Some i
      else if length i = 16 \<and> take 12 i = v4_in_v6_prefix then Some (drop 12 i)
      else None)"

definition ip_to16 :: "bytes \<Rightarrow> bytes option" where
  "ip_to16 i =
     (if length i = 4 then Some (v4_in_v6_prefix @ i)
      else if length i = 16 then Some i
      else None)"

section \<open>Splitting host and port\<close>

definition index_char :: "char \<Rightarrow> string \<Rightarrow> nat option" where
  "index_char c s = (if c \<in> set s then Some (length (takeWhile (\<lambda>x. x \<noteq> c) s)) else None)"

definition last_index_char :: "char \<Rightarrow> string \<Rightarrow> nat option" where
  "last_index_char c s =
     (if c \<in> set s then Some (length s - 1 - length (takeWhile (\<lambda>x. x \<noteq> c) (rev s))) else None)"

definition split_host_port :: "string \<Rightarrow> (string \<times> string) option" where
  "split_host_port hp =
     (case last_index_char (CHR '':'') hp of
        None \<Rightarrow> None
      | Some i \<Rightarrow>
          (case (if has_prefix hp ''[''
                 then (case index_char (CHR '']'') hp of
                         None \<Rightarrow> None
                       | Some e \<Rightarrow> if e + 1 = i then Some (drop 1 (take e hp), 1, e + 1) else None)
                 else if CHR '':'' \<in> set (take i hp) then None
                 else Some (take i hp, 0, 0)) of
             None \<Rightarrow> None
           | Some (host, j, k) \<Rightarrow>
               if CHR ''['' \<in> set (drop j hp) \<or> CHR '']'' \<in> set (drop k hp) then None
               else Some (host, drop (i + 1) hp)))"

section \<open>Parsing an IP address\<close>

text \<open>Four decimal fields of at most 255, without leading zeros.\<close>

definition parse_octet :: "string \<Rightarrow> u8 option" where
  "parse_octet s =
     (if s \<noteq> [] \<and> list_all is_digit s \<and> (hd s \<noteq> CHR ''0'' \<or> length s = 1) \<and> digits_val s \<le> 255
      then Some (of_nat (digits_val s)) else None)"

fun all_some :: "'a option list \<Rightarrow> 'a list option" where
  "all_some [] = Some []"
| "all_some (None # xs) = None"
| "all_some (Some x # xs) = map_option ((#) x) (all_some xs)"

definition parse_ipv4 :: "string \<Rightarrow> bytes option" where
  "parse_ipv4 s =
     (let parts = split_char (CHR ''.'') s in
      if length parts = 4 then all_some (map parse_octet parts) else None)"

definition hex_digit_val :: "char \<Rightarrow> nat option" where
  "hex_digit_val c =
     (let n = of_char c :: nat in
      if 48 \<le> n \<and> n \<le> 57 then Some (n - 48)
      else if 97 \<le> n \<and> n \<le> 102 then Some (n - 87)
      else if 65 \<le> n \<and> n \<le> 70 then Some (n - 55)
      else None)"

text \<open>
  The groups of an IPv6 address: the bytes so far, where the ellipsis is, and what is left. A
  group has one to four hexadecimal digits; the last one may be an IPv4 address.
\<close>

function parse_groups :: "bytes \<Rightarrow> nat option \<Rightarrow> string \<Rightarrow> (bytes \<times> nat option \<times> string) option" where
  "parse_groups acc ell s =
     (if 16 \<le> length acc then Some (acc, ell, s)
      else
        (let g = takeWhile (\<lambda>c. hex_digit_val c \<noteq> None) s;
             s' = drop (length g) s;
             v = foldl (\<lambda>a c. 16 * a + the (hex_digit_val c)) 0 g
         in if g = [] \<or> 4 < length g then None
            else if has_prefix s' ''.'' then
              (if ell = None \<and> length acc \<noteq> 12 \<or> 16 < length acc + 4 then None
               else (case parse_ipv4 s of None \<Rightarrow> None | Some b \<Rightarrow> Some (acc @ b, ell, [])))
            else
              (let acc' = acc @ [of_nat (v div 256), of_nat v] in
               if s' = [] then Some (acc', ell, [])
               else if \<not> has_prefix s' '':'' \<or> length s' = 1 then None
               else (let s'' = drop 1 s' in
                     if has_prefix s'' '':'' then
                       (if ell \<noteq> None then None
                        else if length s'' = 1 then Some (acc', Some (length acc'), [])
                        else parse_groups acc' (Some (length acc')) (drop 1 s''))
                     else parse_groups acc' ell s''))))"
  by pat_completeness auto
termination
  by (relation "measure (\<lambda>(acc, ell, s). 16 - length acc)") auto

declare parse_groups.simps [simp del]

definition parse_ipv6 :: "string \<Rightarrow> bytes option" where
  "parse_ipv6 s =
     (let (ell, t) = (if has_prefix s ''::'' then (Some 0, drop 2 s) else (None, s)) in
      if ell \<noteq> None \<and> t = [] then Some (replicate 16 0)
      else (case parse_groups [] ell t of
              None \<Rightarrow> None
            | Some (b, ell, rest) \<Rightarrow>
                if rest \<noteq> [] then None
                else if length b < 16 then
                  (case ell of
                     None \<Rightarrow> None
                   | Some e \<Rightarrow> Some (take e b @ replicate (16 - length b) 0 @ drop e b))
                else if ell \<noteq> None then None
                else Some b))"

text \<open>The first dot, colon or percent sign tells the kind; an address with a zone is refused.\<close>

definition parse_ip :: "string \<Rightarrow> ip" where
  "parse_ip s =
     (case dropWhile (\<lambda>c. c \<notin> {CHR ''.'', CHR '':'', CHR ''%''}) s of
        [] \<Rightarrow> None
      | c # rest \<Rightarrow>
          if c = CHR ''.'' then map_option (\<lambda>b. v4_in_v6_prefix @ b) (parse_ipv4 s)
          else if c = CHR '':'' \<and> CHR ''%'' \<notin> set s then parse_ipv6 s
          else None)"

section \<open>Lemmas\<close>

lemma all_some_length: "all_some xs = Some ys \<Longrightarrow> length ys = length xs"
  by (induction xs arbitrary: ys rule: all_some.induct) auto

lemma parse_ipv4_length: "parse_ipv4 s = Some b \<Longrightarrow> length b = 4"
  by (auto simp: parse_ipv4_def Let_def dest: all_some_length split: if_splits)

lemma parse_groups_step:
  assumes "parse_groups acc ell s = Some (b, ell', rest)"
  shows "16 \<le> length acc \<and> b = acc
    \<or> (\<exists>c. parse_ipv4 s = Some c \<and> length acc + 4 \<le> 16 \<and> b = acc @ c)
    \<or> (\<exists>x y. length acc < 16 \<and> (b = acc @ [x, y]
         \<or> (\<exists>ell1 s1. parse_groups (acc @ [x, y]) ell1 s1 = Some (b, ell', rest))))"
proof -
  define g where "g = takeWhile (\<lambda>c. hex_digit_val c \<noteq> None) s"
  define s' where "s' = drop (length g) s"
  define v where "v = foldl (\<lambda>a c. 16 * a + the (hex_digit_val c)) 0 g"
  define x where "x = (of_nat (v div 256) :: u8)"
  define y where "y = (of_nat v :: u8)"
  have eq: "parse_groups acc ell s =
     (if 16 \<le> length acc then Some (acc, ell, s)
      else if g = [] \<or> 4 < length g then None
      else if has_prefix s' ''.'' then
        (if ell = None \<and> length acc \<noteq> 12 \<or> 16 < length acc + 4 then None
         else (case parse_ipv4 s of None \<Rightarrow> None | Some b \<Rightarrow> Some (acc @ b, ell, [])))
      else if s' = [] then Some (acc @ [x, y], ell, [])
      else if \<not> has_prefix s' '':'' \<or> length s' = 1 then None
      else if has_prefix (drop 1 s') '':'' then
        (if ell \<noteq> None then None
         else if length (drop 1 s') = 1 then Some (acc @ [x, y], Some (length (acc @ [x, y])), [])
         else parse_groups (acc @ [x, y]) (Some (length (acc @ [x, y]))) (drop 1 (drop 1 s')))
      else parse_groups (acc @ [x, y]) ell (drop 1 s'))"
    by (subst parse_groups.simps) (simp only: Let_def g_def s'_def v_def x_def y_def)
  have not16: "length acc < 16 \<or> 16 \<le> length acc" by auto
  from assms show ?thesis
    unfolding eq by (simp split: if_splits option.splits) (blast | simp add: not_le)+
qed

lemma parse_groups_length:
  assumes "parse_groups acc ell s = Some (b, ell', rest)" and "length acc \<le> 16" and "even (length acc)"
  shows "length b \<le> 16"
  using assms
proof (induction "16 - length acc" arbitrary: acc ell s rule: less_induct)
  case less
  from parse_groups_step [OF less.prems(1)]
  consider "b = acc" | c where "parse_ipv4 s = Some c" "length acc + 4 \<le> 16" "b = acc @ c"
    | x y where "length acc < 16" "b = acc @ [x, y]"
    | x y ell1 s1 where "length acc < 16" "parse_groups (acc @ [x, y]) ell1 s1 = Some (b, ell', rest)"
    by blast
  then show ?case
  proof cases
    case 2
    then show ?thesis by (simp add: parse_ipv4_length)
  next
    case (3 x y)
    have "length acc + 2 \<le> 16" using 3(1) less.prems(3) by presburger
    with 3 show ?thesis by simp
  next
    case (4 x y ell1 s1)
    have "length acc + 2 \<le> 16" using 4(1) less.prems(3) by presburger
    with less.hyps [OF _ 4(2)] 4(1) less.prems(3) show ?thesis by simp
  qed (use less.prems in simp)
qed

lemma parse_ip_length: "parse_ip s = Some b \<Longrightarrow> length b = 16"
proof -
  assume a: "parse_ip s = Some b"
  then consider (v4) c where "parse_ipv4 s = Some c" "b = v4_in_v6_prefix @ c" | (v6) "parse_ipv6 s = Some b"
    by (auto simp: parse_ip_def split: list.splits if_splits)
  then show ?thesis
  proof cases
    case v4
    then show ?thesis by (simp add: parse_ipv4_length v4_in_v6_prefix_def)
  next
    case v6
    then show ?thesis
      using parse_groups_length [of "[]"]
      by (fastforce simp: parse_ipv6_def Let_def split: if_splits option.splits)
  qed
qed

end
