(* ===== verification/Dnstap_Frame.thy ===== *)
theory Dnstap_Frame
  imports Codec Go_Net Dns_Msg
begin

text \<open>
  The encodings of \<^verbatim>\<open>internal/dnstap/dnstap.go\<close>: the fields of a record (\<open>frame\<close>), the protocol
  buffer fields it is made of, and the control and data frames of the stream. Each is a
  \<open>prefix_codec\<close>, so that what a reader gets back follows.
\<close>

section \<open>Records\<close>

record tap_record =
  tr_query :: msg
  tr_response :: msg
  tr_local :: net_addr
  tr_remote :: net_addr
  tr_transport :: string
  tr_qt :: instant
  tr_rt :: instant

definition content_type :: string where
  "content_type = ''protobuf:dnstap.Dnstap''"

abbreviation (input) fstrm_control_ready :: u32 where "fstrm_control_ready \<equiv> 4"
abbreviation (input) fstrm_control_start :: u32 where "fstrm_control_start \<equiv> 2"
abbreviation (input) fstrm_control_field_content_type :: u32 where "fstrm_control_field_content_type \<equiv> 1"

definition to_bytes :: "string \<Rightarrow> bytes" where
  "to_bytes s = map (\<lambda>c. of_nat (of_char c)) s"

section \<open>Fields\<close>

definition append_varint :: "bytes \<Rightarrow> nat \<Rightarrow> u64 \<Rightarrow> bytes" where
  "append_varint b field v = (b @ uvarint (of_nat (push_bit 3 field))) @ uvarint v"

definition append_bytes :: "bytes \<Rightarrow> nat \<Rightarrow> bytes \<Rightarrow> bytes" where
  "append_bytes b field v =
     (if length v = 0 then b
      else ((b @ uvarint (of_nat (push_bit 3 field OR 2))) @ uvarint (of_nat (length v))) @ v)"

section \<open>Addresses\<close>

definition socket_protocol :: "string \<Rightarrow> u64" where
  "socket_protocol transport = (if has_prefix transport ''tcp'' then 2 else 1)"

fun ip_from_addr :: "net_addr \<Rightarrow> ip" where
  "ip_from_addr (UDPAddr i p s) = i"
| "ip_from_addr (TCPAddr i p s) = i"
| "ip_from_addr (OtherAddr n s) =
     (case split_host_port s of None \<Rightarrow> None | Some (host, _) \<Rightarrow> parse_ip host)"

definition socket_family :: "net_addr \<Rightarrow> u64" where
  "socket_family addr =
     (case ip_from_addr addr of
        Some i \<Rightarrow> if ip_to4 i = None then 2 else 1
      | None \<Rightarrow> 1)"

definition addr_bytes :: "net_addr \<Rightarrow> bytes" where
  "addr_bytes addr =
     (case ip_from_addr addr of
        None \<Rightarrow> []
      | Some i \<Rightarrow> (case ip_to4 i of
                     Some v4 \<Rightarrow> v4
                   | None \<Rightarrow> (case ip_to16 i of Some v6 \<Rightarrow> v6 | None \<Rightarrow> [])))"

fun port_loop :: "string \<Rightarrow> u64 \<Rightarrow> u64" where
  "port_loop [] n = n"
| "port_loop (c # p) n = (if \<not> is_digit c then 0 else port_loop p (n * 10 + of_nat (digit_val c)))"

fun port :: "net_addr \<Rightarrow> u64" where
  "port (UDPAddr i p s) = word_of_int p"
| "port (TCPAddr i p s) = word_of_int p"
| "port (OtherAddr n s) =
     (case split_host_port s of None \<Rightarrow> 0 | Some (_, p) \<Rightarrow> port_loop p 0)"

text \<open>\<^verbatim>\<open>Time.Unix\<close> counts seconds from 1970, and instants from the year 1.\<close>

definition unix_seconds :: "instant \<Rightarrow> int" where
  "unix_seconds t = t div second - 62135596800"

definition nanosecond :: "instant \<Rightarrow> int" where
  "nanosecond t = t mod second"

section \<open>Frames\<close>

definition frame :: "dns_lib \<Rightarrow> tap_record \<Rightarrow> string + bytes" where
  "frame L r =
     (case pack_msg L (tr_query r) of
        Inl err \<Rightarrow> Inl err
      | Inr qwire \<Rightarrow>
     (case pack_msg L (tr_response r) of
        Inl err \<Rightarrow> Inl err
      | Inr rwire \<Rightarrow>
     (let msg = [];
          msg = append_varint msg 1 6;
          msg = append_varint msg 2 (socket_family (tr_remote r));
          msg = append_varint msg 3 (socket_protocol (tr_transport r));
          msg = append_bytes msg 4 (addr_bytes (tr_remote r));
          msg = append_bytes msg 5 (addr_bytes (tr_local r));
          msg = append_varint msg 6 (port (tr_remote r));
          msg = append_varint msg 7 (port (tr_local r));
          msg = append_varint msg 8 (word_of_int (unix_seconds (tr_qt r)));
          msg = append_varint msg 9 (word_of_int (nanosecond (tr_qt r)));
          msg = append_bytes msg 10 qwire;
          msg = append_varint msg 11 (word_of_int (unix_seconds (tr_rt r)));
          msg = append_varint msg 12 (word_of_int (nanosecond (tr_rt r)));
          msg = append_bytes msg 13 rwire;
          dt = [];
          dt = append_varint dt 1 1;
          dt = append_bytes dt 14 msg
      in Inr dt)))"

definition control_frame :: "u32 \<Rightarrow> string \<Rightarrow> bytes" where
  "control_frame typ ct =
     (let payload = be32 typ;
          payload = (if ct \<noteq> []
            then payload @ (be32 fstrm_control_field_content_type @ be32 (of_nat (length ct))) @ to_bytes ct
            else payload);
          hdr = be32 0 @ be32 (of_nat (length payload))
      in hdr @ payload)"

definition data_frame :: "bytes \<Rightarrow> bytes" where
  "data_frame payload = be32 (of_nat (length payload)) @ payload"

section \<open>Reading the fields back\<close>

datatype pb_field =
    PbVarint nat u64
  | PbBytes nat bytes

fun pb_enc :: "pb_field \<Rightarrow> bytes" where
  "pb_enc (PbVarint f v) = uvarint (of_nat (8 * f)) @ uvarint v"
| "pb_enc (PbBytes f v) = uvarint (of_nat (8 * f + 2)) @ uvarint (of_nat (length v)) @ v"

fun pb_ok :: "pb_field \<Rightarrow> bool" where
  "pb_ok (PbVarint f v) = (8 * f < 2 ^ 64)"
| "pb_ok (PbBytes f v) = (8 * f + 2 < 2 ^ 64 \<and> length v < 2 ^ 64)"

text \<open>A field as the protocol buffer wire format defines it, for the two wire types in use.\<close>

definition pb_dec :: "bytes \<Rightarrow> (pb_field \<times> bytes) option" where
  "pb_dec b =
     (case get_uvarint b of
        None \<Rightarrow> None
      | Some (key, b) \<Rightarrow>
          (let f = unat key div 8 in
           if unat key mod 8 = 0 then
             (case get_uvarint b of None \<Rightarrow> None | Some (v, b) \<Rightarrow> Some (PbVarint f v, b))
           else if unat key mod 8 = 2 then
             (case get_uvarint b of
                None \<Rightarrow> None
              | Some (n, b) \<Rightarrow>
                  if unat n \<le> length b then Some (PbBytes f (take (unat n) b), drop (unat n) b) else None)
           else None))"

lemma unat_of_nat_u64: "n < 2 ^ 64 \<Longrightarrow> unat (of_nat n :: u64) = n"
  by (simp add: unsigned_of_nat take_bit_nat_eq_self)

interpretation pb: prefix_codec pb_enc pb_dec pb_ok
proof
  fix x :: pb_field and rest :: bytes
  assume ok: "pb_ok x"
  show "pb_dec (pb_enc x @ rest) = Some (x, rest)"
  proof (cases x)
    case (PbVarint f v)
    with ok have "unat (of_nat (8 * f) :: u64) = 8 * f" by (intro unat_of_nat_u64) simp
    with PbVarint show ?thesis
      by (simp add: pb_dec_def uvarint.dec_enc Let_def del: of_nat_mult)
  next
    case (PbBytes f v)
    with ok have "unat (of_nat (8 * f + 2) :: u64) = 8 * f + 2"
      by (intro unat_of_nat_u64) simp
    moreover have "unat (of_nat (length v) :: u64) = length v"
      using ok PbBytes by (intro unat_of_nat_u64) simp
    moreover have "(8 * f + 2) mod 8 = 2" "(8 * f + 2) div 8 = f" by presburger+
    ultimately show ?thesis
      using PbBytes by (simp add: pb_dec_def uvarint.dec_enc Let_def del: of_nat_mult of_nat_add)
  qed
next
  fix x show "pb_enc x \<noteq> []" by (cases x) simp_all
qed

section \<open>What a reader of a frame gets\<close>

lemma append_varint_enc: "append_varint b field v = b @ pb_enc (PbVarint field v)"
  by (simp add: append_varint_def push_bit_eq_mult mult.commute)

lemma append_bytes_enc:
  "append_bytes b field v = b @ (if v = [] then [] else pb_enc (PbBytes field v))"
proof -
  have "push_bit 3 field OR 2 = push_bit 3 field + 2"
    by (rule disjunctive_add_eq_or [symmetric]) (rule bit_eqI, auto simp: bit_simps)
  then show ?thesis by (simp add: append_bytes_def push_bit_eq_mult mult.commute)
qed

text \<open>The message a record stands for, as the writer numbers its fields. Empty fields are left out.\<close>

definition bytes_field :: "nat \<Rightarrow> bytes \<Rightarrow> pb_field list" where
  "bytes_field f v = (if v = [] then [] else [PbBytes f v])"

definition message_fields :: "tap_record \<Rightarrow> bytes \<Rightarrow> bytes \<Rightarrow> pb_field list" where
  "message_fields r qwire rwire =
     [PbVarint 1 6, PbVarint 2 (socket_family (tr_remote r)), PbVarint 3 (socket_protocol (tr_transport r))]
     @ bytes_field 4 (addr_bytes (tr_remote r)) @ bytes_field 5 (addr_bytes (tr_local r))
     @ [PbVarint 6 (port (tr_remote r)), PbVarint 7 (port (tr_local r)),
        PbVarint 8 (word_of_int (unix_seconds (tr_qt r))), PbVarint 9 (word_of_int (nanosecond (tr_qt r)))]
     @ bytes_field 10 qwire
     @ [PbVarint 11 (word_of_int (unix_seconds (tr_rt r))), PbVarint 12 (word_of_int (nanosecond (tr_rt r)))]
     @ bytes_field 13 rwire"

lemma append_bytes_fields:
  "append_bytes b f v = b @ concat (map pb_enc (bytes_field f v))"
  by (simp add: append_bytes_enc bytes_field_def)

lemma frame_eq:
  assumes "pack_msg L (tr_query r) = Inr qwire" and "pack_msg L (tr_response r) = Inr rwire"
  shows "frame L r = Inr (concat (map pb_enc
     (PbVarint 1 1 # bytes_field 14 (concat (map pb_enc (message_fields r qwire rwire))))))"
  by (simp add: frame_def assms Let_def append_varint_enc append_bytes_fields message_fields_def
      del: pb_enc.simps)

lemma length_ip_to4: "ip_to4 i = Some v \<Longrightarrow> length v = 4"
  by (auto simp: ip_to4_def v4_in_v6_prefix_def split: if_splits)

lemma length_addr_bytes: "length (addr_bytes a) \<le> 16"
  by (auto simp: addr_bytes_def ip_to16_def v4_in_v6_prefix_def dest: length_ip_to4 split: option.splits)

lemma uvarint_length_aux: "length (uvarint v) \<le> 10"
proof -
  have "unat v < 2 ^ (7 * n) \<Longrightarrow> 0 < n \<Longrightarrow> length (uvarint v) \<le> n" for n
  proof (induction v arbitrary: n rule: uvarint.induct)
    case (1 v)
    show ?case
    proof (cases "v < 0x80")
      case True
      with 1 show ?thesis by (subst uvarint.simps) simp
    next
      case False
      obtain m where m: "n = Suc m" using "1.prems"(2) by (cases n) auto
      have ge: "128 \<le> unat v" using False by (simp add: word_less_nat_alt not_less)
      have "m \<noteq> 0"
      proof
        assume "m = 0"
        with "1.prems"(1) m ge show False by simp
      qed
      moreover have "unat (drop_bit 7 v) < 2 ^ (7 * m)"
        using "1.prems"(1) m by (simp add: unat_drop7 power_add less_mult_imp_div_less mult.commute)
      ultimately have "length (uvarint (drop_bit 7 v)) \<le> m" using "1.IH" [OF False] by simp
      with False m show ?thesis by (subst uvarint.simps) simp
    qed
  qed
  from this [of 10] have "unat v < 2 ^ 70 \<Longrightarrow> length (uvarint v) \<le> 10" by simp
  moreover have "unat v < 2 ^ 64" using unsigned_less [of v, where ?'a = nat] by simp
  ultimately show ?thesis by simp
qed

text \<open>
  C18: a captured exchange can be read back. When both messages pack, to at most 64 KiB each, the
  frame is a message field and inside it exactly the values of the record: the kind, the address
  family and protocol, both addresses and ports, both times, and both messages, each under the
  number the writer gives it.
\<close>

theorem frame_roundtrip:
  assumes "pack_msg L (tr_query r) = Inr qwire" and "pack_msg L (tr_response r) = Inr rwire"
    and "length qwire \<le> 65535" and "length rwire \<le> 65535"
  shows "\<exists>dt msg. frame L r = Inr dt
    \<and> decode_list pb_dec dt = Some [PbVarint 1 1, PbBytes 14 msg]
    \<and> decode_list pb_dec msg = Some (message_fields r qwire rwire)"
proof -
  define msg where "msg = concat (map pb_enc (message_fields r qwire rwire))"
  have ne: "msg \<noteq> []" by (simp add: msg_def message_fields_def del: pb_enc.simps) simp
  have small: "length (concat (map pb_enc (bytes_field f v))) \<le> 20 + length v" for f v
    using uvarint_length_aux [of "of_nat (8 * f + 2)"] uvarint_length_aux [of "of_nat (length v)"]
    by (simp add: bytes_field_def)
  have small1: "length (pb_enc (PbVarint f v)) \<le> 20" for f v
    using uvarint_length_aux [of "of_nat (8 * f)"] uvarint_length_aux [of v] by simp
  have "length msg \<le> 200000"
    using small [of 4 "addr_bytes (tr_remote r)"] small [of 5 "addr_bytes (tr_local r)"]
      small [of 10 qwire] small [of 13 rwire] length_addr_bytes [of "tr_remote r"]
      length_addr_bytes [of "tr_local r"] assms(3,4)
      small1 [of 1 6] small1 [of 2 "socket_family (tr_remote r)"]
      small1 [of 3 "socket_protocol (tr_transport r)"] small1 [of 6 "port (tr_remote r)"]
      small1 [of 7 "port (tr_local r)"] small1 [of 8 "word_of_int (unix_seconds (tr_qt r))"]
      small1 [of 9 "word_of_int (nanosecond (tr_qt r))"]
      small1 [of 11 "word_of_int (unix_seconds (tr_rt r))"]
      small1 [of 12 "word_of_int (nanosecond (tr_rt r))"]
    unfolding msg_def message_fields_def map_append concat_append length_append list.map concat.simps list.size(3)
    by linarith
  then have "list_all pb_ok [PbVarint 1 1, PbBytes 14 msg]" by simp
  from pb.decode_list_enc [OF this]
  have "decode_list pb_dec (concat (map pb_enc (PbVarint 1 1 # bytes_field 14 msg))) = Some [PbVarint 1 1, PbBytes 14 msg]"
    by (simp only: bytes_field_def ne if_False)
  moreover have "list_all pb_ok (message_fields r qwire rwire)"
    using assms(3,4) length_addr_bytes [of "tr_remote r"] length_addr_bytes [of "tr_local r"]
    by (simp add: message_fields_def bytes_field_def)
  from pb.decode_list_enc [OF this]
  have "decode_list pb_dec msg = Some (message_fields r qwire rwire)" by (simp only: msg_def)
  ultimately show ?thesis using frame_eq [OF assms(1,2)] unfolding msg_def by blast
qed

definition ex_record :: tap_record where
  "ex_record = \<lparr>tr_query = empty_msg, tr_response = empty_msg\<lparr>m_id := 5\<rparr>,
     tr_local = UDPAddr (Some [127, 0, 0, 1]) 53 ''127.0.0.1:53'',
     tr_remote = OtherAddr ''unix'' ''@'', tr_transport = ''udp'',
     tr_qt = 62135596801 * second + 5, tr_rt = 62135596802 * second\<rparr>"

theorem frame_roundtrip_witness:
  "\<exists>dt msg. frame plain_lib ex_record = Inr dt
    \<and> decode_list pb_dec dt = Some [PbVarint 1 1, PbBytes 14 msg]
    \<and> decode_list pb_dec msg = Some
        [PbVarint 1 6, PbVarint 2 1, PbVarint 3 1, PbBytes 5 [127, 0, 0, 1], PbVarint 6 0, PbVarint 7 53,
         PbVarint 8 1, PbVarint 9 5, PbBytes 10 [0, 0], PbVarint 11 2, PbVarint 12 0, PbBytes 13 [5, 0]]"
proof -
  have a: "addr_bytes (tr_remote ex_record) = []" "addr_bytes (tr_local ex_record) = [127, 0, 0, 1]"
      "socket_family (tr_remote ex_record) = 1" "port (tr_remote ex_record) = 0"
    by (simp_all add: ex_record_def addr_bytes_def socket_family_def ip_to4_def split_host_port_def
        last_index_char_def)
  have "pack_msg plain_lib (tr_query ex_record) = Inr [0, 0]"
      "pack_msg plain_lib (tr_response ex_record) = Inr [5, 0]"
    by (simp_all add: plain_lib_def ex_record_def empty_msg_def)
  from frame_roundtrip [OF this] show ?thesis
    unfolding message_fields_def a
    by (simp add: bytes_field_def ex_record_def socket_protocol_def has_prefix_def unix_seconds_def
        nanosecond_def)
qed

section \<open>What a reader of an address gets\<close>

text \<open>The IPs of socket addresses have 4 or 16 bytes, or are nil.\<close>

definition addr_ok :: "net_addr \<Rightarrow> bool" where
  "addr_ok a \<longleftrightarrow> (case ip_from_addr a of None \<Rightarrow> True | Some i \<Rightarrow> length i = 4 \<or> length i = 16)"

lemma addr_ok_other [simp]: "addr_ok (OtherAddr n s)"
  by (auto simp: addr_ok_def dest: parse_ip_length split: option.splits)

lemma ip_to4_cases:
  assumes "length i = 4 \<or> length i = 16"
  obtains (v4) v where "ip_to4 i = Some v" "length v = 4" "ip_to16 v = ip_to16 i"
  | (v6) "ip_to4 i = None" "ip_to16 i = Some i" "length i = 16"
proof (cases "ip_to4 i")
  case None
  with assms v6 show ?thesis by (auto simp: ip_to4_def ip_to16_def)
next
  case (Some v)
  then have "length v = 4" by (rule length_ip_to4)
  moreover have "ip_to16 v = ip_to16 i"
    using Some \<open>length v = 4\<close> append_take_drop_id [of 12 i]
    by (auto simp del: append_take_drop_id simp: ip_to4_def ip_to16_def split: if_splits)
  ultimately show ?thesis using Some v4 by blast
qed

text \<open>
  An address is exported faithfully. Nothing is written for a peer without an IP; otherwise the
  bytes are the same address as the peer's, in 4 bytes under the IPv4 family or in 16 under the
  IPv6 family, also for an IPv4 address kept in IPv6 form.
\<close>

lemma addr_bytes_faithful:
  assumes "addr_ok a"
  shows "(addr_bytes a = [] \<longleftrightarrow> ip_from_addr a = None)
    \<and> (addr_bytes a \<noteq> [] \<longrightarrow> length (addr_bytes a) = (if socket_family a = 2 then 16 else 4))
    \<and> (\<forall>i. ip_from_addr a = Some i \<longrightarrow> ip_to16 (addr_bytes a) = ip_to16 i)"
proof (cases "ip_from_addr a")
  case None
  then show ?thesis by (simp add: addr_bytes_def)
next
  case (Some i)
  with assms have "length i = 4 \<or> length i = 16" by (simp add: addr_ok_def)
  then show ?thesis
  proof (cases rule: ip_to4_cases)
    case (v4 v)
    with Some show ?thesis by (auto simp: addr_bytes_def socket_family_def)
  next
    case v6
    with Some show ?thesis by (auto simp: addr_bytes_def socket_family_def)
  qed
qed

lemma addr_bytes_faithful_example:
  "length (addr_bytes (TCPAddr (Some (v4_in_v6_prefix @ [10, 0, 0, 1])) 53 [])) = 4"
  using addr_bytes_faithful [of "TCPAddr (Some (v4_in_v6_prefix @ [10, 0, 0, 1])) 53 []"]
  by (simp add: addr_ok_def v4_in_v6_prefix_def socket_family_def ip_to4_def)

end
