(* ===== verification/Dnstap_Writer.thy ===== *)
theory Dnstap_Writer
  imports Dnstap_Frame
begin

text \<open>
  The writer of \<^verbatim>\<open>internal/dnstap/dnstap.go\<close>: the queue the DNS server fills without ever
  blocking, and the export loop as a step relation, with the network free to fail at any dial and
  any write. \<open>xp_accepted\<close> and \<open>xp_taken\<close> only record what went into and out of the queue, and
  \<open>xp_conns\<close> what arrived on each connection.
\<close>

section \<open>The queue\<close>

record writer =
  wr_network :: string
  wr_addr :: string
  wr_ch :: "tap_record list"
  wr_started :: bool

definition parse_destination :: "string \<Rightarrow> string \<times> string" where
  "parse_destination destination =
     (if has_prefix destination ''tcp://'' then (''tcp'', trim_prefix destination ''tcp://'')
      else if has_prefix destination ''unix://'' then (''unix'', trim_prefix destination ''unix://'')
      else if has_prefix destination ''unix:'' then (''unix'', trim_prefix destination ''unix:'')
      else (''unix'', destination))"

definition channel_capacity :: nat where
  "channel_capacity = 1024"

definition new_writer :: "string \<Rightarrow> writer" where
  "new_writer destination =
     (let (network, addr) = parse_destination destination in
      \<lparr>wr_network = network, wr_addr = addr, wr_ch = [], wr_started = False\<rparr>)"

text \<open>\<^verbatim>\<open>Start\<close>: the writer, and whether it starts the loop.\<close>

definition start :: "writer \<Rightarrow> writer \<times> bool" where
  "start w = (w\<lparr>wr_started := True\<rparr>, \<not> wr_started w)"

definition capture :: "tap_record \<Rightarrow> writer option \<Rightarrow> writer option" where
  "capture r w =
     (case w of
        None \<Rightarrow> None
      | Some w \<Rightarrow>
          if length (wr_ch w) < channel_capacity then Some (w\<lparr>wr_ch := wr_ch w @ [r]\<rparr>) else Some w)"

section \<open>The export loop\<close>

datatype exporter_pc =
    PcDial
  | PcReady
  | PcStart
  | PcRange
  | PcWrite bytes

record exporter =
  xp_writer :: writer
  xp_pc :: exporter_pc
  xp_conns :: "bytes list"
  xp_accepted :: "tap_record list"
  xp_taken :: "tap_record list"

definition exporter_init :: "string \<Rightarrow> exporter" where
  "exporter_init destination = \<lparr>xp_writer = fst (start (new_writer destination)), xp_pc = PcDial,
     xp_conns = [], xp_accepted = [], xp_taken = []\<rparr>"

text \<open>Bytes arriving on the current connection, and where a write leads: it succeeds, or fails
  after a part of the bytes.\<close>

definition on_wire :: "bytes \<Rightarrow> exporter \<Rightarrow> exporter" where
  "on_wire b s = s\<lparr>xp_conns := butlast (xp_conns s) @ [last (xp_conns s) @ b]\<rparr>"

definition goto :: "exporter_pc \<Rightarrow> exporter \<Rightarrow> exporter" where
  "goto pc s = s\<lparr>xp_pc := pc\<rparr>"

definition control_ready :: bytes where
  "control_ready = control_frame fstrm_control_ready content_type"

definition control_start :: bytes where
  "control_start = control_frame fstrm_control_start content_type"

inductive tap_step :: "dns_lib \<Rightarrow> exporter \<Rightarrow> exporter \<Rightarrow> bool" for L :: dns_lib where
  captured: "length (wr_ch (xp_writer s)) < channel_capacity \<Longrightarrow>
     tap_step L s (s\<lparr>xp_writer := the (capture r (Some (xp_writer s))), xp_accepted := xp_accepted s @ [r]\<rparr>)"
| dropped: "\<not> length (wr_ch (xp_writer s)) < channel_capacity \<Longrightarrow>
     tap_step L s (s\<lparr>xp_writer := the (capture r (Some (xp_writer s)))\<rparr>)"
| dial_failed: "xp_pc s = PcDial \<Longrightarrow> tap_step L s s"
| dialled: "xp_pc s = PcDial \<Longrightarrow> tap_step L s (goto PcReady (s\<lparr>xp_conns := xp_conns s @ [[]]\<rparr>))"
| ready_written: "xp_pc s = PcReady \<Longrightarrow> tap_step L s (goto PcStart (on_wire control_ready s))"
| ready_failed: "xp_pc s = PcReady \<Longrightarrow> tap_step L s (goto PcDial (on_wire (take k control_ready) s))"
| start_written: "xp_pc s = PcStart \<Longrightarrow> tap_step L s (goto PcRange (on_wire control_start s))"
| start_failed: "xp_pc s = PcStart \<Longrightarrow> tap_step L s (goto PcDial (on_wire (take k control_start) s))"
| encode_failed: "xp_pc s = PcRange \<Longrightarrow> wr_ch (xp_writer s) = r # rest \<Longrightarrow> frame L r = Inl err \<Longrightarrow>
     tap_step L s (s\<lparr>xp_writer := (xp_writer s)\<lparr>wr_ch := rest\<rparr>, xp_taken := xp_taken s @ [r]\<rparr>)"
| received: "xp_pc s = PcRange \<Longrightarrow> wr_ch (xp_writer s) = r # rest \<Longrightarrow> frame L r = Inr dt \<Longrightarrow>
     tap_step L s (goto (PcWrite dt)
       (s\<lparr>xp_writer := (xp_writer s)\<lparr>wr_ch := rest\<rparr>, xp_taken := xp_taken s @ [r]\<rparr>))"
| data_written: "xp_pc s = PcWrite dt \<Longrightarrow> tap_step L s (goto PcRange (on_wire (data_frame dt) s))"
| data_failed: "xp_pc s = PcWrite dt \<Longrightarrow> tap_step L s (goto PcDial (on_wire (take k (data_frame dt)) s))"

definition tap_reachable :: "dns_lib \<Rightarrow> string \<Rightarrow> exporter \<Rightarrow> bool" where
  "tap_reachable L destination s \<longleftrightarrow> (tap_step L)\<^sup>*\<^sup>* (exporter_init destination) s"

section \<open>The stream\<close>

text \<open>A frame stream as its readers define it: control frames escaped by a zero length.\<close>

datatype fstrm =
    FControl bytes
  | FData bytes

fun fstrm_enc :: "fstrm \<Rightarrow> bytes" where
  "fstrm_enc (FControl p) = be32 0 @ be32 (of_nat (length p)) @ p"
| "fstrm_enc (FData p) = be32 (of_nat (length p)) @ p"

fun fstrm_ok :: "fstrm \<Rightarrow> bool" where
  "fstrm_ok (FControl p) = (length p < 2 ^ 32)"
| "fstrm_ok (FData p) = (p \<noteq> [] \<and> length p < 2 ^ 32)"

definition fstrm_dec :: "bytes \<Rightarrow> (fstrm \<times> bytes) option" where
  "fstrm_dec b =
     (case get_be32 b of
        None \<Rightarrow> None
      | Some (n, b) \<Rightarrow>
          if n = 0 then
            (case get_be32 b of
               None \<Rightarrow> None
             | Some (m, b) \<Rightarrow>
                 if unat m \<le> length b then Some (FControl (take (unat m) b), drop (unat m) b) else None)
          else if unat n \<le> length b then Some (FData (take (unat n) b), drop (unat n) b)
          else None)"

lemma unat_of_nat_u32: "n < 2 ^ 32 \<Longrightarrow> unat (of_nat n :: u32) = n"
  by (simp add: unsigned_of_nat take_bit_nat_eq_self)

interpretation fstrm: prefix_codec fstrm_enc fstrm_dec fstrm_ok
proof
  fix x :: fstrm and rest :: bytes
  assume ok: "fstrm_ok x"
  show "fstrm_dec (fstrm_enc x @ rest) = Some (x, rest)"
  proof (cases x)
    case (FControl p)
    with ok have "unat (of_nat (length p) :: u32) = length p" by (intro unat_of_nat_u32) simp
    with FControl show ?thesis by (simp add: fstrm_dec_def be32.dec_enc)
  next
    case (FData p)
    with ok have len: "unat (of_nat (length p) :: u32) = length p" by (intro unat_of_nat_u32) simp
    have "(of_nat (length p) :: u32) \<noteq> 0"
    proof
      assume "(of_nat (length p) :: u32) = 0"
      with len have "length p = 0" by simp
      with ok FData show False by simp
    qed
    with FData len show ?thesis by (simp add: fstrm_dec_def be32.dec_enc)
  qed
next
  fix x show "fstrm_enc x \<noteq> []"
  proof (cases x)
    case (FControl p)
    then show ?thesis using be32.enc_nonempty [of 0] by simp
  next
    case (FData p)
    then show ?thesis using be32.enc_nonempty [of "of_nat (length p)"] by simp
  qed
qed

end
