(* ===== verification/Dnstap_Properties.thy ===== *)
theory Dnstap_Properties
  imports Dnstap_Writer
begin

text \<open>
  The properties of the export loop, over every reachable state: the queue is bounded and first in
  first out, every connection carries a well-formed stream, no record is exported twice or out of
  order, and a network that works again gets everything that is queued.
\<close>

section \<open>The stream of a connection\<close>

definition stream :: "bytes list \<Rightarrow> bytes" where
  "stream ds = control_ready @ control_start @ concat (map data_frame ds)"

text \<open>The frames of the records that can be encoded, in order.\<close>

definition frames :: "dns_lib \<Rightarrow> tap_record list \<Rightarrow> bytes list" where
  "frames L rs = concat (map (\<lambda>r. case frame L r of Inl err \<Rightarrow> [] | Inr dt \<Rightarrow> [dt]) rs)"

lemma frames_append [simp]: "frames L (xs @ ys) = frames L xs @ frames L ys"
  by (simp add: frames_def)

lemma frames_single: "frames L [r] = (case frame L r of Inl err \<Rightarrow> [] | Inr dt \<Rightarrow> [dt])"
  by (simp add: frames_def)

lemma stream_snoc: "stream (ds @ [d]) = stream ds @ data_frame d"
  by (simp add: stream_def)

lemma data_frame_enc: "data_frame d = fstrm_enc (FData d)"
  by (simp add: data_frame_def)

lemma control_frame_enc:
  "control_frame typ ct = fstrm_enc (FControl (be32 typ @
     (if ct = [] then [] else be32 1 @ be32 (of_nat (length ct)) @ to_bytes ct)))"
  by (simp add: control_frame_def Let_def)

definition ready_payload :: bytes where
  "ready_payload = be32 4 @ be32 1 @ be32 22 @ to_bytes content_type"

definition start_payload :: bytes where
  "start_payload = be32 2 @ be32 1 @ be32 22 @ to_bytes content_type"

lemma control_frames:
  "control_ready = fstrm_enc (FControl ready_payload)" "control_start = fstrm_enc (FControl start_payload)"
  by (simp_all add: control_ready_def control_start_def control_frame_enc ready_payload_def
      start_payload_def content_type_def)

lemma stream_enc: "stream ds = concat (map fstrm_enc (FControl ready_payload # FControl start_payload # map FData ds))"
  by (simp add: stream_def control_frames data_frame_enc [abs_def] comp_def del: fstrm_enc.simps)

section \<open>The invariant\<close>

text \<open>
  \<open>dss\<close> holds for each connection the frames written to it; the last connection carries exactly
  what the program counter says, the earlier ones a prefix of their stream.
\<close>

definition conn_ok :: "exporter_pc \<Rightarrow> bytes \<Rightarrow> bytes list \<Rightarrow> bool" where
  "conn_ok pc wire ds \<longleftrightarrow>
     (case pc of
        PcDial \<Rightarrow> prefix wire (stream ds)
      | PcReady \<Rightarrow> wire = [] \<and> ds = []
      | PcStart \<Rightarrow> wire = control_ready \<and> ds = []
      | PcRange \<Rightarrow> wire = stream ds
      | PcWrite dt \<Rightarrow> wire = stream ds)"

definition pending :: "exporter_pc \<Rightarrow> bytes list" where
  "pending pc = (case pc of PcWrite dt \<Rightarrow> [dt] | _ \<Rightarrow> [])"

definition tap_inv :: "dns_lib \<Rightarrow> exporter \<Rightarrow> bool" where
  "tap_inv L s \<longleftrightarrow>
     length (wr_ch (xp_writer s)) \<le> channel_capacity
   \<and> xp_accepted s = xp_taken s @ wr_ch (xp_writer s)
   \<and> (xp_pc s \<noteq> PcDial \<longrightarrow> xp_conns s \<noteq> [])
   \<and> (\<exists>dss. subseq (concat dss @ pending (xp_pc s)) (frames L (xp_taken s))
        \<and> list_all2 (\<lambda>wire ds. prefix wire (stream ds)) (xp_conns s) dss
        \<and> (xp_conns s \<noteq> [] \<longrightarrow> conn_ok (xp_pc s) (last (xp_conns s)) (last dss)))"

lemma tap_invI:
  assumes "length (wr_ch (xp_writer s)) \<le> channel_capacity"
    and "xp_accepted s = xp_taken s @ wr_ch (xp_writer s)"
    and "xp_pc s \<noteq> PcDial \<longrightarrow> xp_conns s \<noteq> []"
    and "subseq (concat dss @ pending (xp_pc s)) (frames L (xp_taken s))"
    and "list_all2 (\<lambda>wire ds. prefix wire (stream ds)) (xp_conns s) dss"
    and "xp_conns s \<noteq> [] \<longrightarrow> conn_ok (xp_pc s) (last (xp_conns s)) (last dss)"
  shows "tap_inv L s"
  using assms unfolding tap_inv_def by blast

lemma tap_inv_init: "tap_inv L (exporter_init destination)"
  by (rule tap_invI [where dss = "[]"])
    (simp_all add: exporter_init_def new_writer_def start_def pending_def case_prod_beta)

lemma on_wire_simps [simp]:
  "xp_writer (on_wire b s) = xp_writer s" "xp_pc (on_wire b s) = xp_pc s"
  "xp_accepted (on_wire b s) = xp_accepted s" "xp_taken (on_wire b s) = xp_taken s"
  "xp_conns (on_wire b s) = butlast (xp_conns s) @ [last (xp_conns s) @ b]"
  by (simp_all add: on_wire_def)

lemma goto_simps [simp]:
  "xp_writer (goto pc s) = xp_writer s" "xp_pc (goto pc s) = pc"
  "xp_accepted (goto pc s) = xp_accepted s" "xp_taken (goto pc s) = xp_taken s"
  "xp_conns (goto pc s) = xp_conns s"
  by (simp_all add: goto_def)

text \<open>
  A write on the current connection: \<open>ds'\<close> are the frames counted for it afterwards, and what was
  pending is either counted or given up.
\<close>

lemma tap_inv_write:
  assumes inv: "tap_inv L s" and conns: "xp_conns s \<noteq> []"
    and step: "\<And>ds. conn_ok (xp_pc s) (last (xp_conns s)) ds \<Longrightarrow>
      prefix (last (xp_conns s) @ b) (stream (ds @ extra)) \<and> conn_ok pc' (last (xp_conns s) @ b) (ds @ extra)"
    and extra: "subseq extra (pending (xp_pc s))" and pend: "pending pc' = []"
  shows "tap_inv L (goto pc' (on_wire b s))"
proof -
  from inv obtain dss where dss: "subseq (concat dss @ pending (xp_pc s)) (frames L (xp_taken s))"
      "list_all2 (\<lambda>wire ds. prefix wire (stream ds)) (xp_conns s) dss"
      "conn_ok (xp_pc s) (last (xp_conns s)) (last dss)"
    using conns unfolding tap_inv_def by blast
  from dss(2) conns have "dss \<noteq> []" by auto
  then have split: "dss = butlast dss @ [last dss]" by simp
  let ?dss = "butlast dss @ [last dss @ extra]"
  show ?thesis
  proof (rule tap_invI [where dss = ?dss])
    have "concat ?dss = concat dss @ extra" by (subst (3) split) simp
    then show "subseq (concat ?dss @ pending (xp_pc (goto pc' (on_wire b s))))
        (frames L (xp_taken (goto pc' (on_wire b s))))"
      using dss(1) extra pend
      by (simp del: concat_append) (meson list_emb_append_mono subseq_order.order_refl subseq_order.order_trans)
    have "list_all2 (\<lambda>wire ds. prefix wire (stream ds)) (butlast (xp_conns s)) (butlast dss)"
      using dss(2) by (simp add: list_all2_conv_all_nth nth_butlast)
    then show "list_all2 (\<lambda>wire ds. prefix wire (stream ds)) (xp_conns (goto pc' (on_wire b s))) ?dss"
      using step [OF dss(3)] by (simp add: list_all2_appendI)
  qed (use inv step [OF dss(3)] in \<open>simp_all add: tap_inv_def\<close>)
qed

lemma prefix_stream: "prefix (stream ds) (stream ds)" by simp

lemma prefix_take_append: "prefix (a @ take k b) (a @ b)"
  by (simp add: take_is_prefix)

lemma stream_Nil: "stream [] = control_ready @ control_start"
  by (simp add: stream_def)

text \<open>Each step keeps the invariant: capturing, dialling, writing a control frame, taking a record, writing it.\<close>

lemma tap_inv_captured [inv_intros]:
  "tap_inv L s \<Longrightarrow> length (wr_ch (xp_writer s)) < channel_capacity \<Longrightarrow>
     tap_inv L (s\<lparr>xp_writer := the (capture r (Some (xp_writer s))), xp_accepted := xp_accepted s @ [r]\<rparr>)"
  "tap_inv L s \<Longrightarrow> \<not> length (wr_ch (xp_writer s)) < channel_capacity \<Longrightarrow>
     tap_inv L (s\<lparr>xp_writer := the (capture r (Some (xp_writer s)))\<rparr>)"
  unfolding tap_inv_def by (auto simp: capture_def)

lemma tap_inv_dialled [inv_intros]:
  assumes "tap_inv L s" and "xp_pc s = PcDial"
  shows "tap_inv L (goto PcReady (s\<lparr>xp_conns := xp_conns s @ [[]]\<rparr>))"
proof -
  from assms obtain dss where dss: "subseq (concat dss) (frames L (xp_taken s))"
      "list_all2 (\<lambda>wire ds. prefix wire (stream ds)) (xp_conns s) dss"
    unfolding tap_inv_def by (auto simp: pending_def)
  show ?thesis
    by (rule tap_invI [where dss = "dss @ [[]]"])
      (use dss assms in \<open>simp_all add: tap_inv_def pending_def conn_ok_def list_all2_appendI\<close>)
qed

lemma tap_inv_ready [inv_intros]:
  assumes "tap_inv L s" and "xp_pc s = PcReady"
  shows "tap_inv L (goto PcStart (on_wire control_ready s))" and "tap_inv L (goto PcDial (on_wire (take k control_ready) s))"
  by (rule tap_inv_write [where extra = "[]"];
      use assms in \<open>auto simp: tap_inv_def conn_ok_def pending_def stream_Nil take_is_prefix prefix_prefix\<close>)+

lemma tap_inv_start [inv_intros]:
  assumes "tap_inv L s" and "xp_pc s = PcStart"
  shows "tap_inv L (goto PcRange (on_wire control_start s))" and "tap_inv L (goto PcDial (on_wire (take k control_start) s))"
  by (rule tap_inv_write [where extra = "[]"];
      use assms in \<open>auto simp: tap_inv_def conn_ok_def pending_def stream_Nil take_is_prefix\<close>)+

lemma tap_inv_taken [inv_intros]:
  assumes inv: "tap_inv L s" and pc: "xp_pc s = PcRange" and ch: "wr_ch (xp_writer s) = r # rest"
  shows "frame L r = Inl err \<Longrightarrow> tap_inv L (s\<lparr>xp_writer := (xp_writer s)\<lparr>wr_ch := rest\<rparr>, xp_taken := xp_taken s @ [r]\<rparr>)"
    and "frame L r = Inr dt \<Longrightarrow>
      tap_inv L (goto (PcWrite dt) (s\<lparr>xp_writer := (xp_writer s)\<lparr>wr_ch := rest\<rparr>, xp_taken := xp_taken s @ [r]\<rparr>))"
proof -
  from inv obtain dss where dss: "subseq (concat dss) (frames L (xp_taken s))"
      "list_all2 (\<lambda>wire ds. prefix wire (stream ds)) (xp_conns s) dss"
      "conn_ok PcRange (last (xp_conns s)) (last dss)" "xp_conns s \<noteq> []"
    using pc unfolding tap_inv_def by (auto simp: pending_def)
  show "tap_inv L (s\<lparr>xp_writer := (xp_writer s)\<lparr>wr_ch := rest\<rparr>, xp_taken := xp_taken s @ [r]\<rparr>)" if "frame L r = Inl err"
    by (rule tap_invI [where dss = dss]) (use dss inv pc ch that in \<open>auto simp: tap_inv_def pending_def frames_single\<close>)
  show "tap_inv L (goto (PcWrite dt) (s\<lparr>xp_writer := (xp_writer s)\<lparr>wr_ch := rest\<rparr>, xp_taken := xp_taken s @ [r]\<rparr>))"
    if "frame L r = Inr dt"
    by (rule tap_invI [where dss = dss])
      (use dss inv pc ch that in \<open>auto simp: tap_inv_def pending_def frames_single conn_ok_def intro: list_emb_append_mono\<close>)
qed

lemma tap_inv_data [inv_intros]:
  assumes "tap_inv L s" and "xp_pc s = PcWrite dt"
  shows "tap_inv L (goto PcRange (on_wire (data_frame dt) s))" and "tap_inv L (goto PcDial (on_wire (take k (data_frame dt)) s))"
  by (rule tap_inv_write [where extra = "[dt]"];
      use assms in \<open>auto simp: tap_inv_def conn_ok_def pending_def stream_snoc take_is_prefix\<close>)+

lemma tap_inv_step: "tap_step L s s' \<Longrightarrow> tap_inv L s \<Longrightarrow> tap_inv L s'"
  by (cases rule: tap_step.cases) (auto intro: inv_intros)

lemma subseq_set: "subseq xs ys \<Longrightarrow> set xs \<subseteq> set ys"
  by (induction rule: list_emb.induct) auto

lemma tap_inv_reachable: "tap_reachable L destination s \<Longrightarrow> tap_inv L s"
  unfolding tap_reachable_def
  by (induction rule: rtranclp_induct) (auto intro: tap_inv_init tap_inv_step)

section \<open>Properties of the reachable states\<close>

text \<open>
  C5: the export is safe in every reachable state, whatever the server captures and wherever dials
  and writes fail. The queue never exceeds its capacity. What was accepted is what was taken
  followed by what is queued, in order. Each connection carries a prefix of a frame stream, the
  two control frames and then data frames, and the data frames of all connections together are
  a subsequence of the frames of the accepted records: none twice, none out of order, none made up.
\<close>

theorem export_safe:
  assumes "tap_reachable L destination s"
  shows "length (wr_ch (xp_writer s)) \<le> 1024
    \<and> xp_accepted s = xp_taken s @ wr_ch (xp_writer s)
    \<and> (\<exists>dss. list_all2 (\<lambda>wire ds. prefix wire (stream ds)) (xp_conns s) dss
         \<and> subseq (concat dss) (frames L (xp_accepted s)))"
proof -
  have inv: "tap_inv L s" using assms by (rule tap_inv_reachable)
  then obtain dss where dss: "subseq (concat dss @ pending (xp_pc s)) (frames L (xp_taken s))"
      "list_all2 (\<lambda>wire ds. prefix wire (stream ds)) (xp_conns s) dss"
    unfolding tap_inv_def by blast
  have "subseq (concat dss) (frames L (xp_taken s))"
    by (rule subseq_order.order_trans [OF prefix_imp_subseq dss(1)]) simp
  then have "subseq (concat dss) (frames L (xp_accepted s))"
    using inv by (auto simp: tap_inv_def intro: subseq_rev_drop_many)
  with dss(2) inv show ?thesis by (auto simp: tap_inv_def channel_capacity_def)
qed

theorem export_safe_witness:
  "length (wr_ch (xp_writer (goto PcReady ((exporter_init ''tap'')\<lparr>xp_conns := [[]]\<rparr>)))) \<le> 1024"
proof -
  have "tap_step plain_lib (exporter_init ''tap'') (goto PcReady ((exporter_init ''tap'')\<lparr>xp_conns := [[]]\<rparr>))"
    using tap_step.dialled [of "exporter_init ''tap''" plain_lib]
    by (simp add: exporter_init_def)
  then have "tap_reachable plain_lib ''tap'' (goto PcReady ((exporter_init ''tap'')\<lparr>xp_conns := [[]]\<rparr>))"
    by (simp add: tap_reachable_def)
  from export_safe [OF this] show ?thesis by blast
qed

lemma frame_nonempty: "frame L r = Inr dt \<Longrightarrow> dt \<noteq> []"
  by (auto simp: frame_def Let_def append_varint_enc append_bytes_enc split: sum.splits)

lemma set_frames: "dt \<in> set (frames L rs) \<Longrightarrow> \<exists>r \<in> set rs. frame L r = Inr dt"
  by (auto simp: frames_def split: sum.splits)

lemma payload_lengths: "length ready_payload = 34" "length start_payload = 34"
  by (simp_all add: ready_payload_def start_payload_def to_bytes_def content_type_def)

text \<open>
  C19: the other end can read the export. Whenever the loop is waiting for records, what arrived on
  the current connection decodes to the two control frames, READY and START with the content type,
  and then one data frame for each of some of the accepted records.
\<close>

theorem export_readable:
  assumes "tap_reachable L destination s" and "xp_pc s = PcRange"
    and "\<And>r dt. r \<in> set (xp_accepted s) \<Longrightarrow> frame L r = Inr dt \<Longrightarrow> length dt < 2 ^ 32"
  shows "\<exists>ds. decode_list fstrm_dec (last (xp_conns s)) =
       Some (FControl ready_payload # FControl start_payload # map FData ds)
     \<and> set ds \<subseteq> set (frames L (xp_accepted s))"
proof -
  have inv: "tap_inv L s" using assms(1) by (rule tap_inv_reachable)
  with assms(2) obtain dss where dss: "subseq (concat dss) (frames L (xp_taken s))"
      "list_all2 (\<lambda>wire ds. prefix wire (stream ds)) (xp_conns s) dss" "xp_conns s \<noteq> []"
      "last (xp_conns s) = stream (last dss)"
    unfolding tap_inv_def by (auto simp: pending_def conn_ok_def)
  from dss(2,3) have "dss \<noteq> []" by auto
  then have "set (last dss) \<subseteq> set (concat dss)" by (auto intro: last_in_set)
  also have "\<dots> \<subseteq> set (frames L (xp_accepted s))"
    using subseq_set [OF dss(1)] inv by (auto simp: tap_inv_def)
  finally have sub: "set (last dss) \<subseteq> set (frames L (xp_accepted s))" .
  then have "list_all fstrm_ok (FControl ready_payload # FControl start_payload # map FData (last dss))"
    using assms(3) by (auto simp: list_all_iff payload_lengths dest: frame_nonempty dest!: set_frames subsetD)
  from fstrm.decode_list_enc [OF this] show ?thesis
    using dss(4) sub by (auto simp only: stream_enc)
qed

text \<open>The loop on a network where every dial and every write succeeds.\<close>

definition run_next :: "dns_lib \<Rightarrow> exporter \<Rightarrow> exporter" where
  "run_next L s =
     (case xp_pc s of
        PcDial \<Rightarrow> goto PcReady (s\<lparr>xp_conns := xp_conns s @ [[]]\<rparr>)
      | PcReady \<Rightarrow> goto PcStart (on_wire control_ready s)
      | PcStart \<Rightarrow> goto PcRange (on_wire control_start s)
      | PcRange \<Rightarrow>
          (case wr_ch (xp_writer s) of
             [] \<Rightarrow> s
           | r # rest \<Rightarrow>
               (let s' = s\<lparr>xp_writer := (xp_writer s)\<lparr>wr_ch := rest\<rparr>, xp_taken := xp_taken s @ [r]\<rparr>
                in case frame L r of Inl err \<Rightarrow> s' | Inr dt \<Rightarrow> goto (PcWrite dt) s'))
      | PcWrite dt \<Rightarrow> goto PcRange (on_wire (data_frame dt) s))"

lemma run_next_step: "tap_step L s (run_next L s) \<or> run_next L s = s"
  by (auto simp: run_next_def Let_def intro: tap_step.intros split: exporter_pc.split list.split sum.split)

lemma run_next_steps: "(tap_step L)\<^sup>*\<^sup>* s ((run_next L ^^ n) s)"
proof (induction n)
  case 0
  then show ?case by simp
next
  case (Suc n)
  then show ?case using run_next_step [of L "(run_next L ^^ n) s"] by (auto intro: rtranclp.rtrancl_into_rtrancl)
qed

lemma run_next_range:
  "\<exists>n \<le> 3. xp_pc ((run_next L ^^ n) s) = PcRange \<and> wr_ch (xp_writer ((run_next L ^^ n) s)) = wr_ch (xp_writer s)"
proof (cases "xp_pc s")
  case PcDial
  then show ?thesis by (intro exI [of _ 3]) (simp add: numeral_3_eq_3 run_next_def)
next
  case PcReady
  then show ?thesis by (intro exI [of _ 2]) (simp add: numeral_2_eq_2 run_next_def)
next
  case PcStart
  then show ?thesis by (intro exI [of _ 1]) (simp add: run_next_def)
next
  case PcRange
  then show ?thesis by (intro exI [of _ 0]) simp
next
  case (PcWrite dt)
  then show ?thesis by (intro exI [of _ 1]) (simp add: run_next_def)
qed

lemma run_next_drain:
  "xp_pc s = PcRange \<Longrightarrow> \<exists>n \<le> 2 * length (wr_ch (xp_writer s)).
     xp_pc ((run_next L ^^ n) s) = PcRange \<and> wr_ch (xp_writer ((run_next L ^^ n) s)) = []
   \<and> last (xp_conns ((run_next L ^^ n) s)) =
       last (xp_conns s) @ concat (map data_frame (frames L (wr_ch (xp_writer s))))"
proof (induction "wr_ch (xp_writer s)" arbitrary: s)
  case Nil
  then show ?case by (intro exI [of _ 0]) (simp add: frames_def)
next
  case (Cons r rest)
  let ?s = "s\<lparr>xp_writer := (xp_writer s)\<lparr>wr_ch := rest\<rparr>, xp_taken := xp_taken s @ [r]\<rparr>"
  show ?case
  proof (cases "frame L r")
    case (Inl err)
    have "run_next L s = ?s" using Cons.prems Cons.hyps(2) [symmetric] Inl by (simp add: run_next_def Let_def)
    moreover obtain n where n: "n \<le> 2 * length rest" "xp_pc ((run_next L ^^ n) ?s) = PcRange"
        "wr_ch (xp_writer ((run_next L ^^ n) ?s)) = []"
        "last (xp_conns ((run_next L ^^ n) ?s)) = last (xp_conns s) @ concat (map data_frame (frames L rest))"
      using Cons.hyps(1) [of ?s] Cons.prems by auto
    moreover have "frames L (r # rest) = frames L rest" using Inl by (simp add: frames_def)
    ultimately show ?thesis
      using Cons.hyps(2) [symmetric] by (intro exI [of _ "Suc n"]) (simp add: funpow_swap1)
  next
    case (Inr dt)
    let ?s2 = "goto PcRange (on_wire (data_frame dt) (goto (PcWrite dt) ?s))"
    have "run_next L (run_next L s) = ?s2"
      using Cons.prems Cons.hyps(2) [symmetric] Inr by (simp add: run_next_def Let_def)
    moreover obtain n where n: "n \<le> 2 * length rest" "xp_pc ((run_next L ^^ n) ?s2) = PcRange"
        "wr_ch (xp_writer ((run_next L ^^ n) ?s2)) = []"
        "last (xp_conns ((run_next L ^^ n) ?s2)) = last (xp_conns ?s2) @ concat (map data_frame (frames L rest))"
      using Cons.hyps(1) [of ?s2] by auto
    moreover have "frames L (r # rest) = dt # frames L rest" using Inr by (simp add: frames_def)
    ultimately show ?thesis
      using Cons.hyps(2) [symmetric] by (intro exI [of _ "Suc (Suc n)"]) (simp add: funpow_swap1)
  qed
qed

text \<open>
  C20: nothing queued is stuck. From any state, on a network that works, the loop empties the queue
  in at most three steps and two for each record, and then the current connection ends with the
  data frames of all the records that were queued, in order.
\<close>

theorem export_drains:
  "\<exists>n \<le> 3 + 2 * length (wr_ch (xp_writer s)).
     (tap_step L)\<^sup>*\<^sup>* s ((run_next L ^^ n) s)
   \<and> wr_ch (xp_writer ((run_next L ^^ n) s)) = []
   \<and> suffix (concat (map data_frame (frames L (wr_ch (xp_writer s))))) (last (xp_conns ((run_next L ^^ n) s)))"
proof -
  obtain n where n: "n \<le> 3" "xp_pc ((run_next L ^^ n) s) = PcRange"
      "wr_ch (xp_writer ((run_next L ^^ n) s)) = wr_ch (xp_writer s)"
    using run_next_range by blast
  obtain m where m: "m \<le> 2 * length (wr_ch (xp_writer s))"
      "wr_ch (xp_writer ((run_next L ^^ m) ((run_next L ^^ n) s))) = []"
      "last (xp_conns ((run_next L ^^ m) ((run_next L ^^ n) s))) =
        last (xp_conns ((run_next L ^^ n) s)) @ concat (map data_frame (frames L (wr_ch (xp_writer s))))"
    using run_next_drain [OF n(2), of L] n(3) by auto
  have "(run_next L ^^ (m + n)) s = (run_next L ^^ m) ((run_next L ^^ n) s)" by (simp add: funpow_add)
  with n(1) m run_next_steps [of L s "m + n"] show ?thesis
    by (intro exI [of _ "m + n"]) (auto simp: suffix_def)
qed

theorem export_readable_witness:
  "\<exists>ds. decode_list fstrm_dec (stream []) = Some (FControl ready_payload # FControl start_payload # map FData ds)"
proof -
  let ?s = "(run_next plain_lib ^^ 3) (exporter_init ''tap'')"
  have eq: "xp_pc ?s = PcRange" "xp_accepted ?s = []" "last (xp_conns ?s) = stream []"
    by (simp_all add: numeral_3_eq_3 run_next_def exporter_init_def stream_Nil)
  have "tap_reachable plain_lib ''tap'' ?s" by (simp add: tap_reachable_def run_next_steps)
  from export_readable [OF this eq(1)] eq show ?thesis by auto
qed

end
