(* ===== verification/Domain_Map.thy ===== *)
theory Domain_Map
  imports Dns_Msg
begin

text \<open>
  \<^verbatim>\<open>internal/dnsserver/domainmap.go\<close>: the overrides of \<^verbatim>\<open>-dns_server_for_domain\<close>, a Go map from
  canonical domain names to server addresses, with its most-specific lookup and its parser.
\<close>

type_synonym domain_map = "(string, string) gomap"

section \<open>Operations\<close>

definition dm_set :: "dns_lib \<Rightarrow> string \<Rightarrow> string \<Rightarrow> domain_map \<Rightarrow> domain_map" where
  "dm_set L domain v m = gm_set (canonical_name L domain) v m"

definition get_exact :: "dns_lib \<Rightarrow> domain_map \<Rightarrow> string \<Rightarrow> string \<times> bool" where
  "get_exact L m domain =
     (case map_of m (canonical_name L domain) of None \<Rightarrow> ([], False) | Some v \<Rightarrow> (v, True))"

text \<open>The body of the loop of \<^verbatim>\<open>GetMostSpecific\<close>, over the variables \<^verbatim>\<open>mc\<close>, \<^verbatim>\<open>mv\<close> and \<^verbatim>\<open>ok\<close>.\<close>

definition gms_step ::
    "dns_lib \<Rightarrow> string \<Rightarrow> string \<times> string \<Rightarrow> nat \<times> string \<times> bool \<Rightarrow> nat \<times> string \<times> bool" where
  "gms_step L domain = (\<lambda>(d, v) (mc, mv, ok).
     if \<not> is_sub_domain L d domain then (mc, mv, ok)
     else (let c = count_label L d in
           if c > mc then (c, v, True) else (mc, mv, ok)))"

definition get_most_specific :: "dns_lib \<Rightarrow> domain_map \<Rightarrow> string \<Rightarrow> string \<times> bool" where
  "get_most_specific L m domain =
     (let domain = canonical_name L domain;
          (mc, mv, ok) = fold (gms_step L domain) m (0, [], False)
      in (mv, ok))"

definition err_invalid_format :: string where
  "err_invalid_format = ''entry does not have a '' @ [CHR 0x27] @ '':'' @ [CHR 0x27]"

fun dm_from_pairs :: "dns_lib \<Rightarrow> string list \<Rightarrow> domain_map \<Rightarrow> string + domain_map" where
  "dm_from_pairs L [] m = Inr m"
| "dm_from_pairs L (pair # rest) m =
     (let pair = trim_space pair in
      if pair = [] then dm_from_pairs L rest m
      else (case split2 (CHR '':'') pair of
              [a, b] \<Rightarrow> dm_from_pairs L rest (dm_set L (trim_space a) (trim_space b) m)
            | _ \<Rightarrow> Inl (quote pair @ '': '' @ err_invalid_format)))"

definition domain_map_from_string :: "dns_lib \<Rightarrow> string \<Rightarrow> string + domain_map" where
  "domain_map_from_string L s = dm_from_pairs L (split_char (CHR '','') s) []"

section \<open>The invariant of a map built by Set\<close>

definition dm_wf :: "dns_lib \<Rightarrow> domain_map \<Rightarrow> bool" where
  "dm_wf L m \<longleftrightarrow> gm_wf m \<and> (\<forall>d \<in> fst ` set m. canonical_name L d = d)"

lemma dm_wf_Nil [simp]: "dm_wf L []"
  by (simp add: dm_wf_def)

lemma dm_wf_set [inv_intros]:
  "names_documented L labels \<Longrightarrow> dm_wf L m \<Longrightarrow> dm_wf L (dm_set L d v m)"
  by (auto simp: dm_wf_def dm_set_def gm_wf_set dom_update canonical_idem)

lemma dm_wf_from_pairs:
  "names_documented L labels \<Longrightarrow> dm_wf L m \<Longrightarrow> dm_from_pairs L ps m = Inr m' \<Longrightarrow> dm_wf L m'"
  by (induction L ps m rule: dm_from_pairs.induct)
    (auto simp: Let_def dm_wf_set split: if_splits list.splits)

lemma dm_wf_from_string [inv_intros]:
  "names_documented L labels \<Longrightarrow> domain_map_from_string L s = Inr m \<Longrightarrow> dm_wf L m"
  unfolding domain_map_from_string_def by (rule dm_wf_from_pairs) simp_all

lemma dm_wf_same: "gm_same m m' \<Longrightarrow> dm_wf L m \<Longrightarrow> dm_wf L m'"
  unfolding dm_wf_def using gm_same_wf gm_same_set by metis

section \<open>The most specific entry\<close>

text \<open>
  The specification: the entries whose labels end the labels of the domain, the root entry (no
  labels) excepted, and among them the one with the most labels.
\<close>

definition matches :: "(string \<Rightarrow> string list) \<Rightarrow> string \<Rightarrow> string \<Rightarrow> bool" where
  "matches labels domain d \<longleftrightarrow> labels d \<noteq> [] \<and> suffix (labels d) (labels domain)"

definition most_specific ::
    "(string \<Rightarrow> string list) \<Rightarrow> domain_map \<Rightarrow> string \<Rightarrow> string \<Rightarrow> bool" where
  "most_specific labels m domain d \<longleftrightarrow>
     d \<in> fst ` set m \<and> matches labels domain d \<and>
     (\<forall>d' \<in> fst ` set m. matches labels domain d' \<longrightarrow> length (labels d') \<le> length (labels d))"

text \<open>Two matching entries with equally many labels are the same entry.\<close>

lemma matches_unique:
  assumes "names_documented L labels" and "matches labels domain d" and "matches labels domain d'"
    and "canonical_name L d = d" and "canonical_name L d' = d'"
    and "length (labels d) = length (labels d')"
  shows "d = d'"
proof -
  have "labels d = labels d'"
    using assms(2,3,6) by (auto simp: matches_def suffix_def)
  then show ?thesis
    using labels_canonical_inj [OF assms(1), of d d'] assms(4,5) by simp
qed

text \<open>What the loop variables hold after any prefix of the iteration.\<close>

definition loop_inv ::
    "(string \<Rightarrow> string list) \<Rightarrow> string \<Rightarrow> domain_map \<Rightarrow> nat \<times> string \<times> bool \<Rightarrow> bool" where
  "loop_inv labels domain m = (\<lambda>(mc, mv, ok).
     if ok then (\<exists>d. (d, mv) \<in> set m \<and> most_specific labels m domain d \<and> mc = length (labels d))
     else mc = 0 \<and> mv = [] \<and> (\<forall>d \<in> fst ` set m. \<not> matches labels domain d))"

lemma loop_inv_step:
  assumes lib: "names_documented L labels" and d: "canonical_name L d = d"
    and inv: "loop_inv labels (canonical_name L x) m s"
  shows "loop_inv labels (canonical_name L x) (m @ [(d, v)]) (gms_step L (canonical_name L x) (d, v) s)"
proof -
  obtain mc mv ok where s: "s = (mc, mv, ok)" by (cases s)
  have sub: "is_sub_domain L d (canonical_name L x) \<longleftrightarrow>
      suffix (labels d) (labels (canonical_name L x))"
    using is_sub_domain_labels [OF lib, of d x] d by simp
  note cl = count_label_labels [OF lib]
  show ?thesis
  proof (cases "matches labels (canonical_name L x) d \<and> mc < length (labels d)")
    case True
    then have step: "gms_step L (canonical_name L x) (d, v) s = (length (labels d), v, True)"
      by (simp add: gms_step_def s sub cl matches_def)
    have "most_specific labels (m @ [(d, v)]) (canonical_name L x) d"
      using True inv by (auto simp: most_specific_def loop_inv_def s split: if_splits)
    then show ?thesis unfolding step by (auto simp: loop_inv_def)
  next
    case False
    then have step: "gms_step L (canonical_name L x) (d, v) s = s"
      by (auto simp: gms_step_def s sub cl matches_def Let_def)
    show ?thesis
      using False inv unfolding step
      by (auto simp: loop_inv_def most_specific_def matches_def s split: if_splits)
  qed
qed

lemma loop_inv_fold:
  assumes lib: "names_documented L labels" and keys: "\<forall>d \<in> fst ` set m. canonical_name L d = d"
  shows "loop_inv labels (canonical_name L x) m
    (fold (gms_step L (canonical_name L x)) m (0, [], False))"
  using keys
proof (induction m rule: rev_induct)
  case Nil
  then show ?case by (simp add: loop_inv_def)
next
  case (snoc kv m)
  then show ?case
    using loop_inv_step [OF lib, of "fst kv" x m _ "snd kv"] by (cases kv) simp
qed

lemma get_most_specific_spec:
  assumes lib: "names_documented L labels" and wf: "dm_wf L m"
  obtains (found) d v where "get_most_specific L m x = (v, True)" "map_of m d = Some v"
      "most_specific labels m (canonical_name L x) d"
  | (none) "get_most_specific L m x = ([], False)"
      "\<forall>d \<in> fst ` set m. \<not> matches labels (canonical_name L x) d"
proof -
  obtain mc mv ok where r: "fold (gms_step L (canonical_name L x)) m (0, [], False) = (mc, mv, ok)"
    by (cases "fold (gms_step L (canonical_name L x)) m (0, [], False)")
  have inv: "loop_inv labels (canonical_name L x) m (mc, mv, ok)"
    using loop_inv_fold [OF lib, of m x] wf unfolding r dm_wf_def by blast
  have g: "get_most_specific L m x = (mv, ok)"
    by (simp add: get_most_specific_def r)
  show thesis
  proof (cases ok)
    case True
    with inv obtain d where "(d, mv) \<in> set m" "most_specific labels m (canonical_name L x) d"
      by (auto simp: loop_inv_def)
    with True g wf show thesis by (intro found [of mv d]) (auto simp: dm_wf_def gm_wf_set_iff)
  next
    case False
    with inv g show thesis by (intro none) (auto simp: loop_inv_def)
  qed
qed

lemma most_specific_unique:
  assumes "names_documented L labels" "dm_wf L m"
    and "most_specific labels m (canonical_name L x) d" "most_specific labels m (canonical_name L x) d'"
  shows "d = d'"
proof (rule matches_unique [OF assms(1)])
  show "length (labels d) = length (labels d')"
    using assms(3,4) unfolding most_specific_def by (metis le_antisym)
  show "matches labels (canonical_name L x) d" "matches labels (canonical_name L x) d'"
    using assms(3,4) by (simp_all add: most_specific_def)
  show "canonical_name L d = d" "canonical_name L d' = d'"
    using assms(2-4) unfolding most_specific_def dm_wf_def by blast+
qed

lemma get_most_specific_iff:
  assumes "names_documented L labels" and "dm_wf L m"
  shows "(get_most_specific L m x = (v, True) \<longleftrightarrow>
      (\<exists>d. map_of m d = Some v \<and> most_specific labels m (canonical_name L x) d)) \<and>
    (get_most_specific L m x = (v, False) \<longleftrightarrow>
      v = [] \<and> (\<forall>d \<in> dom (map_of m). \<not> matches labels (canonical_name L x) d))"
proof (rule get_most_specific_spec [OF assms, of x], goal_cases)
  case (1 d v')
  have "d' = d" if "most_specific labels m (canonical_name L x) d'" for d'
    using most_specific_unique [OF assms that 1(3)] .
  with 1(2,3) have "(\<exists>d. map_of m d = Some v \<and> most_specific labels m (canonical_name L x) d) \<longleftrightarrow>
      v' = v" by (metis option.inject)
  moreover have "\<exists>d \<in> dom (map_of m). matches labels (canonical_name L x) d"
    using 1(2,3) unfolding most_specific_def by blast
  ultimately show ?case unfolding 1(1) by blast
next
  case 2
  then have "\<forall>d \<in> dom (map_of m). \<not> matches labels (canonical_name L x) d"
    by (simp add: dom_map_of_conv_image_fst)
  moreover from this have "\<not> (\<exists>d. map_of m d = Some v \<and> most_specific labels m (canonical_name L x) d)"
    unfolding most_specific_def by blast
  ultimately show ?case unfolding 2(1) by blast
qed

text \<open>
  C32: the lookup finds exactly the entry of the longest matching suffix. When an entry other than
  the root matches, the result is the value of the one with the most labels; when none does, the
  result is the empty string and false.
\<close>

theorem get_most_specific_correct:
  assumes "names_documented L labels" and "dm_wf L m"
  shows "(get_most_specific L m x = (v, True) \<longleftrightarrow>
      (\<exists>d. map_of m d = Some v \<and> most_specific labels m (canonical_name L x) d)) \<and>
    (get_most_specific L m x = (v, False) \<longleftrightarrow>
      v = [] \<and> (\<forall>d \<in> dom (map_of m). \<not> matches labels (canonical_name L x) d))"
  by (rule get_most_specific_iff [OF assms])

lemma dm_wf_plain:
  "dm_wf plain_lib [(''a.com.'', ''1''), (''x.a.com.'', ''2'')]"
  by (simp add: dm_wf_def gm_wf_def plain_lib_def plain_canonical_def text_eval)

theorem get_most_specific_correct_witness:
  "get_most_specific plain_lib [(''a.com.'', ''1''), (''x.a.com.'', ''2'')] ''z.X.a.com'' = (''2'', True)"
proof -
  let ?m = "[(''a.com.'', ''1''), (''x.a.com.'', ''2'')] :: domain_map"
  have c: "canonical_name plain_lib ''z.X.a.com'' = ''z.x.a.com.''"
    by (simp add: plain_lib_def plain_canonical_def text_eval)
  have l: "plain_labels ''z.x.a.com.'' = [''z'', ''x'', ''a'', ''com'']"
    "plain_labels ''x.a.com.'' = [''x'', ''a'', ''com'']" "plain_labels ''a.com.'' = [''a'', ''com'']"
    by (simp_all add: plain_labels_def has_suffix_def)
  have "suffix [''x'', ''a'', ''com''] [''z'', ''x'', ''a'', ''com'']"
    by (rule suffix_ConsI) simp
  then have "most_specific plain_labels ?m (canonical_name plain_lib ''z.X.a.com'') ''x.a.com.''"
    by (simp add: most_specific_def matches_def c l)
  then show ?thesis
    using get_most_specific_correct [OF plain_names_documented dm_wf_plain, of "''z.X.a.com''" "''2''"]
    by fastforce
qed

text \<open>
  Which override is used does not depend on the order in which Go iterates over the map, so the
  lookup is deterministic although map iteration is not.
\<close>

lemma get_most_specific_order:
  assumes "names_documented L labels" and "dm_wf L m" and "gm_same m m'"
  shows "get_most_specific L m x = get_most_specific L m' x"
proof -
  have wf: "dm_wf L m'" using assms(2,3) by (rule dm_wf_same [rotated])
  have mo: "map_of m = map_of m'"
    using assms(2,3) gm_same_map_of by (auto simp: dm_wf_def)
  have ms: "most_specific labels m y d = most_specific labels m' y d" for y d
    using gm_same_set [OF assms(3)] by (simp add: most_specific_def)
  obtain v ok where r: "get_most_specific L m x = (v, ok)" by (cases "get_most_specific L m x")
  with get_most_specific_iff [OF assms(1,2), of x v]
    get_most_specific_iff [OF assms(1) wf, of x v]
  show ?thesis by (cases ok) (simp_all add: mo ms)
qed

text \<open>
  C39: An override for the root domain is never used. The loop keeps an entry only when it has more
  labels than the best so far, which starts at 0, so the entry of a name with no labels changes
  no lookup.
\<close>

theorem root_override_ignored:
  assumes "names_documented L labels" and "labels d = []"
  shows "get_most_specific L (m @ (d, v) # m') x = get_most_specific L (m @ m') x"
proof -
  have "gms_step L (canonical_name L x) (d, v) s = s" for s
    using assms by (cases s) (simp add: gms_step_def count_label_labels)
  then show ?thesis by (simp add: get_most_specific_def)
qed

theorem root_override_ignored_witness:
  "get_most_specific plain_lib [(''a.'', ''1''), (''.'', ''2'')] ''b.''
     = get_most_specific plain_lib [(''a.'', ''1'')] ''b.''"
proof -
  have "plain_labels ''.'' = []" by (simp add: plain_labels_def Let_def text_eval has_suffix_def)
  from root_override_ignored [OF plain_names_documented this, of "[(''a.'', ''1'')]" "''2''" "[]" "''b.''"]
  show ?thesis by simp
qed

section \<open>Parsing the flag\<close>

text \<open>A flag value in the documented form, rendered from its pairs.\<close>

definition render_pair :: "string \<times> string \<Rightarrow> string" where
  "render_pair p = fst p @ '':'' @ snd p"

definition plain_pair :: "string \<times> string \<Rightarrow> bool" where
  "plain_pair p \<longleftrightarrow> trimmed (fst p) \<and> trimmed (snd p) \<and> CHR '':'' \<notin> set (fst p)
     \<and> CHR '','' \<notin> set (fst p) \<and> CHR '','' \<notin> set (snd p)"

lemma trimmed_render_pair: "plain_pair p \<Longrightarrow> trimmed (render_pair p)"
  by (cases "fst p"; cases "snd p" rule: rev_cases)
    (auto simp: plain_pair_def render_pair_def trimmed_def is_space_def)

lemma dm_from_rendered:
  "\<forall>p \<in> set ps. plain_pair p \<Longrightarrow>
     dm_from_pairs L (map render_pair ps) m = Inr (fold (\<lambda>(d, v). dm_set L d v) ps m)"
proof (induction ps arbitrary: m)
  case Nil
  then show ?case by simp
next
  case (Cons p ps)
  then have p: "plain_pair p" by simp
  have "split2 (CHR '':'') (render_pair p) = [fst p, snd p]"
    using p split2_append [of "CHR '':''" "fst p" "snd p"] by (simp add: plain_pair_def render_pair_def)
  moreover have "trim_space (render_pair p) = render_pair p" "render_pair p \<noteq> []"
    using trim_space_trimmed [OF trimmed_render_pair [OF p]] by (simp_all add: render_pair_def)
  ultimately show ?case
    using Cons p by (cases p) (simp add: plain_pair_def trim_space_trimmed)
qed

text \<open>
  C38: a flag value rendered as "domain1:addr1,domain2:addr2,..." parses to the map that sets each
  domain to its address in that order, so a later pair for the same domain wins.
\<close>

theorem domain_map_from_string_roundtrip:
  assumes "\<forall>p \<in> set ps. plain_pair p"
  shows "domain_map_from_string L (join '','' (map render_pair ps)) =
     Inr (fold (\<lambda>(d, v). dm_set L d v) ps [])"
proof (cases "ps = []")
  case True
  then show ?thesis by (simp add: domain_map_from_string_def join_def)
next
  case False
  have "\<forall>s \<in> set (map render_pair ps). CHR '','' \<notin> set s"
    using assms by (auto simp: plain_pair_def render_pair_def)
  with False have "split_char (CHR '','') (join '','' (map render_pair ps)) = map render_pair ps"
    by (intro split_char_join) simp_all
  with assms show ?thesis
    by (simp add: domain_map_from_string_def dm_from_rendered)
qed

theorem domain_map_from_string_roundtrip_witness:
  "domain_map_from_string plain_lib ''d1:1.1.1.1:1111,d2:''
     = Inr [(''d1.'', ''1.1.1.1:1111''), (''d2.'', [])]"
  using domain_map_from_string_roundtrip [of "[(''d1'', ''1.1.1.1:1111''), (''d2'', [])]" plain_lib]
  by (simp add: plain_pair_def trimmed_def render_pair_def dm_set_def plain_lib_def
      plain_canonical_def text_eval)

text \<open>
  The parser refuses a value exactly when some part between commas is not blank and has no
  colon.
\<close>

lemma domain_map_from_string_error:
  "(\<exists>e. domain_map_from_string L s = Inl e) \<longleftrightarrow>
     (\<exists>part. part \<in> set (split_char (CHR '','') s) \<and> trim_space part \<noteq> []
        \<and> CHR '':'' \<notin> set (trim_space part))"
proof -
  have "(\<exists>e. dm_from_pairs L ps m = Inl e) \<longleftrightarrow>
     (\<exists>part \<in> set ps. trim_space part \<noteq> [] \<and> CHR '':'' \<notin> set (trim_space part))" for ps m
    by (induction L ps m rule: dm_from_pairs.induct) (auto simp: Let_def split2_def)
  then show ?thesis unfolding domain_map_from_string_def by blast
qed

end
