(* ===== verification/Dns_Server.thy ===== *)
theory Dns_Server
  imports Resolver Domain_Map Dnstap_Writer
begin

text \<open>
  \<^verbatim>\<open>internal/dnsserver/server.go\<close>: the handler of the DNS queries, over any resolver. What the
  handler gets from outside during one query is the \<open>request_env\<close>: the addresses of the connection,
  the clock, the next random id, the result of \<^verbatim>\<open>dns.Exchange\<close>, and whether writing the reply works.
  The state is that of the resolver, the shared \<open>world\<close>, the dnstap writer, and the replies written.
\<close>

section \<open>Random ids\<close>

text \<open>
  The goroutine of \<^verbatim>\<open>init\<close>: it reads two random bytes, where an error is a panic (\<open>None\<close>), and sends the
  id to a channel with room for 100, from which the handlers receive. Each is a step that changes nothing
  while it has to wait.
\<close>

record id_source =
  id_chan :: "u16 list"
  id_pending :: "u16 option"
  id_received :: "u16 list"

datatype id_event =
    IdRead "string + u8 \<times> u8"
  | IdSend
  | IdReceive

definition id_little_endian :: "u8 \<times> u8 \<Rightarrow> u16" where
  "id_little_endian bs = ucast (fst bs) + 256 * ucast (snd bs)"

definition new_id_source :: id_source where
  "new_id_source = \<lparr>id_chan = [], id_pending = None, id_received = []\<rparr>"

fun id_step :: "id_event \<Rightarrow> id_source \<Rightarrow> id_source option" where
  "id_step (IdRead rnd) s =
     (if id_pending s \<noteq> None then Some s
      else case rnd of Inl err \<Rightarrow> None | Inr bs \<Rightarrow> Some (s\<lparr>id_pending := Some (id_little_endian bs)\<rparr>))"
| "id_step IdSend s =
     (case id_pending s of
        None \<Rightarrow> Some s
      | Some i \<Rightarrow> if length (id_chan s) < 100 then Some (s\<lparr>id_chan := id_chan s @ [i], id_pending := None\<rparr>) else Some s)"
| "id_step IdReceive s =
     (case id_chan s of
        [] \<Rightarrow> Some s
      | i # rest \<Rightarrow> Some (s\<lparr>id_chan := rest, id_received := id_received s @ [i]\<rparr>))"

text \<open>No id is lost, handed out twice or out of order, and at most a hundred wait.\<close>

definition ids_in_order :: "id_source \<Rightarrow> u16 list" where
  "ids_in_order s = id_received s @ id_chan s @ (case id_pending s of None \<Rightarrow> [] | Some i \<Rightarrow> [i])"

lemma id_step_order:
  "id_step e s = Some s' \<Longrightarrow>
     ids_in_order s' = ids_in_order s \<or> (\<exists>bs. e = IdRead (Inr bs) \<and> ids_in_order s' = ids_in_order s @ [id_little_endian bs])"
  by (cases e) (auto simp: ids_in_order_def split: if_splits sum.splits option.splits list.splits)

lemma id_step_bound: "id_step e s = Some s' \<Longrightarrow> length (id_chan s) \<le> 100 \<Longrightarrow> length (id_chan s') \<le> 100"
  by (cases e) (auto split: if_splits sum.splits option.splits list.splits)

section \<open>State\<close>

record request_env =
  re_local :: net_addr
  re_remote :: net_addr
  re_query_time :: instant
  re_response_time :: instant
  re_new_id :: u16
  re_exchange :: "msg \<Rightarrow> string \<Rightarrow> string + msg"
  re_write_ok :: "msg \<Rightarrow> bool"

record dns_server =
  ds_unq_upstream :: string
  ds_server_overrides :: domain_map

record 's dns_state =
  dn_resolver :: 's
  dn_world :: world
  dn_tap :: "writer option"
  dn_written :: "msg list"

definition on_world :: "(world \<Rightarrow> world) \<Rightarrow> 's dns_state \<Rightarrow> 's dns_state" where
  "on_world f st = st\<lparr>dn_world := f (dn_world st)\<rparr>"

abbreviation st_inc :: "string \<Rightarrow> 's dns_state \<Rightarrow> 's dns_state" where
  "st_inc name \<equiv> on_world (inc name)"

abbreviation st_printf :: "string \<Rightarrow> 's dns_state \<Rightarrow> 's dns_state" where
  "st_printf s \<equiv> on_world (trace_printf s)"

section \<open>Replies\<close>

text \<open>\<^verbatim>\<open>WriteMsg\<close>: the state, and whether it worked; \<^verbatim>\<open>dns.HandleFailed\<close> writes a failure.\<close>

definition write_msg :: "request_env \<Rightarrow> msg \<Rightarrow> 's dns_state \<Rightarrow> bool \<times> 's dns_state" where
  "write_msg E m st = (re_write_ok E m, st\<lparr>dn_written := dn_written st @ [m]\<rparr>)"

definition handle_failed :: "dns_lib \<Rightarrow> request_env \<Rightarrow> msg \<Rightarrow> 's dns_state \<Rightarrow> 's dns_state" where
  "handle_failed L E r st = snd (write_msg E (set_rcode L r rcode_server_failure) st)"

definition udp_max :: "dns_lib \<Rightarrow> msg \<Rightarrow> int" where
  "udp_max L r = (case edns_udp_size L r of None \<Rightarrow> 512 | Some sz \<Rightarrow> uint sz)"

definition write_reply :: "dns_lib \<Rightarrow> request_env \<Rightarrow> msg \<Rightarrow> msg \<Rightarrow> 's dns_state \<Rightarrow> 's dns_state" where
  "write_reply L E r reply st =
     (let st = (if dn_tap st \<noteq> None
                then st\<lparr>dn_tap := capture \<lparr>tr_query = r, tr_response = reply, tr_local = re_local E,
                       tr_remote = re_remote E, tr_transport = addr_network (re_remote E),
                       tr_qt = re_query_time E, tr_rt = re_response_time E\<rparr> (dn_tap st)\<rparr>
                else st);
          st = st_inc (''dnsserver_replies_rcode_'' @ show_int (m_rcode reply)) st;
          (reply, st) =
            (if addr_network (re_remote E) = ''udp'' then
               (let max = udp_max L r;
                    reply = truncate_msg L max reply;
                    st = st_printf (''UDP max:'' @ show_int max @ '' truncated:''
                           @ (if m_truncated reply then ''true'' else ''false'')) st;
                    st = (if m_truncated reply then st_inc ''dnsserver_replies_truncated'' st else st)
                in (reply, st))
             else (reply, st));
          (ok, st) = write_msg E reply st
      in if \<not> ok then st_inc ''dnsserver_errors_write_reply'' st else st)"

section \<open>The handler\<close>

text \<open>The paths of \<^verbatim>\<open>Handler\<close> after the counting, each to its return.\<close>

definition forward :: "dns_lib \<Rightarrow> nat \<Rightarrow> request_env \<Rightarrow> string \<Rightarrow> string list \<Rightarrow> string \<Rightarrow> string
    \<Rightarrow> msg \<Rightarrow> 's dns_state \<Rightarrow> 's dns_state" where
  "forward L v E server notes complaint error_counter r st =
     (case re_exchange E r server of
        Inr u \<Rightarrow>
          (let st = fold st_printf notes st;
               st = on_world (trace_answer L v u) st
           in write_reply L E r u st)
      | Inl err \<Rightarrow>
          (let st = st_printf (complaint @ err) st;
               st = st_inc error_counter st;
               st = st_inc ''dnsserver_replies_rcode_2'' st
           in handle_failed L E r st))"

definition ask_resolver :: "dns_lib \<Rightarrow> nat \<Rightarrow> 's query_fn \<Rightarrow> request_env \<Rightarrow> msg \<Rightarrow> 's dns_state \<Rightarrow> 's dns_state option" where
  "ask_resolver L v query E r st =
     (let oldid = m_id r;
          r = r\<lparr>m_id := re_new_id E\<rparr>;
          st = st_inc ''dnsserver_queries_resolver'' st
      in do {
        (res, s, w) \<leftarrow> query r (dn_resolver st) (dn_world st);
        let st = st\<lparr>dn_resolver := s, dn_world := w\<rparr>;
        Some (case res of
          Inl err \<Rightarrow>
            (let st = on_world (trace_error err) st;
                 st = st_inc ''dnsserver_errors_resolver'' st;
                 r = r\<lparr>m_id := oldid\<rparr>;
                 st = st_inc ''dnsserver_replies_rcode_2'' st
             in handle_failed L E r st)
        | Inr fromUp \<Rightarrow>
            (let st = on_world (trace_answer L v fromUp) st;
                 fromUp = fromUp\<lparr>m_id := oldid\<rparr>
             in write_reply L E r fromUp st))
      })"

definition receive :: "dns_lib \<Rightarrow> nat \<Rightarrow> request_env \<Rightarrow> msg \<Rightarrow> 's dns_state \<Rightarrow> 's dns_state" where
  "receive L v E r st =
     (let st = st_inc ''dnsserver_queries_total'' st;
          st = st_inc (''dnsserver_queries_transport_'' @ addr_network (re_remote E)) st;
          st = on_world (trace_new ''dnsserver.Handler''
                 (addr_network (re_remote E) @ '' '' @ addr_string (re_remote E))) st;
          st = st_printf (''id:'' @ show_nat (unat (m_id r))) st
      in on_world (trace_question L v (m_question r)) st)"

definition count_question :: "question \<Rightarrow> 's dns_state \<Rightarrow> 's dns_state" where
  "count_question q st =
     (let st = on_world (record_domain (q_name q)) st;
          st = st_inc (''dnsserver_queries_qtype_'' @ show_nat (unat (q_type q))) st
      in st_inc (''dnsserver_queries_qclass_'' @ show_nat (unat (q_class q))) st)"

definition handler :: "dns_lib \<Rightarrow> nat \<Rightarrow> dns_server \<Rightarrow> 's query_fn \<Rightarrow> request_env \<Rightarrow> msg
    \<Rightarrow> 's dns_state \<Rightarrow> 's dns_state option" where
  "handler L v srv query E r st =
     (let st = receive L v E r st
      in map_option (on_world trace_finish)
        (if length (m_question r) \<noteq> 1 then
           (let st = st_printf ''len(Q) != 1, failing'' st;
                st = st_inc ''dnsserver_queries_invalid_question_count'' st;
                st = st_inc ''dnsserver_replies_rcode_2'' st
            in Some (handle_failed L E r st))
         else
           (let q = hd (m_question r);
                st = count_question q st;
                (override, ok) = get_most_specific L (ds_server_overrides srv) (q_name q)
            in if ok then
                 (let st = st_inc ''dnsserver_queries_override'' st;
                      st = st_printf (''override found: '' @ quote override) st
                  in Some (forward L v E override [] ''override server returned error: ''
                       ''dnsserver_errors_override'' r st))
               else if ds_unq_upstream srv \<noteq> [] \<and> count_label L (q_name q) \<le> 1 then
                 (let st = st_inc ''dnsserver_queries_unqualified_upstream'' st
                  in Some (forward L v E (ds_unq_upstream srv) [''used unqualified upstream'']
                       ''unqualified upstream error: '' ''dnsserver_errors_unqualified_upstream'' r st))
               else ask_resolver L v query E r st)))"

section \<open>The server\<close>

text \<open>
  What happens to a serving process: a query, a step of the maintenance of the resolver, or a
  \<open>None\<close> for a panic. \<^verbatim>\<open>ListenAndServe\<close> serves only once \<^verbatim>\<open>Init\<close> has succeeded.
\<close>

datatype 'e server_event =
    SrvQuery request_env msg
  | SrvTick 'e

fun server_step :: "dns_lib \<Rightarrow> nat \<Rightarrow> dns_server \<Rightarrow> 's query_fn \<Rightarrow> ('s, 'e) tick_fn \<Rightarrow> 'e server_event
    \<Rightarrow> 's dns_state \<Rightarrow> 's dns_state option" where
  "server_step L v srv query tick (SrvQuery E r) st = handler L v srv query E r st"
| "server_step L v srv query tick (SrvTick e) st =
     map_option (\<lambda>(s, w). st\<lparr>dn_resolver := s, dn_world := w\<rparr>) (tick e (dn_resolver st) (dn_world st))"

fun server_run :: "dns_lib \<Rightarrow> nat \<Rightarrow> dns_server \<Rightarrow> 's query_fn \<Rightarrow> ('s, 'e) tick_fn \<Rightarrow> 'e server_event list
    \<Rightarrow> 's dns_state \<Rightarrow> 's dns_state option" where
  "server_run L v srv query tick [] st = Some st"
| "server_run L v srv query tick (e # es) st =
     (case server_step L v srv query tick e st of
        None \<Rightarrow> None
      | Some st' \<Rightarrow> server_run L v srv query tick es st')"

end
