(* ===== verification/Go_Mime.thy ===== *)
theory Go_Mime
  imports Go_Format
begin

text \<open>
  \<^verbatim>\<open>mime.ParseMediaType\<close>, as far as the program uses it: the media type, or the error. The
  parameters are parsed, since a malformed one is an error, but their values are only compared.
\<close>

definition is_tspecial :: "char \<Rightarrow> bool" where
  "is_tspecial c \<longleftrightarrow> c \<in> set (''()<>@,;:/[]?='' @ [CHR 0x22, CHR 0x5C])"

definition is_token_char :: "char \<Rightarrow> bool" where
  "is_token_char c \<longleftrightarrow> 32 < (of_char c :: nat) \<and> (of_char c :: nat) < 127 \<and> \<not> is_tspecial c"

definition consume_token :: "string \<Rightarrow> string \<times> string" where
  "consume_token v = (takeWhile is_token_char v, dropWhile is_token_char v)"

definition check_media_type :: "string \<Rightarrow> string option" where
  "check_media_type s =
     (let (typ, rest) = consume_token s in
      if typ = [] then Some ''mime: no media type''
      else if rest = [] then None
      else if \<not> has_prefix rest ''/'' then Some ''mime: expected slash after first token''
      else (let (subtype, rest) = consume_token (drop 1 rest) in
            if subtype = [] then Some ''mime: expected token after slash''
            else if rest \<noteq> [] then Some ''mime: unexpected content after media subtype''
            else None))"

text \<open>The quoted string after its opening quote; \<open>None\<close> when it does not end.\<close>

fun consume_quoted :: "string \<Rightarrow> (string \<times> string) option" where
  "consume_quoted [] = None"
| "consume_quoted (r # v) =
     (if r = CHR 0x22 then Some ([], v)
      else if r = CHR 0x5C \<and> v \<noteq> [] \<and> is_tspecial (hd v)
        then map_option (\<lambda>(b, rest). (hd v # b, rest)) (consume_quoted (tl v))
      else if r = CHR 0x0D \<or> r = CHR 0x0A then None
      else map_option (\<lambda>(b, rest). (r # b, rest)) (consume_quoted v))"

definition consume_value :: "string \<Rightarrow> string \<times> string" where
  "consume_value v =
     (if v = [] then ([], [])
      else if hd v \<noteq> CHR 0x22 then consume_token v
      else (case consume_quoted (tl v) of None \<Rightarrow> ([], v) | Some r \<Rightarrow> r))"

text \<open>One parameter; \<open>None\<close> when there is none to be had.\<close>

definition consume_media_param :: "string \<Rightarrow> (string \<times> string \<times> string) option" where
  "consume_media_param v =
     (let rest = trim_left v in
      if \<not> has_prefix rest '';'' then None
      else (let (param, rest) = consume_token (trim_left (drop 1 rest));
                param = to_lower param;
                rest = trim_left rest
            in if param = [] \<or> \<not> has_prefix rest ''='' then None
               else (let rest = trim_left (drop 1 rest); (value, rest2) = consume_value rest in
                     if value = [] \<and> rest2 = rest then None else Some (param, value, rest2))))"

lemma length_trim_left: "length (trim_left v) \<le> length v"
  by (simp add: trim_left_def length_dropWhile_le)

lemma length_consume_token: "length (snd (consume_token v)) \<le> length v"
  by (simp add: consume_token_def length_dropWhile_le)

lemma length_consume_quoted: "consume_quoted v = Some (b, rest) \<Longrightarrow> length rest < length v"
proof (induction v arbitrary: b rest rule: consume_quoted.induct)
  case 1
  then show ?case by simp
next
  case (2 r v)
  show ?case
  proof (cases "r = CHR 0x5C \<and> v \<noteq> [] \<and> is_tspecial (hd v)")
    case True
    with 2 show ?thesis by (cases v) (fastforce split: if_splits)+
  next
    case False
    with 2 show ?thesis by (fastforce split: if_splits)
  qed
qed

lemma length_consume_value: "length (snd (consume_value v)) \<le> length v"
proof (cases "consume_quoted (tl v)")
  case None
  then show ?thesis by (simp add: consume_value_def length_consume_token)
next
  case (Some r)
  then have "length (snd r) \<le> length v"
    using length_consume_quoted [of "tl v" "fst r" "snd r"] by (cases v) simp_all
  with Some show ?thesis by (simp add: consume_value_def length_consume_token)
qed

lemma length_consume_media_param:
  assumes "consume_media_param v = Some (p, x, rest)"
  shows "length rest < length v"
proof -
  define r1 where "r1 = trim_left v"
  define r2 where "r2 = snd (consume_token (trim_left (drop 1 r1)))"
  define r3 where "r3 = trim_left (drop 1 (trim_left r2))"
  have sc: "has_prefix r1 '';''" and rest: "rest = snd (consume_value r3)"
    using assms by (auto simp: consume_media_param_def Let_def r1_def r2_def r3_def case_prod_beta
        split: if_splits)
  have "r1 \<noteq> []" using sc by (auto simp: has_prefix_def)
  have "length rest \<le> length r3" by (simp add: rest length_consume_value)
  also have "\<dots> \<le> length r2"
    using length_trim_left [of r2] length_trim_left [of "drop 1 (trim_left r2)"] by (simp add: r3_def)
  also have "\<dots> \<le> length (drop 1 r1)"
    using length_consume_token [of "trim_left (drop 1 r1)"] length_trim_left [of "drop 1 r1"]
    by (simp add: r2_def)
  also have "\<dots> < length r1" using \<open>r1 \<noteq> []\<close> by simp
  also have "\<dots> \<le> length v" by (simp add: r1_def length_trim_left)
  finally show ?thesis .
qed

text \<open>
  The loop over the parameters. A parameter may come twice with the same value; the parts of a
  parameter that is split by \<open>*\<close> are kept apart by their whole name, as here.
\<close>

function media_params :: "string \<Rightarrow> (string \<times> string) list \<Rightarrow> string option" where
  "media_params v ps =
     (if v = [] \<or> trim_left v = [] then None
      else (case consume_media_param (trim_left v) of
              None \<Rightarrow>
                (if trim_space v = '';'' then None else Some ''mime: invalid media parameter'')
            | Some (key, val, rest) \<Rightarrow>
                (case map_of ps key of
                   Some val' \<Rightarrow> if val' \<noteq> val then Some ''mime: duplicate parameter name''
                                else media_params rest ps
                 | None \<Rightarrow> media_params rest ((key, val) # ps))))"
  by pat_completeness auto
termination
  by (relation "measure (\<lambda>(v, ps). length v)")
    (auto dest!: length_consume_media_param intro: less_le_trans [OF _ length_trim_left])

declare media_params.simps [simp del]

definition parse_media_type :: "string \<Rightarrow> string + string" where
  "parse_media_type v =
     (let base = takeWhile (\<lambda>c. c \<noteq> CHR '';'') v;
          mediatype = trim_space (to_lower base)
      in case check_media_type mediatype of
           Some err \<Rightarrow> Inl err
         | None \<Rightarrow>
             (case media_params (drop (length base) v) [] of
                Some err \<Rightarrow> Inl err
              | None \<Rightarrow> Inr mediatype))"

lemma parse_media_type_dns_message:
  "parse_media_type ''application/dns-message'' = Inr ''application/dns-message''"
  by (simp add: parse_media_type_def check_media_type_def consume_token_def is_token_char_def
      is_tspecial_def media_params.simps text_eval)

end
