(* ===== verification/Https_Resolver.thy ===== *)
theory Https_Resolver
  imports Caching_Correct Go_Mime
begin

text \<open>
  \<^verbatim>\<open>internal/httpresolver/resolver.go\<close>: the resolver that asks a server over HTTPS. The network,
  the clock, the file system and the certificate parser are parameters: a \<open>net\<close> gives the result
  of the \<open>n\<close>-th POST and the time read after it, \<open>hr_calls\<close> counts the POSTs. A client is a value
  with the settings \<^verbatim>\<open>newClient\<close> gives it and its own address. The trace of the resolver is not
  the trace of a request: \<open>hr_traces\<close> holds the calls made on each trace it has had, the current one
  last; while there is none, using it panics.
\<close>

section \<open>State\<close>

record http_client =
  hc_addr :: nat
  hc_root_cas :: "bytes option"
  hc_proxy_from_env :: bool
  hc_idle_conn_timeout :: duration
  hc_dial_timeout :: duration
  hc_dial_keep_alive :: duration
  hc_dual_stack :: bool
  hc_fallback :: "string option"
  hc_force_http2 :: bool
  hc_max_idle_conns :: nat
  hc_tls_handshake_timeout :: duration
  hc_expect_continue_timeout :: duration
  hc_timeout :: duration

text \<open>
  A response: its body, and the error a read gives at the end of the body in place of the end of
  the stream, if any.
\<close>

record http_response =
  rsp_proto :: string
  rsp_status :: string
  rsp_status_code :: int
  rsp_content_type :: string
  rsp_body :: bytes
  rsp_read_error :: "string option"

record net =
  net_post :: "nat \<Rightarrow> http_client \<Rightarrow> string \<Rightarrow> string \<Rightarrow> bytes \<Rightarrow> string + http_response"
  net_now :: "nat \<Rightarrow> instant"
  net_pointer :: "nat \<Rightarrow> string"

text \<open>\<^verbatim>\<open>ioutil.ReadFile\<close>, and \<^verbatim>\<open>AppendCertsFromPEM\<close> on an empty pool.\<close>

record files =
  read_file :: "string \<Rightarrow> string + bytes"
  append_certs :: "bytes \<Rightarrow> bool"

record https =
  hr_upstream :: string
  hr_ca_file :: string
  hr_tls_config :: "bytes option"
  hr_fallback_resolver :: "string option"
  hr_client :: "http_client option"
  hr_first_err :: instant
  hr_traces :: "trace_op list list"
  hr_allocated :: nat
  hr_calls :: nat

definition new_doh :: "string \<Rightarrow> string \<Rightarrow> string \<Rightarrow> https" where
  "new_doh upstream caFile fallback =
     \<lparr>hr_upstream = upstream, hr_ca_file = caFile, hr_tls_config = None,
      hr_fallback_resolver = (if fallback \<noteq> [] then Some fallback else None),
      hr_client = None, hr_first_err = 0, hr_traces = [], hr_allocated = 0, hr_calls = 0\<rparr>"

text \<open>The traces of the resolver.\<close>

definition own_trace :: "trace_op list \<Rightarrow> https \<Rightarrow> https option" where
  "own_trace ops s =
     (if hr_traces s = [] then None
      else Some (s\<lparr>hr_traces := butlast (hr_traces s) @ [last (hr_traces s) @ ops]\<rparr>))"

definition new_own_trace :: "https \<Rightarrow> https" where
  "new_own_trace s = s\<lparr>hr_traces := hr_traces s @
     [w_trace (trace_new ''httpresolver.Client'' (hr_upstream s) empty_world)]\<rparr>"

section \<open>Clients\<close>

definition err_appending_certs :: string where
  "err_appending_certs = ''error appending certificates''"

definition load_cert_pool :: "files \<Rightarrow> string \<Rightarrow> string + bytes" where
  "load_cert_pool F caFile =
     (case read_file F caFile of
        Inl err \<Rightarrow> Inl err
      | Inr pemData \<Rightarrow>
          if \<not> append_certs F pemData then Inl err_appending_certs else Inr pemData)"

definition new_client :: "https \<Rightarrow> (string + http_client) \<times> https" where
  "new_client s =
     (Inr \<lparr>hc_addr = hr_allocated s, hc_root_cas = hr_tls_config s, hc_proxy_from_env = True,
        hc_idle_conn_timeout = 30 * second, hc_dial_timeout = 10 * second,
        hc_dial_keep_alive = 1 * second, hc_dual_stack = True,
        hc_fallback = hr_fallback_resolver s, hc_force_http2 = True, hc_max_idle_conns = 10,
        hc_tls_handshake_timeout = 4 * second, hc_expect_continue_timeout = 1 * second,
        hc_timeout = 4 * second\<rparr>,
      s\<lparr>hr_allocated := hr_allocated s + 1\<rparr>)"

definition show_client :: "net \<Rightarrow> http_client option \<Rightarrow> string" where
  "show_client N c = (case c of None \<Rightarrow> ''0x0'' | Some c \<Rightarrow> net_pointer N (hc_addr c))"

text \<open>\<^verbatim>\<open>Init\<close>: its error, and the state after it.\<close>

definition https_init :: "files \<Rightarrow> net \<Rightarrow> https \<Rightarrow> (string option \<times> https) option" where
  "https_init F N s =
     (case (if hr_ca_file s \<noteq> []
            then (case load_cert_pool F (hr_ca_file s) of
                    Inl err \<Rightarrow> Inl err
                  | Inr pool \<Rightarrow> Inr (s\<lparr>hr_tls_config := Some pool\<rparr>))
            else Inr s) of
        Inl err \<Rightarrow> Some (Some err, s)
      | Inr s \<Rightarrow>
          (let (res, s) = new_client s;
               (client, err) = (case res of Inl err \<Rightarrow> (None, Some err) | Inr c \<Rightarrow> (Some c, None));
               s = new_own_trace (s\<lparr>hr_client := client\<rparr>)
           in do {
             s \<leftarrow> own_trace [OpPrintf (''Init complete, client: '' @ show_client N (hr_client s))] s;
             Some (err, s)
           }))"

definition set_client_error :: "string option \<Rightarrow> instant \<Rightarrow> https \<Rightarrow> https option" where
  "set_client_error err now s =
     (case err of
        None \<Rightarrow> Some (s\<lparr>hr_first_err := 0\<rparr>)
      | Some e \<Rightarrow>
          (let s = (if is_zero_time (hr_first_err s) then s\<lparr>hr_first_err := now\<rparr> else s)
           in own_trace [OpPrintf (''Client error: '' @ e)] s))"

text \<open>
  \<^verbatim>\<open>maybeRotateClient\<close>: \<open>now\<close> is the time of the test, \<open>now2\<close> that of the message. \<^verbatim>\<open>Errorf\<close> and
  \<^verbatim>\<open>Finish\<close> work on the old trace.
\<close>

definition maybe_rotate_client :: "net \<Rightarrow> instant \<Rightarrow> instant \<Rightarrow> https \<Rightarrow> https option" where
  "maybe_rotate_client N now now2 s =
     (if is_zero_time (hr_first_err s) then Some s
      else if time_sub now (hr_first_err s) > 10 * second then do {
        s \<leftarrow> own_trace (w_trace (trace_finish (trace_errorf
               (''Rotating client after '' @ show_duration (time_sub now2 (hr_first_err s))
                 @ '' of errors: '' @ show_client N (hr_client s)) empty_world))) s;
        let s = new_own_trace s;
        let (res, s) = new_client s;
        (case res of
           Inl err \<Rightarrow> own_trace [OpSetError, OpPrintf (''error: Error creating new client: '' @ err)] s
         | Inr client \<Rightarrow>
             own_trace [OpPrintf (''Rotated client: '' @ show_client N (Some client))]
               (s\<lparr>hr_client := Some client, hr_first_err := 0\<rparr>))
      }
      else Some s)"

section \<open>Query\<close>

text \<open>\<^verbatim>\<open>ioutil.ReadAll(io.LimitReader(body, n))\<close>.\<close>

definition read_limited :: "nat \<Rightarrow> bytes \<Rightarrow> string option \<Rightarrow> string + bytes" where
  "read_limited n body read_error =
     (if length body < n then (case read_error of None \<Rightarrow> Inr body | Some err \<Rightarrow> Inl err)
      else Inr (take n body))"

definition parse_response :: "dns_lib \<Rightarrow> http_response \<Rightarrow> world \<Rightarrow> (string + msg) \<times> world" where
  "parse_response L hr w =
     (let w = inc (''httpresolver_http_status_'' @ show_int (rsp_status_code hr)) w in
      if rsp_status_code hr \<noteq> 200 then (Inl (''Response status: '' @ rsp_status hr), w)
      else (case parse_media_type (rsp_content_type hr) of
        Inl err \<Rightarrow> (Inl (''failed to parse content type: '' @ err), w)
      | Inr ct \<Rightarrow>
          if ct \<noteq> ''application/dns-message''
          then (Inl (''unknown response content type '' @ quote ct), inc ''httpresolver_errors_content_type'' w)
          else (case read_limited (64 * 1024) (rsp_body hr) (rsp_read_error hr) of
            Inl err \<Rightarrow> (Inl (''error reading from body: '' @ err), inc ''httpresolver_errors_read_body'' w)
          | Inr respRaw \<Rightarrow>
              (case unpack_msg L respRaw of
                 Inl err \<Rightarrow> (Inl (''error unpacking response: '' @ err), inc ''httpresolver_errors_unpack_response'' w)
               | Inr respDNS \<Rightarrow>
                   (Inr respDNS,
                    inc (''httpresolver_responses_rcode_'' @ show_int (m_rcode respDNS))
                      (inc ''httpresolver_responses_total'' w))))))"

definition https_query :: "dns_lib \<Rightarrow> net \<Rightarrow> nat \<Rightarrow> https query_fn" where
  "https_query L N v req s w =
     (let w = inc ''httpresolver_queries_total'' w;
          w = (if length (m_question req) = 1
               then inc (''httpresolver_queries_qtype_'' @ show_nat (unat (q_type (hd (m_question req))))) w
               else w)
      in case pack_msg L req of
           Inl err \<Rightarrow> Some (Inl (''cannot pack query: '' @ err), s, inc ''httpresolver_errors_pack_query'' w)
         | Inr packed \<Rightarrow>
             (let w = (if 1 \<le> v then trace_printf (''DoH POST '' @ hr_upstream s) w else w);
                  n = hr_calls s
              in do {
                client \<leftarrow> hr_client s;
                let s = s\<lparr>hr_calls := n + 1\<rparr>;
                (case net_post N n client (hr_upstream s) ''application/dns-message'' packed of
                   Inl err \<Rightarrow> do {
                     s \<leftarrow> set_client_error (Some err) (net_now N n) s;
                     Some (Inl (''POST failed: '' @ err), s, inc ''httpresolver_errors_post'' w)
                   }
                 | Inr hr \<Rightarrow> do {
                     s \<leftarrow> set_client_error None (net_now N n) s;
                     let w = trace_printf (rsp_proto hr @ ''  '' @ rsp_status hr) w;
                     let (res, w) = parse_response L hr w;
                     Some (res, s, w)
                   })
              }))"

text \<open>\<^verbatim>\<open>Maintain\<close>: one tick, with the times it reads.\<close>

definition https_tick :: "net \<Rightarrow> (https, instant \<times> instant) tick_fn" where
  "https_tick N e s w = do {
     s \<leftarrow> maybe_rotate_client N (fst e) (snd e) s;
     Some (s, w)
   }"

end
