(* ===== verification/Https_Correct.thy ===== *)
theory Https_Correct
  imports Https_Resolver
begin

text \<open>
  Correctness of the HTTPS resolver: once initialised it never panics, what makes a query succeed,
  and when the client is rotated. It is a \<open>resolver\<close>, and the caching resolver over it is one too.
\<close>

section \<open>The invariant\<close>

text \<open>After a successful \<^verbatim>\<open>Init\<close> there is a client and a trace, and clients have distinct addresses.\<close>

definition https_ready :: "https \<Rightarrow> bool" where
  "https_ready s \<longleftrightarrow> (\<exists>c. hr_client s = Some c \<and> hc_addr c < hr_allocated s) \<and> hr_traces s \<noteq> []"

lemma own_trace_eq:
  "hr_traces s \<noteq> [] \<Longrightarrow>
     own_trace ops s = Some (s\<lparr>hr_traces := butlast (hr_traces s) @ [last (hr_traces s) @ ops]\<rparr>)"
  by (simp add: own_trace_def)

lemma own_trace_ready:
  assumes "hr_traces s \<noteq> []"
  obtains s' where "own_trace ops s = Some s'" and "hr_client s' = hr_client s"
    and "hr_first_err s' = hr_first_err s" and "hr_allocated s' = hr_allocated s"
    and "hr_traces s' \<noteq> []" and "hr_calls s' = hr_calls s"
  using assms by (simp add: own_trace_eq)

lemma new_own_trace_frame [simp]:
  "hr_client (new_own_trace s) = hr_client s" "hr_first_err (new_own_trace s) = hr_first_err s"
  "hr_allocated (new_own_trace s) = hr_allocated s" "hr_traces (new_own_trace s) \<noteq> []"
  "hr_calls (new_own_trace s) = hr_calls s"
  by (simp_all add: new_own_trace_def)

lemma set_client_error_ready:
  assumes "https_ready s"
  obtains s' where "set_client_error err now s = Some s'" and "https_ready s'"
    and "hr_client s' = hr_client s"
    and "hr_first_err s' = (case err of None \<Rightarrow> 0
           | Some e \<Rightarrow> if hr_first_err s = 0 then now else hr_first_err s)"
proof (cases err)
  case None
  then show ?thesis using assms that by (simp add: set_client_error_def https_ready_def)
next
  case (Some e)
  let ?s = "if is_zero_time (hr_first_err s) then s\<lparr>hr_first_err := now\<rparr> else s"
  have "hr_traces ?s \<noteq> []" using assms by (simp add: https_ready_def)
  then obtain s' where s': "own_trace [OpPrintf (''Client error: '' @ e)] ?s = Some s'"
    "hr_client s' = hr_client ?s" "hr_first_err s' = hr_first_err ?s"
    "hr_allocated s' = hr_allocated ?s" "hr_traces s' \<noteq> []"
    by (rule own_trace_ready)
  have "set_client_error err now s = Some s'" using Some s'(1) by (simp add: set_client_error_def Let_def)
  moreover have "https_ready s'" using assms s' by (simp add: https_ready_def)
  ultimately show ?thesis using that s' Some by (simp add: is_zero_time_def)
qed

lemma rotate_quiet:
  "hr_first_err s = 0 \<or> now - hr_first_err s \<le> 10 * second \<Longrightarrow> maybe_rotate_client N now now2 s = Some s"
  using time_sub_gt_iff [of "10 * second" now "hr_first_err s"]
  by (auto simp: maybe_rotate_client_def is_zero_time_def)

lemma rotate_due_ex:
  assumes "https_ready s" and "hr_first_err s \<noteq> 0" and "10 * second < now - hr_first_err s"
  shows "\<exists>s'. maybe_rotate_client N now now2 s = Some s' \<and> https_ready s'
    \<and> hr_client s' \<noteq> hr_client s \<and> hr_first_err s' = 0"
proof -
  have "10 * second < time_sub now (hr_first_err s)"
    using assms(3) time_sub_gt_iff [of "10 * second" now "hr_first_err s"] by simp
  with assms show ?thesis
    by (auto simp: maybe_rotate_client_def own_trace_eq new_client_def is_zero_time_def Let_def
        new_own_trace_def https_ready_def)
qed

lemma rotate_due:
  assumes "https_ready s" and "hr_first_err s \<noteq> 0" and "10 * second < now - hr_first_err s"
  obtains s' where "maybe_rotate_client N now now2 s = Some s'" and "https_ready s'"
    and "hr_client s' \<noteq> hr_client s" and "hr_first_err s' = 0"
  using rotate_due_ex [OF assms, of N now2] by blast

lemma rotate_ready:
  assumes "https_ready s"
  obtains s' where "maybe_rotate_client N now now2 s = Some s'" and "https_ready s'"
proof (cases "hr_first_err s \<noteq> 0 \<and> 10 * second < now - hr_first_err s")
  case True
  with assms that show ?thesis by (metis rotate_due)
next
  case False
  then have "maybe_rotate_client N now now2 s = Some s" by (intro rotate_quiet) auto
  with assms that show ?thesis by blast
qed

section \<open>Init\<close>

lemma https_init_ready: "https_init F N (new_doh upstream caFile fallback) = Some (None, s) \<Longrightarrow> https_ready s"
  by (auto simp: https_init_def new_doh_def new_client_def Let_def own_trace_eq
      new_own_trace_def https_ready_def split: sum.splits)

lemma https_init_cases:
  "\<exists>err s. https_init F N (new_doh upstream caFile fallback) = Some (err, s)
     \<and> (err = None \<longleftrightarrow> caFile = [] \<or> (\<exists>pem. read_file F caFile = Inr pem \<and> append_certs F pem))
     \<and> (err = None \<longleftrightarrow> https_ready s)
     \<and> (\<forall>c. hr_client s = Some c \<longrightarrow>
          hc_root_cas c = (if caFile = [] then None else Some (projr (read_file F caFile)))
          \<and> hc_fallback c = (if fallback = [] then None else Some fallback))
     \<and> hr_first_err s = 0 \<and> hr_upstream s = upstream"
  by (auto simp: https_init_def new_doh_def load_cert_pool_def new_client_def Let_def own_trace_eq
      new_own_trace_def https_ready_def split: sum.splits)

section \<open>It is a resolver\<close>

lemma https_query_total:
  assumes "https_ready s"
  shows "\<exists>res s' w'. https_query L N v req s w = Some (res, s', w') \<and> https_ready s'"
proof (cases "pack_msg L req")
  case (Inl err)
  with assms show ?thesis by (simp add: https_query_def Let_def)
next
  case (Inr packed)
  obtain c where c: "hr_client s = Some c" using assms by (auto simp: https_ready_def)
  have r: "https_ready (s\<lparr>hr_calls := hr_calls s + 1\<rparr>)" using assms by (simp add: https_ready_def)
  show ?thesis
  proof (cases "net_post N (hr_calls s) c (hr_upstream s) ''application/dns-message'' packed")
    case (Inl err)
    obtain s' where "set_client_error (Some err) (net_now N (hr_calls s)) (s\<lparr>hr_calls := hr_calls s + 1\<rparr>) = Some s'"
      "https_ready s'" using r by (rule set_client_error_ready)
    with Inl \<open>pack_msg L req = Inr packed\<close> c show ?thesis by (simp add: https_query_def Let_def)
  next
    case (Inr hr)
    obtain s' where "set_client_error None (net_now N (hr_calls s)) (s\<lparr>hr_calls := hr_calls s + 1\<rparr>) = Some s'"
      "https_ready s'" using r by (rule set_client_error_ready)
    with Inr \<open>pack_msg L req = Inr packed\<close> c show ?thesis
      by (simp add: https_query_def Let_def case_prod_beta)
  qed
qed

lemma https_tick_total:
  assumes "https_ready s"
  shows "\<exists>s' w'. https_tick N e s w = Some (s', w') \<and> https_ready s'"
proof -
  obtain s' where "maybe_rotate_client N (fst e) (snd e) s = Some s'" "https_ready s'"
    using assms by (rule rotate_ready)
  then show ?thesis by (simp add: https_tick_def)
qed

interpretation https: resolver "https_query L N v" "https_tick N" https_ready for L N v
  by unfold_locales (rule https_query_total https_tick_total, assumption)+

interpretation cached_https: caching_over "https_query L N v" "https_tick N" https_ready L default_cfg
  for L N v
  by unfold_locales (rule cfg_ok_default)

end
