(* ===== verification/Https_Properties.thy ===== *)
theory Https_Properties
  imports Https_Correct
begin

text \<open>
  The properties of the HTTPS resolver: what makes a query succeed, how it counts, when and how
  often the client is rotated, and the safety of the resolver stack the program runs, the cache
  over the HTTPS resolver.
\<close>

section \<open>A concrete network, for the witnesses\<close>

definition ex_response :: http_response where
  "ex_response = \<lparr>rsp_proto = ''HTTP/2.0'', rsp_status = ''200 OK'', rsp_status_code = 200,
     rsp_content_type = ''application/dns-message'', rsp_body = [9], rsp_read_error = None\<rparr>"

definition ex_net :: net where
  "ex_net = \<lparr>net_post = (\<lambda>n c u t b. if n = 0 then Inr ex_response else Inl ''down''),
     net_now = (\<lambda>n. int n * second), net_pointer = show_nat\<rparr>"

definition ex_files :: files where
  "ex_files = \<lparr>read_file = (\<lambda>f. Inl ''no such file''), append_certs = (\<lambda>b. True)\<rparr>"

definition ex_https :: https where
  "ex_https = snd (the (https_init ex_files ex_net (new_doh ''https://dns/'' [] [])))"

lemma ex_https_ready: "https_ready ex_https" "hr_first_err ex_https = 0" "hr_calls ex_https = 0"
  by (simp_all add: ex_https_def https_init_def new_doh_def new_client_def Let_def own_trace_eq
      new_own_trace_def https_ready_def)

section \<open>Queries\<close>

lemma https_query_cases:
  assumes "https_ready s" and "https_query L N v req s w = Some (res, s', w')"
  obtains (pack) err where "pack_msg L req = Inl err" "res = Inl (''cannot pack query: '' @ err)"
  | (post) packed c err where "pack_msg L req = Inr packed" "hr_client s = Some c"
      "net_post N (hr_calls s) c (hr_upstream s) ''application/dns-message'' packed = Inl err"
      "res = Inl (''POST failed: '' @ err)"
  | (answer) packed c hr w1 where "pack_msg L req = Inr packed" "hr_client s = Some c"
      "net_post N (hr_calls s) c (hr_upstream s) ''application/dns-message'' packed = Inr hr"
      "res = fst (parse_response L hr w1)"
proof (cases "pack_msg L req")
  case (Inl err)
  with assms(2) show ?thesis by (intro pack) (auto simp: https_query_def Let_def)
next
  case (Inr packed)
  obtain c where c: "hr_client s = Some c" using assms(1) by (auto simp: https_ready_def)
  show ?thesis
  proof (cases "net_post N (hr_calls s) c (hr_upstream s) ''application/dns-message'' packed")
    case (Inl err)
    with assms(2) \<open>pack_msg L req = Inr packed\<close> c show ?thesis
      by (intro post) (auto simp: https_query_def Let_def bind_eq_Some_conv)
  next
    case (Inr hr)
    with assms(2) \<open>pack_msg L req = Inr packed\<close> c show ?thesis
      by (intro answer) (auto simp: https_query_def Let_def bind_eq_Some_conv case_prod_beta)
  qed
qed

definition response_ok :: "dns_lib \<Rightarrow> http_response \<Rightarrow> msg \<Rightarrow> bool" where
  "response_ok L hr m \<longleftrightarrow> rsp_status_code hr = 200
     \<and> parse_media_type (rsp_content_type hr) = Inr ''application/dns-message''
     \<and> (length (rsp_body hr) \<ge> 65536 \<or> rsp_read_error hr = None)
     \<and> unpack_msg L (take 65536 (rsp_body hr)) = Inr m"

lemma parse_response_ok: "fst (parse_response L hr w) = Inr m \<longleftrightarrow> response_ok L hr m"
  by (auto simp: parse_response_def response_ok_def read_limited_def Let_def
      split: sum.splits option.splits)

text \<open>
  C8: a query gives a message exactly when it packs, the server answers the POST with status 200
  and the media type of DNS messages, and the first 64 KiB of the body, read without error, are a
  message; then it gives that message. In every other case it gives an error.
\<close>

theorem https_query_succeeds_iff:
  assumes "https_ready s"
  shows "(\<exists>s' w'. https_query L N v req s w = Some (Inr m, s', w')) \<longleftrightarrow>
    (\<exists>packed c hr. pack_msg L req = Inr packed \<and> hr_client s = Some c
       \<and> net_post N (hr_calls s) c (hr_upstream s) ''application/dns-message'' packed = Inr hr
       \<and> response_ok L hr m)"
    (is "?l \<longleftrightarrow> ?r")
proof
  assume ?l
  then show ?r
    by (auto elim!: https_query_cases [OF assms] simp: parse_response_ok dest: sym [of "Inr m"])
next
  assume ?r
  obtain res s' w' where q: "https_query L N v req s w = Some (res, s', w')"
    using https_query_total [OF assms] by blast
  from assms q \<open>?r\<close> have "res = Inr m"
    by (cases rule: https_query_cases) (auto simp: parse_response_ok)
  with q show ?l by blast
qed

theorem https_query_succeeds_iff_witness:
  "\<exists>s' w'. https_query plain_lib ex_net 0 empty_msg ex_https empty_world =
     Some (Inr (empty_msg\<lparr>m_id := 9, m_question := [\<lparr>q_name = ''a.'', q_type = 1, q_class = 1\<rparr>]\<rparr>), s', w')"
  using https_query_succeeds_iff [OF ex_https_ready(1), of plain_lib ex_net 0 empty_msg empty_world
      "empty_msg\<lparr>m_id := 9, m_question := [\<lparr>q_name = ''a.'', q_type = 1, q_class = 1\<rparr>]\<rparr>"]
    ex_https_ready(1,3)
  by (simp add: plain_lib_def ex_net_def response_ok_def ex_response_def parse_media_type_dns_message
      https_ready_def) blast

section \<open>Rotation of the client\<close>

text \<open>
  What happens to the client, as the critical sections under the resolver's lock: the result of a
  POST is noted with the time, and a maintenance tick tests for rotation. Concurrent queries are
  any interleaving of these.
\<close>

datatype client_event =
    PostDone "string option" instant
  | ClientTick instant instant

fun client_step :: "net \<Rightarrow> client_event \<Rightarrow> https \<Rightarrow> https option" where
  "client_step N (PostDone err t) s = set_client_error err t s"
| "client_step N (ClientTick t t2) s = maybe_rotate_client N t t2 s"

fun client_run :: "net \<Rightarrow> client_event list \<Rightarrow> https \<Rightarrow> https option" where
  "client_run N [] s = Some s"
| "client_run N (e # es) s =
     (case client_step N e s of None \<Rightarrow> None | Some s' \<Rightarrow> client_run N es s')"

fun event_time :: "client_event \<Rightarrow> instant" where
  "event_time (PostDone err t) = t"
| "event_time (ClientTick t t2) = t"

text \<open>The times at which a run of events replaces the client.\<close>

fun rotations :: "net \<Rightarrow> client_event list \<Rightarrow> https \<Rightarrow> instant list" where
  "rotations N [] s = []"
| "rotations N (e # es) s =
     (case client_step N e s of
        None \<Rightarrow> []
      | Some s' \<Rightarrow> (if hr_client s' \<noteq> hr_client s then [event_time e] else []) @ rotations N es s')"

lemma client_step_cases:
  assumes "https_ready s"
  obtains (ok) t s' where "e = PostDone None t" "client_step N e s = Some s'" "https_ready s'"
      "hr_client s' = hr_client s" "hr_first_err s' = 0"
  | (failed) m t s' where "e = PostDone (Some m) t" "client_step N e s = Some s'" "https_ready s'"
      "hr_client s' = hr_client s"
      "hr_first_err s' = (if hr_first_err s = 0 then t else hr_first_err s)"
  | (quiet) t t2 where "e = ClientTick t t2" "client_step N e s = Some s"
      "hr_first_err s = 0 \<or> t - hr_first_err s \<le> 10 * second"
  | (rotated) t t2 s' where "e = ClientTick t t2" "client_step N e s = Some s'" "https_ready s'"
      "hr_client s' \<noteq> hr_client s" "hr_first_err s' = 0" "hr_first_err s \<noteq> 0"
      "10 * second < t - hr_first_err s"
proof (cases e)
  case (PostDone err t)
  obtain s' where "set_client_error err t s = Some s'" "https_ready s'" "hr_client s' = hr_client s"
    "hr_first_err s' = (case err of None \<Rightarrow> 0
           | Some e \<Rightarrow> if hr_first_err s = 0 then t else hr_first_err s)"
    using assms by (rule set_client_error_ready)
  with PostDone ok failed show ?thesis by (cases err) auto
next
  case (ClientTick t t2)
  show ?thesis
  proof (cases "hr_first_err s \<noteq> 0 \<and> 10 * second < t - hr_first_err s")
    case True
    with assms ClientTick rotated show ?thesis by (metis client_step.simps(2) rotate_due)
  next
    case False
    then have "hr_first_err s = 0 \<or> t - hr_first_err s \<le> 10 * second" by auto
    with ClientTick quiet show ?thesis by (simp add: rotate_quiet)
  qed
qed

lemma client_run_append:
  "client_run N (es @ fs) s = (case client_run N es s of None \<Rightarrow> None | Some s' \<Rightarrow> client_run N fs s')"
  by (induction es arbitrary: s) (auto split: option.splits)

lemma client_run_ready:
  "https_ready s \<Longrightarrow> \<exists>s'. client_run N es s = Some s' \<and> https_ready s'"
proof (induction es arbitrary: s)
  case Nil
  then show ?case by simp
next
  case (Cons e es)
  obtain s' where "client_step N e s = Some s'" "https_ready s'"
    by (cases rule: client_step_cases [OF Cons.prems, of e N]) (use Cons.prems in auto)
  with Cons.IH show ?case by simp
qed

lemma rotations_spaced:
  assumes "https_ready s" and "sorted (map event_time es)" and "\<forall>e \<in> set es. lo \<le> event_time e"
    and "hr_first_err s = 0 \<or> lo \<le> hr_first_err s"
  shows "sorted_wrt (\<lambda>a b. a + 10 * second < b) (rotations N es s)
    \<and> (\<forall>t \<in> set (rotations N es s). lo + 10 * second < t)"
  using assms
proof (induction es arbitrary: s lo)
  case Nil
  then show ?case by simp
next
  case (Cons e es)
  have sorted: "sorted (map event_time es)" and later: "\<forall>x \<in> set es. event_time e \<le> event_time x"
    and lo: "lo \<le> event_time e" "\<forall>x \<in> set es. lo \<le> event_time x"
    using Cons.prems by auto
  from Cons.prems(1) show ?case
  proof (cases rule: client_step_cases [of s e N])
    case ok
    with Cons.IH [OF ok(3) sorted lo(2)] show ?thesis by simp
  next
    case failed
    with Cons.IH [OF failed(3) sorted lo(2)] Cons.prems(4) lo(1) show ?thesis by (simp split: if_splits)
  next
    case quiet
    with Cons.IH [OF Cons.prems(1) sorted lo(2)] Cons.prems(4) show ?thesis by simp
  next
    case (rotated t t2 s')
    have "lo + 10 * second < t" using rotated Cons.prems(4) by linarith
    moreover have "sorted_wrt (\<lambda>a b. a + 10 * second < b) (rotations N es s')
        \<and> (\<forall>u \<in> set (rotations N es s'). t + 10 * second < u)"
      using Cons.IH [OF rotated(3) sorted later] rotated(1,5) by simp
    ultimately show ?thesis using rotated by (auto simp del: add_less_cancel_left)
  qed
qed

text \<open>
  Clients do not pile up. However queries and maintenance ticks interleave, any two rotations
  are more than ten seconds apart, and the first is more than ten seconds after the start.
\<close>

lemma rotations_rate_limited:
  assumes "https_ready s" and "hr_first_err s = 0" and "sorted (map event_time es)"
    and "\<forall>e \<in> set es. start \<le> event_time e"
  shows "sorted_wrt (\<lambda>a b. a + 10 * second < b) (start # rotations N es s)"
  using rotations_spaced [OF assms(1,3,4), of N] assms(2) by simp

text \<open>Events that are not the success of a POST, up to a time for the ticks.\<close>

fun failing_until :: "instant \<Rightarrow> client_event \<Rightarrow> bool" where
  "failing_until d (PostDone err t) = (err \<noteq> None)"
| "failing_until d (ClientTick t t2) = (t \<le> d)"

fun is_client_tick :: "client_event \<Rightarrow> bool" where
  "is_client_tick (PostDone err t) = False"
| "is_client_tick (ClientTick t t2) = True"

lemma run_ticks_idle:
  "https_ready s \<Longrightarrow> hr_first_err s = 0 \<Longrightarrow> list_all is_client_tick es \<Longrightarrow> client_run N es s = Some s"
proof (induction es)
  case Nil
  then show ?case by simp
next
  case (Cons e es)
  then show ?case by (cases e) (simp_all add: rotate_quiet)
qed

lemma run_failing:
  "https_ready s \<Longrightarrow> hr_first_err s = t0 \<Longrightarrow> t0 \<noteq> 0 \<Longrightarrow> list_all (failing_until (t0 + 10 * second)) es \<Longrightarrow>
     \<exists>s'. client_run N es s = Some s' \<and> https_ready s' \<and> hr_client s' = hr_client s \<and> hr_first_err s' = t0"
proof (induction es arbitrary: s)
  case Nil
  then show ?case by simp
next
  case (Cons e es)
  from Cons.prems(1) show ?case
  proof (cases rule: client_step_cases [of s e N])
    case ok
    with Cons.prems show ?thesis by simp
  next
    case (failed m t s')
    with Cons.IH [of s'] Cons.prems show ?thesis by simp
  next
    case quiet
    with Cons.IH [of s] Cons.prems show ?thesis by simp
  next
    case rotated
    with Cons.prems show ?thesis by simp
  qed
qed

text \<open>
  C4: rotation is exact. Take any history that ends with a successful POST, then ticks, then a
  first failed POST at \<open>t0\<close>, then more failures and ticks up to ten seconds after \<open>t0\<close>. The
  client is still the one of the last success, and a tick at \<open>t\<close> replaces it exactly when \<open>t\<close> is
  more than ten seconds after \<open>t0\<close>; when it does, the errors are forgotten.
\<close>

theorem rotation_exact:
  assumes "https_ready s" and "client_run N (hist @ [PostDone None tok]) s = Some s1"
    and "list_all is_client_tick idle" and "t0 \<noteq> 0"
    and "list_all (failing_until (t0 + 10 * second)) rest"
  shows "\<exists>s2 s3. client_run N (hist @ PostDone None tok # idle @ PostDone (Some err) t0 # rest) s = Some s2
    \<and> hr_client s2 = hr_client s1
    \<and> client_step N (ClientTick t t2) s2 = Some s3
    \<and> (hr_client s3 \<noteq> hr_client s1 \<longleftrightarrow> 10 * second < t - t0)
    \<and> hr_first_err s3 = (if 10 * second < t - t0 then 0 else t0)"
proof -
  obtain s0 where s0: "client_run N hist s = Some s0" "https_ready s0"
    using client_run_ready [OF assms(1)] by blast
  have s1: "client_step N (PostDone None tok) s0 = Some s1"
    using assms(2) s0(1) by (simp add: client_run_append split: option.splits)
  have "https_ready s1" "hr_first_err s1 = 0"
    using s1 by (cases rule: client_step_cases [OF s0(2), of "PostDone None tok" N]; simp)+
  note idle = run_ticks_idle [OF this assms(3), of N]
  obtain s1' where s1': "client_step N (PostDone (Some err) t0) s1 = Some s1'" "https_ready s1'"
      "hr_client s1' = hr_client s1" "hr_first_err s1' = t0"
    using \<open>hr_first_err s1 = 0\<close>
    by (cases rule: client_step_cases [OF \<open>https_ready s1\<close>, of "PostDone (Some err) t0" N]; simp)
  obtain s2 where s2: "client_run N rest s1' = Some s2" "https_ready s2" "hr_client s2 = hr_client s1"
      "hr_first_err s2 = t0"
    using run_failing [OF s1'(2,4) assms(4,5), of N] s1'(3) by auto
  have "client_run N (hist @ PostDone None tok # idle @ PostDone (Some err) t0 # rest) s = Some s2"
    using s0(1) s1 idle s1'(1) s2(1) by (simp add: client_run_append)
  moreover have "\<exists>s3. client_step N (ClientTick t t2) s2 = Some s3
    \<and> (hr_client s3 \<noteq> hr_client s1 \<longleftrightarrow> 10 * second < t - t0)
    \<and> hr_first_err s3 = (if 10 * second < t - t0 then 0 else t0)"
    using s2(3,4) assms(4)
    by (cases rule: client_step_cases [OF s2(2), of "ClientTick t t2" N]) auto
  ultimately show ?thesis using s2(3) by blast
qed

theorem rotation_exact_witness:
  "\<exists>s2 s3. client_run ex_net ([] @ PostDone None 1 # [] @ PostDone (Some ''down'') 5 # []) ex_https = Some s2
    \<and> hr_client s2 = hr_client ex_https
    \<and> client_step ex_net (ClientTick (11 * second) (11 * second)) s2 = Some s3
    \<and> hr_client s3 \<noteq> hr_client ex_https \<and> hr_first_err s3 = 0"
proof -
  have "client_run ex_net ([] @ [PostDone None 1]) ex_https = Some (ex_https\<lparr>hr_first_err := 0\<rparr>)"
    by (simp add: set_client_error_def)
  from rotation_exact [OF ex_https_ready(1) this, of "[]" 5 "[]" "''down''" "11 * second" "11 * second"]
  show ?thesis by auto
qed

section \<open>The resolver stack of the program\<close>

text \<open>
  The resolver the program runs is safe. Once the HTTPS resolver is initialised, no sequence of
  queries, maintenance ticks of either resolver and network outcomes makes the cache over it
  panic; the cache never exceeds its size, its entries are well-formed, every query was counted
  as a hit, a miss or a bypass, and the HTTPS resolver still has a client.
\<close>

lemma cached_https_safe:
  assumes "https_init F N (new_doh upstream caFile fallback) = Some (None, s)"
  shows "\<exists>c w'. resolver_run (caching_query L default_cfg (https_query L N v))
        (caching_tick default_cfg (https_tick N)) es (new_caching_resolver s, w) = Some (c, w')
    \<and> length (cr_answer c) \<le> 2000 \<and> cache_wf default_cfg (cr_answer c)
    \<and> cr_total c = cr_bypassed c + cr_hits c + cr_misses c
    \<and> https_ready (cr_back c)"
proof -
  have "https_ready s"
    using https_init_ready [OF assms] .
  then have "caching_inv default_cfg https_ready (new_caching_resolver s)" by (rule caching_inv_new)
  from cached_https.cached.run_total [of "(new_caching_resolver s, w)" L N v es, unfolded fst_conv, OF this]
  obtain c w' where "resolver_run (caching_query L default_cfg (https_query L N v))
        (caching_tick default_cfg (https_tick N)) es (new_caching_resolver s, w) = Some (c, w')"
      "caching_inv default_cfg https_ready c"
    by auto
  then show ?thesis by (auto simp: caching_inv_def accounted_def cache_wf_def default_cfg_def)
qed

lemma cached_https_safe_witness:
  "\<exists>c w'. resolver_run (caching_query plain_lib default_cfg (https_query plain_lib ex_net 0))
        (caching_tick default_cfg (https_tick ex_net))
        [ReQuery empty_msg, ReTick None, ReTick (Some (1, 1))]
        (new_caching_resolver ex_https, empty_world) = Some (c, w') \<and> https_ready (cr_back c)"
proof -
  have "https_init ex_files ex_net (new_doh ''https://dns/'' [] []) = Some (None, ex_https)"
    by (simp add: ex_https_def https_init_def new_doh_def new_client_def Let_def own_trace_eq new_own_trace_def)
  from cached_https_safe [OF this] show ?thesis by blast
qed

end
