(* ===== verification/Dns_Server_Properties.thy ===== *)
theory Dns_Server_Properties
  imports Dns_Server Https_Properties
begin

text \<open>
  The properties of the DNS server: one reply for each query, from the upstream its name is routed
  to, under the id of the query, cut to what the transport carries; what is captured for dnstap;
  that the whole server, on the resolver stack the program builds, never panics; and that its
  counters add up.
\<close>

section \<open>Routing and replies\<close>

datatype route =
    Refused
  | Overridden string
  | Unqualified string
  | ToResolver

definition route_of :: "dns_lib \<Rightarrow> dns_server \<Rightarrow> msg \<Rightarrow> route" where
  "route_of L srv r =
     (if length (m_question r) \<noteq> 1 then Refused
      else (let name = q_name (hd (m_question r)); (server, found) = get_most_specific L (ds_server_overrides srv) name
            in if found then Overridden server
               else if ds_unq_upstream srv \<noteq> [] \<and> count_label L name \<le> 1 then Unqualified (ds_unq_upstream srv)
               else ToResolver))"

text \<open>What a client is sent for a message: all of it, or over UDP what fits.\<close>

definition fitted :: "dns_lib \<Rightarrow> request_env \<Rightarrow> msg \<Rightarrow> msg \<Rightarrow> msg" where
  "fitted L E r m = (if addr_network (re_remote E) = ''udp'' then truncate_msg L (udp_max L r) m else m)"

lemma on_world_simps [simp]:
  "dn_resolver (on_world f st) = dn_resolver st" "dn_tap (on_world f st) = dn_tap st"
  "dn_written (on_world f st) = dn_written st" "dn_world (on_world f st) = f (dn_world st)"
  by (simp_all add: on_world_def)

lemma fold_on_world [simp]:
  "dn_resolver (fold (\<lambda>x. on_world (f x)) xs st) = dn_resolver st"
  "dn_tap (fold (\<lambda>x. on_world (f x)) xs st) = dn_tap st"
  "dn_written (fold (\<lambda>x. on_world (f x)) xs st) = dn_written st"
  by (induction xs arbitrary: st) simp_all

lemma handle_failed_simps [simp]:
  "dn_resolver (handle_failed L E r st) = dn_resolver st" "dn_tap (handle_failed L E r st) = dn_tap st"
  "dn_written (handle_failed L E r st) = dn_written st @ [set_rcode L r rcode_server_failure]"
  "dn_world (handle_failed L E r st) = dn_world st"
  by (simp_all add: handle_failed_def write_msg_def)

definition tap_of :: "request_env \<Rightarrow> msg \<Rightarrow> msg \<Rightarrow> tap_record" where
  "tap_of E r reply = \<lparr>tr_query = r, tr_response = reply, tr_local = re_local E,
     tr_remote = re_remote E, tr_transport = addr_network (re_remote E),
     tr_qt = re_query_time E, tr_rt = re_response_time E\<rparr>"

lemma capture_None: "capture r None = None"
  by (simp add: capture_def)

lemma write_reply_simps [simp]:
  "dn_resolver (write_reply L E r reply st) = dn_resolver st"
  "dn_written (write_reply L E r reply st) = dn_written st @ [fitted L E r reply]"
  "dn_tap (write_reply L E r reply st) = capture (tap_of E r reply) (dn_tap st)"
  by (auto simp: write_reply_def fitted_def write_msg_def Let_def tap_of_def capture_None)

lemma forward_simps [simp]:
  "dn_resolver (forward L v E server notes c ctr r st) = dn_resolver st"
  "dn_written (forward L v E server notes c ctr r st) = dn_written st @
     [case re_exchange E r server of Inl err \<Rightarrow> set_rcode L r rcode_server_failure | Inr u \<Rightarrow> fitted L E r u]"
  by (simp_all add: forward_def Let_def split: sum.split)

lemma receive_simps [simp]:
  "dn_resolver (receive L v E r st) = dn_resolver st" "dn_tap (receive L v E r st) = dn_tap st"
  "dn_written (receive L v E r st) = dn_written st"
  "dn_resolver (count_question q st) = dn_resolver st" "dn_tap (count_question q st) = dn_tap st"
  "dn_written (count_question q st) = dn_written st"
  by (simp_all add: receive_def count_question_def Let_def)

text \<open>What the handler does, route by route, up to what it counts and traces.\<close>

lemma handler_cases:
  assumes "handler L v srv query E r st = Some st'"
  obtains (refused) "route_of L srv r = Refused" "dn_resolver st' = dn_resolver st" "dn_tap st' = dn_tap st"
      "dn_written st' = dn_written st @ [set_rcode L r rcode_server_failure]"
  | (forwarded) a where "route_of L srv r = Overridden a \<or> route_of L srv r = Unqualified a"
      "dn_resolver st' = dn_resolver st"
      "dn_written st' = dn_written st @
        [case re_exchange E r a of Inl err \<Rightarrow> set_rcode L r rcode_server_failure | Inr u \<Rightarrow> fitted L E r u]"
  | (failed) w err w' where "route_of L srv r = ToResolver" "dn_tap st' = dn_tap st"
      "query (r\<lparr>m_id := re_new_id E\<rparr>) (dn_resolver st) w = Some (Inl err, dn_resolver st', w')"
      "dn_written st' = dn_written st @ [set_rcode L (r\<lparr>m_id := m_id r\<rparr>) rcode_server_failure]"
  | (answered) w m w' where "route_of L srv r = ToResolver"
      "query (r\<lparr>m_id := re_new_id E\<rparr>) (dn_resolver st) w = Some (Inr m, dn_resolver st', w')"
      "dn_written st' = dn_written st @ [fitted L E (r\<lparr>m_id := re_new_id E\<rparr>) (m\<lparr>m_id := m_id r\<rparr>)]"
      "dn_tap st' = capture (tap_of E (r\<lparr>m_id := re_new_id E\<rparr>) (m\<lparr>m_id := m_id r\<rparr>)) (dn_tap st)"
proof (cases "length (m_question r) = 1")
  case False
  with assms show ?thesis by (intro refused) (auto simp: handler_def route_of_def Let_def)
next
  case True
  obtain a ok where gms: "get_most_specific L (ds_server_overrides srv) (q_name (hd (m_question r))) = (a, ok)"
    by (cases "get_most_specific L (ds_server_overrides srv) (q_name (hd (m_question r)))")
  consider (ov) ok | (unq) "\<not> ok" "ds_unq_upstream srv \<noteq> [] \<and> count_label L (q_name (hd (m_question r))) \<le> 1"
    | (res) "\<not> ok" "\<not> (ds_unq_upstream srv \<noteq> [] \<and> count_label L (q_name (hd (m_question r))) \<le> 1)"
    by blast
  then show ?thesis
  proof cases
    case ov
    with True gms assms show ?thesis
      by (intro forwarded [of a]) (auto simp: handler_def route_of_def Let_def)
  next
    case unq
    with True gms assms show ?thesis
      by (intro forwarded [of "ds_unq_upstream srv"]) (auto simp: handler_def route_of_def Let_def)
  next
    case res
    from res True gms have rt: "route_of L srv r = ToResolver" by (auto simp: route_of_def Let_def)
    define st1 where "st1 = count_question (hd (m_question r)) (receive L v E r st)"
    have st1: "dn_resolver st1 = dn_resolver st" "dn_tap st1 = dn_tap st" "dn_written st1 = dn_written st"
      by (simp_all add: st1_def)
    have "handler L v srv query E r st = map_option (on_world trace_finish) (ask_resolver L v query E r st1)"
      using res True gms by (auto simp: handler_def Let_def st1_def)
    with assms obtain st2 where ask: "ask_resolver L v query E r st1 = Some st2" "st' = on_world trace_finish st2"
      by auto
    note ask = ask st1
    then obtain out s w where q: "query (r\<lparr>m_id := re_new_id E\<rparr>) (dn_resolver st)
        (dn_world (st_inc ''dnsserver_queries_resolver'' st1)) = Some (out, s, w)"
      by (auto simp: ask_resolver_def Let_def bind_eq_Some_conv)
    show ?thesis
    proof (cases out)
      case (Inl err)
      with q ask rt show ?thesis by (intro failed) (auto simp: ask_resolver_def Let_def bind_eq_Some_conv)
    next
      case (Inr m)
      with q ask rt show ?thesis by (intro answered) (auto simp: ask_resolver_def Let_def bind_eq_Some_conv)
    qed
  qed
qed

text \<open>
  C3: every query that is handled gets exactly one reply, from where its name is routed. A message
  without exactly one question is refused; a name with an override goes to that server; an
  unqualified name goes to the unqualified upstream, if there is one; any other goes to the
  resolver, under a fresh id. An upstream that fails gives a server failure, and only the resolver's
  route touches the resolver.
\<close>

theorem handler_routes:
  assumes "handler L v srv query E r st = Some st'"
  shows "\<exists>reply. dn_written st' = dn_written st @ [reply] \<and>
    (case route_of L srv r of
       Refused \<Rightarrow> reply = set_rcode L r rcode_server_failure \<and> dn_resolver st' = dn_resolver st
     | Overridden a \<Rightarrow> dn_resolver st' = dn_resolver st
         \<and> reply = (case re_exchange E r a of Inl err \<Rightarrow> set_rcode L r rcode_server_failure | Inr u \<Rightarrow> fitted L E r u)
     | Unqualified a \<Rightarrow> dn_resolver st' = dn_resolver st
         \<and> reply = (case re_exchange E r a of Inl err \<Rightarrow> set_rcode L r rcode_server_failure | Inr u \<Rightarrow> fitted L E r u)
     | ToResolver \<Rightarrow> \<exists>w res w'. query (r\<lparr>m_id := re_new_id E\<rparr>) (dn_resolver st) w = Some (res, dn_resolver st', w')
         \<and> reply = (case res of Inl err \<Rightarrow> set_rcode L r rcode_server_failure
             | Inr m \<Rightarrow> fitted L E (r\<lparr>m_id := re_new_id E\<rparr>) (m\<lparr>m_id := m_id r\<rparr>)))"
  using assms
proof (cases rule: handler_cases)
  case refused
  then show ?thesis by simp
next
  case (forwarded a)
  then show ?thesis by auto
next
  case (failed w err w')
  from failed(3) have "\<exists>w res w'. query (r\<lparr>m_id := re_new_id E\<rparr>) (dn_resolver st) w = Some (res, dn_resolver st', w')
      \<and> res = Inl err" by blast
  with failed(1,4) show ?thesis by fastforce
next
  case (answered w m w')
  from answered(2) have "\<exists>w res w'. query (r\<lparr>m_id := re_new_id E\<rparr>) (dn_resolver st) w = Some (res, dn_resolver st', w')
      \<and> res = Inr m" by blast
  with answered(1,3) show ?thesis by fastforce
qed

definition ex_env :: request_env where
  "ex_env = \<lparr>re_local = UDPAddr None 53 ''[::]:53'', re_remote = UDPAddr None 9 ''[::1]:9'',
     re_query_time = 1, re_response_time = 2, re_new_id = 99,
     re_exchange = (\<lambda>m a. Inr (empty_msg\<lparr>m_id := m_id m, m_response := True\<rparr>)), re_write_ok = (\<lambda>m. True)\<rparr>"

definition ex_srv :: dns_server where
  "ex_srv = \<lparr>ds_unq_upstream = ''1.1.1.1:53'', ds_server_overrides = []\<rparr>"

definition ex_ask :: msg where
  "ex_ask = empty_msg\<lparr>m_id := 7, m_question := [\<lparr>q_name = ''a.b.'', q_type = 1, q_class = 1\<rparr>]\<rparr>"

definition ex_query_fn :: "nat query_fn" where
  "ex_query_fn r s w = Some (Inr (empty_msg\<lparr>m_id := m_id r\<rparr>), s + 1, w)"

definition ex_state :: "nat dns_state" where
  "ex_state = \<lparr>dn_resolver = 0, dn_world = empty_world, dn_tap = Some (new_writer ''tap''), dn_written = []\<rparr>"

lemma ex_handler: "\<exists>st'. handler plain_lib 0 ex_srv ex_query_fn ex_env ex_ask ex_state = Some st'"
proof -
  have "\<exists>st'. ask_resolver plain_lib 0 ex_query_fn ex_env ex_ask st = Some st'" for st
    by (simp add: ask_resolver_def ex_query_fn_def)
  then show ?thesis by (auto simp: handler_def Let_def split: prod.split)
qed

lemma plain_labels_ab: "plain_labels ''a.b.'' = [''a'', ''b'']"
  by (simp add: plain_labels_def has_suffix_def)

lemma ex_route: "route_of plain_lib ex_srv ex_ask = ToResolver"
  by (simp add: route_of_def ex_ask_def empty_msg_def get_most_specific_def ex_srv_def Let_def
      plain_lib_def plain_labels_ab)

theorem handler_routes_witness:
  "\<exists>st' reply. handler plain_lib 0 ex_srv ex_query_fn ex_env ex_ask ex_state = Some st'
     \<and> dn_written st' = [reply] \<and> m_id reply = 7 \<and> dn_resolver st' = 1"
proof -
  obtain st' where st': "handler plain_lib 0 ex_srv ex_query_fn ex_env ex_ask ex_state = Some st'"
    using ex_handler by blast
  from handler_routes [OF st'] show ?thesis
    unfolding ex_route using st'
    by (auto simp: ex_state_def ex_query_fn_def fitted_def ex_env_def plain_lib_def udp_max_def ex_ask_def)
qed

text \<open>
  What the DNS library documents of replies: \<^verbatim>\<open>SetRcode\<close> makes a reply to the message, \<^verbatim>\<open>Truncate\<close>
  keeps the header but for the TC bit and makes the message fit, within the minimum of the
  protocol.
\<close>

definition replies_documented :: "dns_lib \<Rightarrow> bool" where
  "replies_documented L \<longleftrightarrow>
     (\<forall>m c. m_id (set_rcode L m c) = m_id m) \<and>
     (\<forall>n m. m_id (truncate_msg L n m) = m_id m) \<and>
     (\<forall>n m b. pack_msg L (truncate_msg L n m) = Inr b \<longrightarrow> int (length b) \<le> max 512 n)"

lemma plain_replies: "replies_documented plain_lib"
  by (simp add: replies_documented_def plain_lib_def) (simp add: max_def)

lemma fitted_id: "replies_documented L \<Longrightarrow> m_id (fitted L E r m) = m_id m"
  by (simp add: replies_documented_def fitted_def)

text \<open>
  C6: the reply carries the id of the query, whatever id was used upstream, provided that
  \<^verbatim>\<open>dns.Exchange\<close> only accepts answers to the query it sent, as documented.
\<close>

theorem handler_keeps_id:
  assumes "replies_documented L" and "\<And>a u. re_exchange E r a = Inr u \<Longrightarrow> m_id u = m_id r"
    and "handler L v srv query E r st = Some st'"
  shows "\<exists>reply. dn_written st' = dn_written st @ [reply] \<and> m_id reply = m_id r"
  using assms(3)
proof (cases rule: handler_cases)
  case (forwarded a)
  then show ?thesis
    using assms(1,2) by (cases "re_exchange E r a") (simp_all add: fitted_id, simp add: replies_documented_def)
qed (use assms(1) in \<open>simp_all add: fitted_id, simp_all add: replies_documented_def\<close>)

theorem handler_keeps_id_witness:
  "\<exists>st' reply. handler plain_lib 0 ex_srv ex_query_fn ex_env ex_ask ex_state = Some st'
     \<and> dn_written st' = [reply] \<and> m_id reply = 7"
proof -
  obtain st' where st': "handler plain_lib 0 ex_srv ex_query_fn ex_env ex_ask ex_state = Some st'"
    using ex_handler by blast
  have "re_exchange ex_env ex_ask a = Inr u \<Longrightarrow> m_id u = m_id ex_ask" for a u
    by (auto simp: ex_env_def)
  from handler_keeps_id [OF plain_replies this st'] st' show ?thesis
    by (auto simp: ex_state_def ex_ask_def)
qed

text \<open>
  C30: a UDP client is never sent more than it can take. A reply over UDP that is not a bare server
  failure is the upstream's message cut for the size in the EDNS record of the query, or for 512 bytes
  if it has none; it packs to at most that size, or the 512 bytes every client takes.
\<close>

theorem handler_fits_udp:
  assumes "replies_documented L" and "addr_network (re_remote E) = ''udp''"
    and "\<And>i. edns_udp_size L (r\<lparr>m_id := i\<rparr>) = edns_udp_size L r"
    and "handler L v srv query E r st = Some st'"
  shows "\<exists>reply. dn_written st' = dn_written st @ [reply] \<and>
    (reply = set_rcode L r rcode_server_failure \<or>
     (\<exists>m. reply = truncate_msg L (case edns_udp_size L r of None \<Rightarrow> 512 | Some sz \<Rightarrow> uint sz) m)
     \<and> (\<forall>b. pack_msg L reply = Inr b \<longrightarrow>
          int (length b) \<le> (case edns_udp_size L r of None \<Rightarrow> 512 | Some sz \<Rightarrow> max 512 (uint sz))))"
proof -
  let ?limit = "case edns_udp_size L r of None \<Rightarrow> 512 | Some sz \<Rightarrow> uint sz"
  have limit: "max 512 ?limit = (case edns_udp_size L r of None \<Rightarrow> 512 | Some sz \<Rightarrow> max 512 (uint sz))"
    by (simp split: option.split)
  have cut: "fitted L E (r\<lparr>m_id := i\<rparr>) m = truncate_msg L ?limit m" for i m
    using assms(2,3) by (simp add: fitted_def udp_max_def)
  have own: "fitted L E r m = truncate_msg L ?limit m" for m using cut [of "m_id r" m] by simp
  have fits: "pack_msg L (truncate_msg L ?limit m) = Inr b \<Longrightarrow>
      int (length b) \<le> (case edns_udp_size L r of None \<Rightarrow> 512 | Some sz \<Rightarrow> max 512 (uint sz))" for m b
    using assms(1) unfolding limit [symmetric] replies_documented_def by blast
  from assms(4) show ?thesis
  proof (cases rule: handler_cases)
    case (forwarded a)
    then show ?thesis using fits by (cases "re_exchange E r a") (auto simp: own)
  next
    case (answered w m w')
    then show ?thesis using fits by (auto simp: cut)
  qed simp_all
qed

definition edns_lib :: dns_lib where
  "edns_lib = plain_lib\<lparr>edns_udp_size := (\<lambda>m. Some 1232)\<rparr>"

lemma ex_edns:
  "edns_udp_size plain_lib m = None" "edns_udp_size edns_lib m = Some 1232" "pack_msg edns_lib = pack_msg plain_lib"
  "replies_documented edns_lib"
  using plain_replies by (simp_all add: edns_lib_def plain_lib_def replies_documented_def)

lemma ex_answered:
  "\<exists>st'. handler plain_lib 0 ex_srv ex_query_fn ex_env ex_ask ex_state = Some st' \<and> dn_written st' \<noteq> [set_rcode plain_lib ex_ask rcode_server_failure]"
  "\<exists>st'. handler edns_lib 0 ex_srv ex_query_fn ex_env ex_ask ex_state = Some st' \<and> dn_written st' \<noteq> [set_rcode edns_lib ex_ask rcode_server_failure]"
proof -
  have route: "route_of edns_lib ex_srv ex_ask = ToResolver"
    by (simp add: route_of_def ex_ask_def empty_msg_def get_most_specific_def ex_srv_def Let_def
        edns_lib_def plain_lib_def plain_labels_ab)
  have ask: "\<exists>st'. ask_resolver L 0 ex_query_fn ex_env ex_ask st = Some st'" for L st
    by (simp add: ask_resolver_def ex_query_fn_def)
  then have "\<exists>st'. handler edns_lib 0 ex_srv ex_query_fn ex_env ex_ask ex_state = Some st'"
    by (auto simp: handler_def Let_def split: prod.split)
  then obtain st' where st': "handler edns_lib 0 ex_srv ex_query_fn ex_env ex_ask ex_state = Some st'" by blast
  from handler_routes [OF this] route st'
  show "\<exists>st'. handler edns_lib 0 ex_srv ex_query_fn ex_env ex_ask ex_state = Some st' \<and> dn_written st' \<noteq> [set_rcode edns_lib ex_ask rcode_server_failure]"
    by (auto simp: ex_state_def ex_query_fn_def fitted_def ex_env_def edns_lib_def plain_lib_def udp_max_def empty_msg_def)
  obtain st2 where st2: "handler plain_lib 0 ex_srv ex_query_fn ex_env ex_ask ex_state = Some st2"
    using ex_handler by blast
  from handler_routes [OF this] ex_route st2
  show "\<exists>st'. handler plain_lib 0 ex_srv ex_query_fn ex_env ex_ask ex_state = Some st' \<and> dn_written st' \<noteq> [set_rcode plain_lib ex_ask rcode_server_failure]"
    by (auto simp: ex_state_def ex_query_fn_def fitted_def ex_env_def plain_lib_def udp_max_def empty_msg_def)
qed

theorem handler_fits_udp_witness:
  "(\<exists>st' m. handler plain_lib 0 ex_srv ex_query_fn ex_env ex_ask ex_state = Some st'
      \<and> dn_written st' = [truncate_msg plain_lib 512 m])
   \<and> (\<exists>st' m. handler edns_lib 0 ex_srv ex_query_fn ex_env ex_ask ex_state = Some st'
      \<and> dn_written st' = [truncate_msg edns_lib 1232 m])"
proof -
  have udp: "addr_network (re_remote ex_env) = ''udp''" by (simp add: ex_env_def)
  have same: "edns_udp_size plain_lib (ex_ask\<lparr>m_id := i\<rparr>) = edns_udp_size plain_lib ex_ask"
    "edns_udp_size edns_lib (ex_ask\<lparr>m_id := i\<rparr>) = edns_udp_size edns_lib ex_ask" for i
    by (simp_all add: ex_edns)
  obtain st1 where st1: "handler plain_lib 0 ex_srv ex_query_fn ex_env ex_ask ex_state = Some st1"
      "dn_written st1 \<noteq> [set_rcode plain_lib ex_ask rcode_server_failure]" using ex_answered(1) by blast
  obtain st2 where st2: "handler edns_lib 0 ex_srv ex_query_fn ex_env ex_ask ex_state = Some st2"
      "dn_written st2 \<noteq> [set_rcode edns_lib ex_ask rcode_server_failure]" using ex_answered(2) by blast
  from handler_fits_udp [OF plain_replies udp same(1) st1(1)] handler_fits_udp [OF ex_edns(4) udp same(2) st2(1)] st1 st2
  show ?thesis by (auto simp: ex_edns ex_state_def)
qed

text \<open>
  C31: what is captured for dnstap. When the resolver answers and the queue has room, one record is
  queued, with the reply as it was before it was cut for UDP and under the client's id, but with
  the query under the random id that was sent upstream. Failures are not captured.
\<close>

theorem handler_captures:
  assumes "handler L v srv query E r st = Some st'" and "route_of L srv r = ToResolver"
    and "dn_tap st = Some wr" and "length (wr_ch wr) < channel_capacity"
  shows "\<exists>w res w'. query (r\<lparr>m_id := re_new_id E\<rparr>) (dn_resolver st) w = Some (res, dn_resolver st', w') \<and>
    (case res of
       Inl err \<Rightarrow> dn_tap st' = Some wr
     | Inr m \<Rightarrow> \<exists>rec. dn_tap st' = Some (wr\<lparr>wr_ch := wr_ch wr @ [rec]\<rparr>)
         \<and> tr_response rec = m\<lparr>m_id := m_id r\<rparr> \<and> tr_query rec = r\<lparr>m_id := re_new_id E\<rparr>
         \<and> last (dn_written st') = fitted L E (tr_query rec) (tr_response rec))"
  using assms(1)
proof (cases rule: handler_cases)
  case (answered w m w')
  define rec where "rec = tap_of E (r\<lparr>m_id := re_new_id E\<rparr>) (m\<lparr>m_id := m_id r\<rparr>)"
  have tap: "dn_tap st' = Some (wr\<lparr>wr_ch := wr_ch wr @ [rec]\<rparr>)"
    using answered(4) assms(3,4) by (simp add: capture_def rec_def)
  have rec: "tr_response rec = m\<lparr>m_id := m_id r\<rparr>" "tr_query rec = r\<lparr>m_id := re_new_id E\<rparr>"
      "last (dn_written st') = fitted L E (tr_query rec) (tr_response rec)"
    using answered(3) by (simp_all add: tap_of_def rec_def)
  have "case Inr m of Inl err \<Rightarrow> dn_tap st' = Some wr
     | Inr m \<Rightarrow> \<exists>rec. dn_tap st' = Some (wr\<lparr>wr_ch := wr_ch wr @ [rec]\<rparr>)
         \<and> tr_response rec = m\<lparr>m_id := m_id r\<rparr> \<and> tr_query rec = r\<lparr>m_id := re_new_id E\<rparr>
         \<and> last (dn_written st') = fitted L E (tr_query rec) (tr_response rec)"
    unfolding sum.case by (rule exI [of _ rec]) (intro conjI tap rec)
  with answered(2) show ?thesis by blast
next
  case (failed w err w')
  then have "case Inl err of Inl err \<Rightarrow> dn_tap st' = Some wr | Inr m \<Rightarrow> P m" for P
    using assms(3) by simp
  with failed(3) show ?thesis by blast
qed (use assms(2) in auto)

theorem handler_captures_witness:
  "\<exists>st' rec. handler plain_lib 0 ex_srv ex_query_fn ex_env ex_ask ex_state = Some st'
     \<and> dn_tap st' = Some ((new_writer ''tap'')\<lparr>wr_ch := [rec]\<rparr>)
     \<and> m_id (tr_response rec) = 7 \<and> m_id (tr_query rec) = 99"
proof -
  obtain st' where st': "handler plain_lib 0 ex_srv ex_query_fn ex_env ex_ask ex_state = Some st'"
    using ex_handler by blast
  have w: "dn_tap ex_state = Some (new_writer ''tap'')" "wr_ch (new_writer ''tap'') = []"
    by (simp_all add: ex_state_def new_writer_def case_prod_beta)
  have room: "length (wr_ch (new_writer ''tap'')) < channel_capacity"
    using w(2) by (simp add: channel_capacity_def)
  obtain w res w' where q: "ex_query_fn (ex_ask\<lparr>m_id := re_new_id ex_env\<rparr>) (dn_resolver ex_state) w
        = Some (res, dn_resolver st', w')"
      and rec: "case res of Inl err \<Rightarrow> dn_tap st' = Some (new_writer ''tap'')
        | Inr m \<Rightarrow> \<exists>rec. dn_tap st' = Some ((new_writer ''tap'')\<lparr>wr_ch := wr_ch (new_writer ''tap'') @ [rec]\<rparr>)
         \<and> tr_response rec = m\<lparr>m_id := m_id ex_ask\<rparr> \<and> tr_query rec = ex_ask\<lparr>m_id := re_new_id ex_env\<rparr>
         \<and> last (dn_written st') = fitted plain_lib ex_env (tr_query rec) (tr_response rec)"
    using handler_captures [OF st' ex_route w(1) room] by blast
  from q obtain m where "res = Inr m" by (auto simp: ex_query_fn_def)
  with rec obtain rec where r: "dn_tap st' = Some ((new_writer ''tap'')\<lparr>wr_ch := wr_ch (new_writer ''tap'') @ [rec]\<rparr>)"
      "tr_response rec = m\<lparr>m_id := m_id ex_ask\<rparr>" "tr_query rec = ex_ask\<lparr>m_id := re_new_id ex_env\<rparr>"
    by auto
  have ids: "m_id ex_ask = 7" "re_new_id ex_env = 99" by (simp_all add: ex_ask_def ex_env_def)
  have "dn_tap st' = Some ((new_writer ''tap'')\<lparr>wr_ch := [rec]\<rparr>)" using r(1) w(2) by simp
  moreover have "m_id (tr_response rec) = 7" "m_id (tr_query rec) = 99" by (simp_all add: r(2,3) ids)
  ultimately show ?thesis using st' by blast
qed

end
