(* ===== verification/Server_Stack.thy ===== *)
theory Server_Stack
  imports Dns_Server_Properties
begin

text \<open>
  The DNS server over any resolver, and over the one the program builds: it never panics, writes
  one reply for each query, and its counters add up. The interface asks of a resolver, beside the
  contract of \<open>resolver\<close>, that it leaves the counters of the server alone.
\<close>

section \<open>Resolvers that leave the counters of the server alone\<close>

text \<open>The names of the counters of the DNS server begin with a d, those of the resolver do not.\<close>

definition server_counter :: "string \<Rightarrow> bool" where
  "server_counter n \<longleftrightarrow> n \<noteq> [] \<and> hd n = CHR ''d''"

locale quiet_resolver = resolver query tick rinv
  for query :: "'s query_fn" and tick :: "('s, 'e) tick_fn" and rinv :: "'s \<Rightarrow> bool" +
  assumes query_quiet: "query r s w = Some (res, s', w') \<Longrightarrow> server_counter n \<Longrightarrow> count w' n = count w n"
    and tick_quiet: "tick e s w = Some (s', w') \<Longrightarrow> server_counter n \<Longrightarrow> count w' n = count w n"

lemma count_inc_quiet: "server_counter n \<Longrightarrow> count (inc (CHR ''h'' # m) w) n = count w n"
  by (auto simp: server_counter_def)

lemma count_parse_response:
  "server_counter n \<Longrightarrow> count (snd (parse_response L hr w)) n = count w n"
  by (simp add: parse_response_def Let_def count_inc_quiet del: count_inc split: sum.split)

lemma https_query_quiet:
  assumes "https_query L N v req s w = Some (res, s', w')" and "server_counter n"
  shows "count w' n = count w n"
proof (cases "pack_msg L req")
  case (Inl err)
  with assms(1) show ?thesis
    by (auto simp: https_query_def Let_def count_inc_quiet [OF assms(2)] simp del: count_inc)
next
  case (Inr packed)
  with assms(1) obtain c where c: "hr_client s = Some c"
    by (auto simp: https_query_def Let_def bind_eq_Some_conv)
  show ?thesis
  proof (cases "net_post N (hr_calls s) c (hr_upstream s) ''application/dns-message'' packed")
    case (Inl err)
    with \<open>pack_msg L req = Inr packed\<close> c assms(1) show ?thesis
      by (auto simp: https_query_def Let_def bind_eq_Some_conv count_inc_quiet [OF assms(2)] simp del: count_inc)
  next
    case (Inr hr)
    from Inr \<open>pack_msg L req = Inr packed\<close> c assms(1) show ?thesis
      by (auto simp: https_query_def Let_def bind_eq_Some_conv case_prod_beta
          count_parse_response [OF assms(2)] count_inc_quiet [OF assms(2)] simp del: count_inc)
  qed
qed

lemma https_tick_quiet: "https_tick N e s w = Some (s', w') \<Longrightarrow> count w' n = count w n"
  by (auto simp: https_tick_def bind_eq_Some_conv)

interpretation https_quiet: quiet_resolver "https_query L N v" "https_tick N" https_ready for L N v
  by unfold_locales (auto intro: https_query_quiet https_tick_quiet)

locale quiet_caching = caching_over query tick rinv L cfg + quiet_resolver query tick rinv
  for query :: "'s query_fn" and tick :: "('s, 'e) tick_fn" and rinv :: "'s \<Rightarrow> bool"
    and L :: dns_lib and cfg :: cache_cfg
begin

lemma caching_query_quiet:
  assumes "caching_query L cfg query r c w = Some (res, c', w')" and n: "server_counter n"
  shows "count w' n = count w n"
proof (cases "length (m_question r) = 1")
  case False
  with assms(1) show ?thesis by (auto simp: caching_query_bypass dest!: query_quiet [OF _ n])
next
  case True
  then obtain q where q: "m_question r = [q]" by (auto simp: length_Suc_conv)
  show ?thesis
  proof (cases "map_of (cr_answer c) q")
    case (Some ans)
    with assms(1) show ?thesis by (auto simp: caching_query_hit [OF q])
  next
    case None
    have am: "count (snd (snd (after_miss L cfg q res1 c1 w1))) n = count w1 n" for res1 and c1 :: "'s caching" and w1
      by (auto simp: after_miss_def Let_def split: sum.splits option.splits)
    obtain res1 s1 w1 where q1: "query r (cr_back c) (trace_printf ''cache miss'' w) = Some (res1, s1, w1)"
        and am1: "after_miss L cfg q res1
          (c\<lparr>cr_total := cr_total c + 1, cr_misses := cr_misses c + 1, cr_back := s1\<rparr>) w1 = (res, c', w')"
      using assms(1) by (auto simp: caching_query_miss [OF q None])
    have "count w' n = count w1 n" using am [of res1 _ w1] am1 by (metis snd_conv)
    also have "\<dots> = count w n" using query_quiet [OF q1 n] by simp
    finally show ?thesis .
  qed
qed

lemma caching_tick_quiet:
  assumes "caching_tick cfg tick e c w = Some (c', w')" and n: "server_counter n"
  shows "count w' n = count w n"
proof (cases e)
  case None
  with assms(1) show ?thesis
    by (auto simp: caching_tick_def gc_pass_def Let_def split: option.splits)
next
  case (Some b)
  with assms(1) show ?thesis
    by (auto simp: caching_tick_def bind_eq_Some_conv dest!: tick_quiet [OF _ n])
qed

end

sublocale quiet_caching \<subseteq> cached_quiet: quiet_resolver
    "caching_query L cfg query" "caching_tick cfg tick" "caching_inv cfg rinv"
  by unfold_locales (auto intro: caching_query_quiet caching_tick_quiet)

interpretation cached_https_quiet: quiet_caching "https_query L N v" "https_tick N" https_ready L default_cfg
  for L N v
  by unfold_locales

section \<open>The server over a resolver\<close>

text \<open>The balance of the counters: each query took one of four routes.\<close>

definition routes_balance :: "world \<Rightarrow> i64" where
  "routes_balance w = count w ''dnsserver_queries_total''
     - (count w ''dnsserver_queries_invalid_question_count'' + count w ''dnsserver_queries_override''
        + count w ''dnsserver_queries_unqualified_upstream'' + count w ''dnsserver_queries_resolver'')"

fun is_query :: "'e server_event \<Rightarrow> bool" where
  "is_query (SrvQuery E r) = True"
| "is_query (SrvTick e) = False"

lemma balance_quiet:
  "(\<And>n. server_counter n \<Longrightarrow> count w' n = count w n) \<Longrightarrow> routes_balance w' = routes_balance w"
  by (simp add: routes_balance_def server_counter_def)

lemma balance_trace [simp]:
  "routes_balance (trace_new f t w) = routes_balance w" "routes_balance (trace_printf s w) = routes_balance w"
  "routes_balance (trace_error s w) = routes_balance w" "routes_balance (trace_finish w) = routes_balance w"
  "routes_balance (trace_question L v qs w) = routes_balance w"
  "routes_balance (trace_answer L v m w) = routes_balance w"
  "routes_balance (record_domain d w) = routes_balance w"
  by (simp_all add: routes_balance_def)

lemma balance_inc_other:
  "n \<notin> {''dnsserver_queries_total'', ''dnsserver_queries_invalid_question_count'',
     ''dnsserver_queries_override'', ''dnsserver_queries_unqualified_upstream'',
     ''dnsserver_queries_resolver''} \<Longrightarrow> routes_balance (inc n w) = routes_balance w"
  by (auto simp: routes_balance_def)

lemma balance_inc_total: "routes_balance (inc ''dnsserver_queries_total'' w) = routes_balance w + 1"
  by (simp add: routes_balance_def)

lemma balance_inc_route:
  "n \<in> {''dnsserver_queries_invalid_question_count'', ''dnsserver_queries_override'',
     ''dnsserver_queries_unqualified_upstream'', ''dnsserver_queries_resolver''} \<Longrightarrow>
     routes_balance (inc n w) = routes_balance w - 1"
  by (auto simp: routes_balance_def)

lemma balance_write_reply [simp]:
  "routes_balance (dn_world (write_reply L E r m st)) = routes_balance (dn_world st)"
  by (simp add: write_reply_def write_msg_def Let_def balance_inc_other)

lemma balance_fold_printf [simp]:
  "routes_balance (dn_world (fold (\<lambda>x. on_world (trace_printf x)) xs st)) = routes_balance (dn_world st)"
  by (induction xs arbitrary: st) simp_all

lemma balance_forward:
  "ctr = ''dnsserver_errors_override'' \<or> ctr = ''dnsserver_errors_unqualified_upstream'' \<Longrightarrow>
     routes_balance (dn_world (forward L v E server notes c ctr r st)) = routes_balance (dn_world st)"
  by (auto simp: forward_def Let_def balance_inc_other split: sum.split)

lemma balance_receive:
  "routes_balance (dn_world (receive L v E r st)) = routes_balance (dn_world st) + 1"
  by (simp add: receive_def Let_def balance_inc_other balance_inc_total)

lemma balance_count_question:
  "routes_balance (dn_world (count_question q st)) = routes_balance (dn_world st)"
  by (simp add: count_question_def Let_def balance_inc_other)

locale dns_frontend = quiet_resolver query tick rinv
  for query :: "'s query_fn" and tick :: "('s, 'e) tick_fn" and rinv :: "'s \<Rightarrow> bool" +
  fixes L :: dns_lib and v :: nat and srv :: dns_server
begin

lemma ask_resolver_total:
  assumes "rinv (dn_resolver st)"
  shows "\<exists>st'. ask_resolver L v query E r st = Some st' \<and> rinv (dn_resolver st')
    \<and> routes_balance (dn_world st') = routes_balance (dn_world st) - 1"
proof -
  define st1 where "st1 = st_inc ''dnsserver_queries_resolver'' st"
  have inv: "rinv (dn_resolver st1)" using assms by (simp add: st1_def)
  obtain res s w where q: "query (r\<lparr>m_id := re_new_id E\<rparr>) (dn_resolver st1) (dn_world st1) = Some (res, s, w)" "rinv s"
    using query_total [OF inv] by blast
  have "routes_balance w = routes_balance (dn_world st1)"
    by (rule balance_quiet) (rule query_quiet [OF q(1)])
  also have "\<dots> = routes_balance (dn_world st) - 1"
    by (simp add: st1_def balance_inc_route)
  finally have bal: "routes_balance w = routes_balance (dn_world st) - 1" .
  from q show ?thesis
    by (cases res) (simp_all add: ask_resolver_def Let_def st1_def bal balance_inc_other)
qed

lemma handler_total:
  assumes "rinv (dn_resolver st)"
  shows "\<exists>st'. handler L v srv query E r st = Some st' \<and> rinv (dn_resolver st')
    \<and> routes_balance (dn_world st') = routes_balance (dn_world st)"
proof (cases "length (m_question r) = 1")
  case False
  then show ?thesis
    using assms by (simp add: handler_def Let_def balance_receive balance_inc_other balance_inc_route)
next
  case True
  obtain a ok where gms: "get_most_specific L (ds_server_overrides srv) (q_name (hd (m_question r))) = (a, ok)"
    by (cases "get_most_specific L (ds_server_overrides srv) (q_name (hd (m_question r)))")
  define st1 where "st1 = count_question (hd (m_question r)) (receive L v E r st)"
  have st1: "rinv (dn_resolver st1)" "routes_balance (dn_world st1) = routes_balance (dn_world st) + 1"
    using assms by (simp_all add: st1_def balance_receive balance_count_question)
  obtain st2 where st2: "ask_resolver L v query E r st1 = Some st2" "rinv (dn_resolver st2)"
      "routes_balance (dn_world st2) = routes_balance (dn_world st)"
    using ask_resolver_total [OF st1(1), of E r] st1(2) by auto
  from True gms st1 st2 show ?thesis
    by (auto simp: handler_def Let_def balance_forward balance_inc_route simp flip: st1_def)
qed

lemma server_step_total:
  assumes "rinv (dn_resolver st)"
  shows "\<exists>st'. server_step L v srv query tick e st = Some st' \<and> rinv (dn_resolver st')
    \<and> routes_balance (dn_world st') = routes_balance (dn_world st)
    \<and> length (dn_written st') = length (dn_written st) + (if is_query e then 1 else 0)"
proof (cases e)
  case (SrvQuery E r)
  obtain st' where st': "handler L v srv query E r st = Some st'" "rinv (dn_resolver st')"
      "routes_balance (dn_world st') = routes_balance (dn_world st)"
    using handler_total [OF assms] by blast
  moreover have "length (dn_written st') = length (dn_written st) + 1"
    using st'(1) by (cases rule: handler_cases) simp_all
  ultimately show ?thesis using SrvQuery by simp
next
  case (SrvTick e')
  obtain s w where t: "tick e' (dn_resolver st) (dn_world st) = Some (s, w)" "rinv s"
    using tick_total [OF assms] by blast
  have "routes_balance w = routes_balance (dn_world st)"
    by (rule balance_quiet) (rule tick_quiet [OF t(1)])
  with t SrvTick show ?thesis by simp
qed

lemma server_run_total:
  "rinv (dn_resolver st) \<Longrightarrow>
    \<exists>st'. server_run L v srv query tick es st = Some st' \<and> rinv (dn_resolver st')
    \<and> routes_balance (dn_world st') = routes_balance (dn_world st)
    \<and> length (dn_written st') = length (dn_written st) + length (filter is_query es)"
proof (induction es arbitrary: st)
  case Nil
  then show ?case by simp
next
  case (Cons e es)
  from server_step_total [OF Cons.prems, of e] obtain st1 where
      st1: "server_step L v srv query tick e st = Some st1" "rinv (dn_resolver st1)"
      "routes_balance (dn_world st1) = routes_balance (dn_world st)"
      "length (dn_written st1) = length (dn_written st) + (if is_query e then 1 else 0)"
    by blast
  from Cons.IH [OF st1(2)] st1 show ?case by (auto split: if_splits)
qed

end

section \<open>The server of the program\<close>

interpretation dnss: dns_frontend
    "caching_query L default_cfg (https_query L N v)" "caching_tick default_cfg (https_tick N)"
    "caching_inv default_cfg https_ready" L v srv
  for L N v srv
  by (intro dns_frontend.intro cached_https_quiet.cached_quiet.quiet_resolver_axioms)

end
