(* ===== verification/Go_Base64.thy ===== *)
theory Go_Base64
  imports Go_Format
begin

text \<open>
  \<^verbatim>\<open>base64.RawURLEncoding\<close>: \<^verbatim>\<open>DecodeString\<close> with its errors, as Go decodes it (line breaks are
  skipped, bits left over at the end are not checked), the encoding, and that decoding inverts it.
\<close>

definition b64_val :: "char \<Rightarrow> nat option" where
  "b64_val c =
     (let n = of_char c :: nat in
      if 65 \<le> n \<and> n \<le> 90 then Some (n - 65)
      else if 97 \<le> n \<and> n \<le> 122 then Some (n - 71)
      else if 48 \<le> n \<and> n \<le> 57 then Some (n + 4)
      else if c = CHR ''-'' then Some 62
      else if c = CHR ''_'' then Some 63
      else None)"

definition b64_char :: "nat \<Rightarrow> char" where
  "b64_char v =
     (if v < 26 then char_of (v + 65)
      else if v < 52 then char_of (v + 71)
      else if v < 62 then char_of (v - 4)
      else if v = 62 then CHR ''-'' else CHR ''_'')"

definition corrupt_input :: "nat \<Rightarrow> string" where
  "corrupt_input pos = ''illegal base64 data at input byte '' @ show_nat pos"

text \<open>The digits of the current group of four, at most three, and the position in the text.\<close>

fun b64_scan :: "nat \<Rightarrow> nat list \<Rightarrow> string \<Rightarrow> string + bytes" where
  "b64_scan pos ds [] =
     (case ds of
        [] \<Rightarrow> Inr []
      | [a] \<Rightarrow> Inl (corrupt_input (pos - 1))
      | [a, b] \<Rightarrow> Inr [of_nat (a * 4 + b div 16)]
      | (a # b # c # _) \<Rightarrow> Inr [of_nat (a * 4 + b div 16), of_nat (b mod 16 * 16 + c div 4)])"
| "b64_scan pos ds (x # xs) =
     (if x = CHR 0x0A \<or> x = CHR 0x0D then b64_scan (pos + 1) ds xs
      else (case b64_val x of
              None \<Rightarrow> Inl (corrupt_input pos)
            | Some d \<Rightarrow>
                (case ds of
                   [a, b, c] \<Rightarrow>
                     map_sum id (\<lambda>rest. [of_nat (a * 4 + b div 16), of_nat (b mod 16 * 16 + c div 4),
                         of_nat (c mod 4 * 64 + d)] @ rest)
                       (b64_scan (pos + 1) [] xs)
                 | _ \<Rightarrow> b64_scan (pos + 1) (ds @ [d]) xs)))"

definition b64_decode :: "string \<Rightarrow> string + bytes" where
  "b64_decode s = b64_scan 0 [] s"

fun b64_encode :: "bytes \<Rightarrow> string" where
  "b64_encode [] = []"
| "b64_encode [x] = [b64_char (unat x div 4), b64_char (unat x mod 4 * 16)]"
| "b64_encode [x, y] =
     [b64_char (unat x div 4), b64_char (unat x mod 4 * 16 + unat y div 16), b64_char (unat y mod 16 * 4)]"
| "b64_encode (x # y # z # rest) =
     [b64_char (unat x div 4), b64_char (unat x mod 4 * 16 + unat y div 16),
      b64_char (unat y mod 16 * 4 + unat z div 64), b64_char (unat z mod 64)] @ b64_encode rest"

section \<open>Decoding inverts encoding\<close>

lemma b64_char_val: "v < 64 \<Longrightarrow> b64_val (b64_char v) = Some v"
  by (auto simp: b64_val_def b64_char_def of_char_of Let_def)

lemma b64_char_no_break: "v < 64 \<Longrightarrow> b64_char v \<noteq> CHR 0x0A \<and> b64_char v \<noteq> CHR 0x0D"
  using b64_char_val [of v] by (auto simp: b64_val_def)

lemma unat_u8: "unat (x :: u8) < 256"
  using unsigned_less [of x, where ?'a = nat] by simp

lemma b64_scan_char:
  "v < 64 \<Longrightarrow> length ds < 3 \<Longrightarrow> b64_scan pos ds (b64_char v # xs) = b64_scan (pos + 1) (ds @ [v]) xs"
  using b64_char_no_break [of v]
  by (auto simp: b64_char_val length_Suc_conv less_Suc_eq numeral_3_eq_3 split: list.split)

lemma b64_scan_last_char:
  "d < 64 \<Longrightarrow> b64_scan (Suc pos) [] xs = Inr rest \<Longrightarrow> b64_scan pos [a, b, c] (b64_char d # xs) =
     Inr ([of_nat (a * 4 + b div 16), of_nat (b mod 16 * 16 + c div 4), of_nat (c mod 4 * 64 + d)] @ rest)"
  using b64_char_no_break [of d] by (simp add: b64_char_val del: of_nat_add of_nat_mult)

lemma join_digits:
  "q < n \<Longrightarrow> (a * n + q) div n = (a :: nat)" "q < n \<Longrightarrow> (a * n + q) mod n = q"
  by simp_all

lemma u8_parts:
  fixes x :: u8
  shows "unat x div 4 < 64" "unat x mod 4 < 4" "unat x div 16 < 16" "unat x mod 16 < 16"
    "unat x div 64 < 4" "unat x mod 64 < 64"
  using unat_u8 [of x] by (simp_all add: less_mult_imp_div_less)

lemma b64_digit_bounds:
  fixes x y z :: u8
  shows "unat x mod 4 * 16 < 64" "unat x mod 4 * 16 + unat y div 16 < 64"
    "unat y mod 16 * 4 < 64" "unat y mod 16 * 4 + unat z div 64 < 64"
  using u8_parts [of x] u8_parts [of y] u8_parts [of z] by linarith+

lemma b64_joined:
  fixes x y z :: u8
  shows "(of_nat (unat x div 4 * 4 + (unat x mod 4 * 16) div 16) :: u8) = x"
    "(of_nat (unat x div 4 * 4 + (unat x mod 4 * 16 + unat y div 16) div 16) :: u8) = x"
    "(of_nat ((unat x mod 4 * 16 + unat y div 16) mod 16 * 16 + (unat y mod 16 * 4) div 4) :: u8) = y"
    "(of_nat ((unat x mod 4 * 16 + unat y div 16) mod 16 * 16 + (unat y mod 16 * 4 + unat z div 64) div 4) :: u8) = y"
    "(of_nat ((unat y mod 16 * 4 + unat z div 64) mod 4 * 64 + unat z mod 64) :: u8) = z"
proof -
  have w: "(of_nat n :: u8) = u" if "n = unat u" for n u using that by simp
  show "(of_nat (unat x div 4 * 4 + (unat x mod 4 * 16) div 16) :: u8) = x" by (rule w) simp
  show "(of_nat (unat x div 4 * 4 + (unat x mod 4 * 16 + unat y div 16) div 16) :: u8) = x"
    by (rule w) (simp only: join_digits u8_parts div_mult_mod_eq)
  show "(of_nat ((unat x mod 4 * 16 + unat y div 16) mod 16 * 16 + (unat y mod 16 * 4) div 4) :: u8) = y"
    by (rule w) (simp only: join_digits u8_parts div_mult_mod_eq, simp)
  show "(of_nat ((unat x mod 4 * 16 + unat y div 16) mod 16 * 16 + (unat y mod 16 * 4 + unat z div 64) div 4) :: u8) = y"
    by (rule w) (simp only: join_digits u8_parts div_mult_mod_eq)
  show "(of_nat ((unat y mod 16 * 4 + unat z div 64) mod 4 * 64 + unat z mod 64) :: u8) = z"
    by (rule w) (simp only: join_digits u8_parts div_mult_mod_eq)
qed

lemma b64_scan_encode: "b64_scan pos [] (b64_encode bs) = Inr bs"
proof (induction bs arbitrary: pos rule: b64_encode.induct)
  case 1
  then show ?case by simp
next
  case (2 x)
  show ?case
    by (simp add: b64_scan_char u8_parts b64_digit_bounds b64_joined del: of_nat_add of_nat_mult b64_scan.simps(2))
next
  case (3 x y)
  show ?case
    by (simp add: b64_scan_char u8_parts b64_digit_bounds b64_joined del: of_nat_add of_nat_mult b64_scan.simps(2))
next
  case (4 x y z rest)
  have last: "b64_scan p [a, b, c] (b64_char (unat z mod 64) # b64_encode rest) =
      Inr ([of_nat (a * 4 + b div 16), of_nat (b mod 16 * 16 + c div 4), of_nat (c mod 4 * 64 + unat z mod 64)] @ rest)"
    for p a b c
    by (rule b64_scan_last_char [OF u8_parts(6) 4])
  show ?case
    by (simp add: last b64_scan_char u8_parts b64_digit_bounds b64_joined del: of_nat_add of_nat_mult b64_scan.simps(2))
qed

text \<open>A byte string survives the way through its text.\<close>

lemma b64_decode_encode: "b64_decode (b64_encode bs) = Inr bs"
  by (simp add: b64_decode_def b64_scan_encode)

lemma b64_encode_Nil_iff: "b64_encode bs = [] \<longleftrightarrow> bs = []"
  by (cases bs rule: b64_encode.cases) simp_all

end
