(* ===== verification/Http_Server.thy ===== *)
theory Http_Server
  imports Dnss_Trace Go_Base64 Go_Mime Https_Resolver
begin

text \<open>
  \<^verbatim>\<open>internal/httpserver/server.go\<close>: DNS over HTTPS and the JSON API. A request is what \<^verbatim>\<open>net/http\<close>
  hands to the handler, its form as the pairs \<^verbatim>\<open>ParseForm\<close> finds. What a request gets from
  outside is the \<open>http_env\<close>: the exchange with a DNS server over a transport, whether writing the
  response works, and \<^verbatim>\<open>fmt\<close>'s text of a message header. \<open>None\<close> is a panic, which \<^verbatim>\<open>net/http\<close>
  contains.
\<close>

section \<open>Requests and responses\<close>

record http_request =
  rq_method :: string
  rq_remote_addr :: string
  rq_form :: "(string \<times> string) list"
  rq_content_type :: string
  rq_body :: bytes
  rq_read_error :: "string option"

record http_reply =
  rp_status :: int
  rp_content_type :: string
  rp_body :: bytes

text \<open>An error of an exchange, and whether it is a \<^verbatim>\<open>net.Error\<close> that timed out.\<close>

record exchange_error =
  xe_text :: string
  xe_timeout :: bool

record http_env =
  he_exchange :: "string \<Rightarrow> duration \<Rightarrow> msg \<Rightarrow> string \<Rightarrow> exchange_error + msg option"
  he_write_ok :: bool
  he_header_text :: "msg \<Rightarrow> string"
  he_new_id :: u16

record http_state =
  hs_world :: world
  hs_replies :: "http_reply list"

definition on_hs_world :: "(world \<Rightarrow> world) \<Rightarrow> http_state \<Rightarrow> http_state" where
  "on_hs_world f st = st\<lparr>hs_world := f (hs_world st)\<rparr>"

abbreviation hs_inc :: "string \<Rightarrow> http_state \<Rightarrow> http_state" where
  "hs_inc name \<equiv> on_hs_world (inc name)"

abbreviation hs_printf :: "string \<Rightarrow> http_state \<Rightarrow> http_state" where
  "hs_printf s \<equiv> on_hs_world (trace_printf s)"

definition reply_bytes :: "string \<Rightarrow> bytes" where
  "reply_bytes s = map (\<lambda>c. of_nat (of_char c)) s"

definition send :: "http_reply \<Rightarrow> http_state \<Rightarrow> http_state" where
  "send rp st = st\<lparr>hs_replies := hs_replies st @ [rp]\<rparr>"

text \<open>\<^verbatim>\<open>http.Error\<close>.\<close>

definition http_error :: "string \<Rightarrow> int \<Rightarrow> http_state \<Rightarrow> http_state" where
  "http_error err status st =
     send \<lparr>rp_status = status, rp_content_type = ''text/plain; charset=utf-8'',
       rp_body = reply_bytes (err @ [CHR 0x0A])\<rparr> st"

definition form_value :: "http_request \<Rightarrow> string \<Rightarrow> string" where
  "form_value req key = (case map_of (rq_form req) key of None \<Rightarrow> [] | Some v \<Rightarrow> v)"

section \<open>The TLS error counter\<close>

text \<open>\<^verbatim>\<open>Write\<close>: the count and the error it returns; the fallback is a function, or absent.\<close>

definition tls_counter_write ::
    "(string \<Rightarrow> int \<times> string option) option \<Rightarrow> string \<Rightarrow> world \<Rightarrow> (int \<times> string option) \<times> world" where
  "tls_counter_write fallback p w =
     (if contains_sub p ''http: TLS handshake error''
      then ((int (length p), None), inc ''httpserver_tls_handshake_errors_total'' w)
      else (case fallback of
              None \<Rightarrow> ((int (length p), None), w)
            | Some f \<Rightarrow>
                (let (n, err) = f p;
                     n = (if n < int (length p) \<and> err = None then int (length p) else n)
                 in ((n, err), w))))"

section \<open>The exchange with the upstream\<close>

abbreviation (input) upstream_timeout :: duration where "upstream_timeout \<equiv> 4 * second"

definition exchange :: "http_env \<Rightarrow> msg \<Rightarrow> string \<Rightarrow> http_state
    \<Rightarrow> ((exchange_error + msg option) \<times> http_state) option" where
  "exchange E r addr st =
     (case he_exchange E ''udp'' upstream_timeout r addr of
        Inl err \<Rightarrow> Some (Inl err, hs_printf (''error on UDP exchange: '' @ xe_text err) st)
      | Inr None \<Rightarrow> None
      | Inr (Some reply) \<Rightarrow>
          if \<not> m_truncated reply then Some (Inr (Some reply), hs_printf ''UDP exchange successful'' st)
          else (let st = hs_printf (''UDP exchange returned truncated reply: '' @ he_header_text E reply) st;
                    st = hs_printf ''retrying on TCP'' st
                in Some (he_exchange E ''tcp'' upstream_timeout r addr, st)))"

definition dns_exchange_http_error :: "exchange_error \<Rightarrow> http_state \<Rightarrow> (int \<times> string) \<times> http_state" where
  "dns_exchange_http_error err st =
     (if xe_timeout err
      then ((504, ''upstream DNS server timed out''), hs_inc ''httpserver_errors_dns_exchange_timeout'' st)
      else ((502, ''upstream DNS exchange failed''), st))"

section \<open>DNS over HTTPS\<close>

definition write_dns_response :: "http_env \<Rightarrow> bytes \<Rightarrow> http_state \<Rightarrow> http_state" where
  "write_dns_response E packed st =
     (let st = send \<lparr>rp_status = 200, rp_content_type = ''application/dns-message'', rp_body = packed\<rparr> st
      in if \<not> he_write_ok E then hs_inc ''httpserver_errors_write_response'' st else st)"

definition servfail :: "dns_lib \<Rightarrow> msg \<Rightarrow> bytes" where
  "servfail L req = (case pack_msg L (set_rcode L req rcode_server_failure) of Inl err \<Rightarrow> [] | Inr packed \<Rightarrow> packed)"

text \<open>The two failures of an exchange, and the response to an answer.\<close>

definition exchange_failed :: "exchange_error \<Rightarrow> http_state \<Rightarrow> http_state" where
  "exchange_failed err st =
     (let st = hs_inc ''httpserver_errors_dns_exchange'' st;
          ((status, text), st) = dns_exchange_http_error err st;
          st = on_hs_world (trace_errorf (''dns exchange error: '' @ xe_text err)) st
      in http_error text status st)"

definition no_upstream_response :: "http_state \<Rightarrow> http_state" where
  "no_upstream_response st =
     (let st = hs_inc ''httpserver_errors_no_upstream_response'' st;
          st = on_hs_world (trace_errorf ''no response from upstream'') st
      in http_error ''no response from upstream'' 408 st)"

definition doh_respond :: "dns_lib \<Rightarrow> nat \<Rightarrow> http_env \<Rightarrow> msg \<Rightarrow> exchange_error + msg option \<Rightarrow> http_state \<Rightarrow> http_state" where
  "doh_respond L v E r res st =
     (case res of
        Inl err \<Rightarrow> exchange_failed err st
      | Inr None \<Rightarrow> no_upstream_response st
      | Inr (Some fromUp) \<Rightarrow>
          (let st = on_hs_world (trace_answer L v fromUp) st;
               st = hs_inc ''httpserver_responses_total'' st;
               st = hs_inc (''httpserver_responses_rcode_'' @ show_int (m_rcode fromUp)) st
           in case pack_msg L fromUp of
                Inl err \<Rightarrow>
                  (let st = hs_inc ''httpserver_errors_pack_reply'' st;
                       st = on_hs_world (trace_errorf (''cannot pack upstream reply: '' @ err)) st
                   in write_dns_response E (servfail L r) st)
              | Inr packed \<Rightarrow> write_dns_response E packed st))"

definition resolve_doh :: "dns_lib \<Rightarrow> nat \<Rightarrow> http_env \<Rightarrow> string \<Rightarrow> bytes \<Rightarrow> http_state \<Rightarrow> http_state option" where
  "resolve_doh L v E upstream dnsQuery st =
     (case unpack_msg L dnsQuery of
        Inl err \<Rightarrow>
          (let st = hs_inc ''httpserver_errors_unpack_dns_query'' st;
               st = hs_printf (''invalid DNS query: '' @ err) st
           in Some (http_error ''invalid DNS query'' 400 st))
      | Inr r \<Rightarrow>
          (let st = on_hs_world (trace_question L v (m_question r)) st;
               st = (if length (m_question r) = 1 then
                       (let q = hd (m_question r);
                            st = on_hs_world (record_domain (q_name q)) st;
                            st = hs_inc (''httpserver_queries_qtype_'' @ show_nat (unat (q_type q))) st
                        in hs_inc (''httpserver_queries_qclass_'' @ show_nat (unat (q_class q))) st)
                     else st)
           in do {
             (res, st) \<leftarrow> exchange E r upstream st;
             Some (doh_respond L v E r res st)
           }))"

section \<open>The JSON API\<close>

record json_rr =
  jr_name :: string
  jr_type :: u16
  jr_ttl :: "u32 option"
  jr_data :: string

record json_message =
  jm_status :: int
  jm_tc :: bool
  jm_rd :: bool
  jm_ra :: bool
  jm_ad :: bool
  jm_cd :: bool
  jm_question :: "json_rr list"
  jm_answer :: "json_rr list"

definition query_type :: "dns_lib \<Rightarrow> string \<Rightarrow> string + u16" where
  "query_type L qtype =
     (if qtype = [] then Inr type_A
      else (case parse_uint 16 qtype of
              Some n \<Rightarrow> Inr (of_nat n)
            | None \<Rightarrow>
                (case string_to_type L (to_upper qtype) of
                   Some t \<Rightarrow> Inr t
                 | None \<Rightarrow> Inl (''unknown DNS query type '' @ quote qtype))))"

definition rr_data_text :: "dns_lib \<Rightarrow> rr \<Rightarrow> string" where
  "rr_data_text L rr =
     (let fields = go_fields (rr_string L rr) in
      if length fields \<le> 4 then [] else join '' '' (drop 4 fields))"

definition new_json_message :: "dns_lib \<Rightarrow> msg \<Rightarrow> json_message" where
  "new_json_message L m =
     \<lparr>jm_status = m_rcode m, jm_tc = m_truncated m, jm_rd = m_recursion_desired m,
      jm_ra = m_recursion_available m, jm_ad = m_authenticated_data m, jm_cd = m_checking_disabled m,
      jm_question = map (\<lambda>q. \<lparr>jr_name = q_name q, jr_type = q_type q, jr_ttl = None, jr_data = []\<rparr>) (m_question m),
      jm_answer = map (\<lambda>a. \<lparr>jr_name = rr_name a, jr_type = rr_type a, jr_ttl = Some (rr_ttl a),
         jr_data = rr_data_text L a\<rparr>) (m_answer m)\<rparr>"

text \<open>\<^verbatim>\<open>json.NewEncoder(w).Encode\<close>, with the names and \<^verbatim>\<open>omitempty\<close> of the struct tags.\<close>

definition json_bool :: "bool \<Rightarrow> string" where
  "json_bool b = (if b then ''true'' else ''false'')"

definition json_key :: "string \<Rightarrow> string \<Rightarrow> string" where
  "json_key k v = json_string k @ '':'' @ v"

definition json_rr_text :: "json_rr \<Rightarrow> string" where
  "json_rr_text j = ''{'' @ join '','' (
     [json_key ''name'' (json_string (jr_name j)), json_key ''type'' (show_nat (unat (jr_type j)))]
     @ (case jr_ttl j of None \<Rightarrow> [] | Some t \<Rightarrow> [json_key ''TTL'' (show_nat (unat t))])
     @ (if jr_data j = [] then [] else [json_key ''data'' (json_string (jr_data j))])) @ ''}''"

definition json_array :: "string list \<Rightarrow> string" where
  "json_array xs = ''['' @ join '','' xs @ '']''"

definition json_message_text :: "json_message \<Rightarrow> string" where
  "json_message_text j = ''{'' @ join '','' (
     [json_key ''Status'' (show_int (jm_status j)), json_key ''TC'' (json_bool (jm_tc j)),
      json_key ''RD'' (json_bool (jm_rd j)), json_key ''RA'' (json_bool (jm_ra j)),
      json_key ''AD'' (json_bool (jm_ad j)), json_key ''CD'' (json_bool (jm_cd j))]
     @ (if jm_question j = [] then [] else [json_key ''Question'' (json_array (map json_rr_text (jm_question j)))])
     @ (if jm_answer j = [] then [] else [json_key ''Answer'' (json_array (map json_rr_text (jm_answer j)))]))
     @ ''}'' @ [CHR 0x0A]"

definition json_respond :: "dns_lib \<Rightarrow> http_env \<Rightarrow> exchange_error + msg option \<Rightarrow> http_state \<Rightarrow> http_state" where
  "json_respond L E res st =
     (case res of
        Inl err \<Rightarrow> exchange_failed err st
      | Inr None \<Rightarrow> no_upstream_response st
      | Inr (Some fromUp) \<Rightarrow>
          (let st = send \<lparr>rp_status = 200, rp_content_type = ''application/dns-json'',
                      rp_body = reply_bytes (json_message_text (new_json_message L fromUp))\<rparr> st
           in if \<not> he_write_ok E then hs_inc ''httpserver_errors_write_response'' st else st))"

definition resolve_json :: "dns_lib \<Rightarrow> nat \<Rightarrow> http_env \<Rightarrow> string \<Rightarrow> http_request \<Rightarrow> http_state \<Rightarrow> http_state option" where
  "resolve_json L v E upstream req st =
     (case query_type L (form_value req ''type'') of
        Inl err \<Rightarrow>
          (let st = on_hs_world (trace_error err) st;
               st = hs_inc ''httpserver_errors_json_query_type'' st
           in Some (http_error err 400 st))
      | Inr qtype \<Rightarrow>
          (let r = set_question L (he_new_id E) (fqdn L (form_value req ''name'')) qtype;
               r = (if form_value req ''cd'' = ''1'' \<or> equal_fold (form_value req ''cd'') ''true''
                    then r\<lparr>m_checking_disabled := True\<rparr> else r)
           in do {
             (res, st) \<leftarrow> exchange E r upstream st;
             Some (json_respond L E res st)
           }))"

section \<open>The handler\<close>

definition unknown_request :: "http_state \<Rightarrow> http_state" where
  "unknown_request st =
     (let st = on_hs_world (trace_errorf ''unknown request type'') st;
          st = hs_inc ''httpserver_errors_unknown_request_type'' st
      in http_error ''unknown request type'' 415 st)"

definition bad_request :: "string \<Rightarrow> string \<Rightarrow> http_state \<Rightarrow> http_state" where
  "bad_request ctr err st =
     (let st = on_hs_world (trace_error err) st;
          st = hs_inc ctr st
      in http_error err 400 st)"

definition resolve :: "dns_lib \<Rightarrow> nat \<Rightarrow> http_env \<Rightarrow> string \<Rightarrow> http_request \<Rightarrow> http_state \<Rightarrow> http_state option" where
  "resolve L v E upstream req st =
     (let st = hs_inc ''httpserver_requests_total'' st;
          st = hs_inc (''httpserver_requests_method_'' @ rq_method req) st;
          st = on_hs_world (trace_new ''httpserver'' ''/resolve'') st;
          st = hs_printf (''from:'' @ rq_remote_addr req) st;
          st = hs_printf (''method:'' @ rq_method req) st
      in map_option (on_hs_world trace_finish)
        (if rq_method req = ''GET'' \<and> form_value req ''dns'' \<noteq> [] then
           (let st = hs_printf ''DoH:GET'' st;
                st = hs_inc ''httpserver_doh_get'' st
            in case b64_decode (form_value req ''dns'') of
                 Inl err \<Rightarrow> Some (bad_request ''httpserver_errors_decode_get'' err st)
               | Inr dnsQuery \<Rightarrow> resolve_doh L v E upstream dnsQuery st)
         else if rq_method req = ''GET'' \<and> form_value req ''name'' \<noteq> [] then
           (let st = hs_printf ''JSON:GET'' st;
                st = hs_inc ''httpserver_json_get'' st
            in resolve_json L v E upstream req st)
         else if rq_method req = ''POST'' then
           (case parse_media_type (rq_content_type req) of
              Inl err \<Rightarrow> Some (bad_request ''httpserver_errors_content_type'' err st)
            | Inr ct \<Rightarrow>
                if ct = ''application/dns-message'' then
                  (let st = hs_printf ''DoH:POST'' st;
                       st = hs_inc ''httpserver_doh_post'' st
                   in case read_limited 4092 (rq_body req) (rq_read_error req) of
                        Inl err \<Rightarrow> Some (bad_request ''httpserver_errors_read_body'' err st)
                      | Inr dnsQuery \<Rightarrow> resolve_doh L v E upstream dnsQuery st)
                else Some (unknown_request st))
         else Some (unknown_request st)))"

end
