(* ===== verification/Go_Mux.thy ===== *)
theory Go_Mux
  imports Go_Text
begin

text \<open>
  \<^verbatim>\<open>http.ServeMux\<close> for the patterns the program registers: an optional method and a path without
  wildcards, which stands for itself or, with a slash at its end, for all paths below it. The most
  specific pattern that matches a request gets it. Registering a pattern that conflicts with one
  already there panics (\<open>None\<close>). Paths are without percent escapes.
\<close>

section \<open>Patterns\<close>

record 'h mux_route =
  rt_method :: "string option"
  rt_path :: string
  rt_handler :: 'h

definition path_covers :: "string \<Rightarrow> string \<Rightarrow> bool" where
  "path_covers p q \<longleftrightarrow> p = q \<or> has_suffix p ''/'' \<and> has_prefix q p"

text \<open>A pattern for GET is also for HEAD.\<close>

definition method_covers :: "string option \<Rightarrow> string option \<Rightarrow> bool" where
  "method_covers m m' \<longleftrightarrow> m = None \<or> m = m' \<or> m = Some ''GET'' \<and> m' = Some ''HEAD''"

definition covers :: "'h mux_route \<Rightarrow> 'h mux_route \<Rightarrow> bool" where
  "covers a b \<longleftrightarrow> method_covers (rt_method a) (rt_method b) \<and> path_covers (rt_path a) (rt_path b)"

text \<open>Some request matches both, and neither is more specific than the other.\<close>

definition conflict :: "'h mux_route \<Rightarrow> 'h mux_route \<Rightarrow> bool" where
  "conflict a b \<longleftrightarrow> (method_covers (rt_method a) (rt_method b) \<or> method_covers (rt_method b) (rt_method a))
     \<and> (path_covers (rt_path a) (rt_path b) \<or> path_covers (rt_path b) (rt_path a))
     \<and> covers a b = covers b a"

definition mux_register :: "'h mux_route list \<Rightarrow> 'h mux_route \<Rightarrow> 'h mux_route list option" where
  "mux_register mux r = (if list_ex (conflict r) mux then None else Some (mux @ [r]))"

fun mux_register_all :: "'h mux_route list \<Rightarrow> 'h mux_route list \<Rightarrow> 'h mux_route list option" where
  "mux_register_all mux [] = Some mux"
| "mux_register_all mux (r # rs) =
     (case mux_register mux r of None \<Rightarrow> None | Some mux' \<Rightarrow> mux_register_all mux' rs)"

section \<open>Requests\<close>

definition route_matches :: "string \<Rightarrow> string \<Rightarrow> 'h mux_route \<Rightarrow> bool" where
  "route_matches m p r \<longleftrightarrow> method_covers (rt_method r) (Some m) \<and> path_covers (rt_path r) p"

definition more_specific :: "('a \<Rightarrow> 'a \<Rightarrow> bool) \<Rightarrow> 'a \<Rightarrow> 'a option \<Rightarrow> 'a option" where
  "more_specific cov r best = (case best of None \<Rightarrow> Some r | Some b \<Rightarrow> Some (if cov b r then r else b))"

definition mux_match :: "'h mux_route list \<Rightarrow> string \<Rightarrow> string \<Rightarrow> 'h mux_route option" where
  "mux_match mux m p = fold (more_specific covers) (filter (route_matches m p) mux) None"

text \<open>\<^verbatim>\<open>path.Clean\<close> of a rooted path, and \<^verbatim>\<open>cleanPath\<close>, which keeps the slash at the end.\<close>

definition clean_step :: "string \<Rightarrow> string list \<Rightarrow> string list" where
  "clean_step e out = (if e = [] \<or> e = ''.'' then out else if e = ''..'' then tl out else e # out)"

definition path_clean :: "string \<Rightarrow> string" where
  "path_clean p = ''/'' @ join ''/'' (rev (fold clean_step (split_char (CHR ''/'') p) []))"

definition clean_path :: "string \<Rightarrow> string" where
  "clean_path p =
     (if p = [] then ''/''
      else let np = path_clean p
           in if last p = CHR ''/'' \<and> np \<noteq> ''/'' then np @ ''/'' else np)"

datatype 'h dispatch =
    Handle 'h
  | Redirect string
  | MethodNotAllowed
  | NotFound

text \<open>A path that a pattern with a slash at its end stands for, but for that slash, is redirected there.\<close>

definition exact_match :: "'h mux_route option \<Rightarrow> string \<Rightarrow> bool" where
  "exact_match n p =
     (case n of
        None \<Rightarrow> False
      | Some r \<Rightarrow> \<not> has_suffix (rt_path r) ''/'' \<or> rt_path r = p)"

definition slash_redirect :: "'h mux_route list \<Rightarrow> string \<Rightarrow> string \<Rightarrow> bool" where
  "slash_redirect mux m p \<longleftrightarrow> \<not> exact_match (mux_match mux m p) p \<and> \<not> has_suffix p ''/''
     \<and> exact_match (mux_match mux m (p @ ''/'')) (p @ ''/'')"

definition mux_dispatch :: "'h mux_route list \<Rightarrow> string \<Rightarrow> string \<Rightarrow> 'h dispatch" where
  "mux_dispatch mux m url_path =
     (let p = (if m = ''CONNECT'' then url_path else clean_path url_path) in
      if slash_redirect mux m p then Redirect (clean_path url_path @ ''/'')
      else if p \<noteq> url_path then Redirect p
      else case mux_match mux m p of
             Some r \<Rightarrow> Handle (rt_handler r)
           | None \<Rightarrow>
               if list_ex (\<lambda>r. path_covers (rt_path r) p \<or> path_covers (rt_path r) (p @ ''/'')) mux
               then MethodNotAllowed else NotFound)"

section \<open>The most specific pattern\<close>

locale specificity =
  fixes cov :: "'a \<Rightarrow> 'a \<Rightarrow> bool"
  assumes cov_refl: "cov a a"
    and cov_trans: "cov a b \<Longrightarrow> cov b c \<Longrightarrow> cov a c"
begin

lemma fold_specific:
  assumes "\<And>a b. a \<in> insert x (set xs) \<Longrightarrow> b \<in> insert x (set xs) \<Longrightarrow> cov a b \<or> cov b a"
  shows "\<exists>r. fold (more_specific cov) xs (Some x) = Some r \<and> r \<in> insert x (set xs) \<and> (\<forall>y \<in> insert x (set xs). cov y r)"
  using assms
proof (induction xs arbitrary: x)
  case Nil
  then show ?case by (simp add: cov_refl)
next
  case (Cons z zs)
  let ?x = "if cov x z then z else x"
  have comp: "cov a b \<or> cov b a" if "a \<in> insert ?x (set zs)" "b \<in> insert ?x (set zs)" for a b
    using that Cons.prems [of a b] by (auto split: if_splits)
  from Cons.IH [OF comp] obtain r where r: "fold (more_specific cov) zs (Some ?x) = Some r" "r \<in> insert ?x (set zs)"
      "\<forall>y \<in> insert ?x (set zs). cov y r"
    by blast
  have "cov x ?x \<and> cov z ?x" using Cons.prems [of x z] cov_refl by auto
  with r have "\<forall>y \<in> insert x (set (z # zs)). cov y r" using cov_trans by auto
  moreover have "fold (more_specific cov) (z # zs) (Some x) = Some r" using r(1) by (simp add: more_specific_def [of cov z])
  moreover have "r \<in> insert x (set (z # zs))" using r(2) by (auto split: if_splits)
  ultimately show ?case by blast
qed

lemma specific_total:
  assumes "xs \<noteq> []" and "\<And>a b. a \<in> set xs \<Longrightarrow> b \<in> set xs \<Longrightarrow> cov a b \<or> cov b a"
  shows "\<exists>r \<in> set xs. fold (more_specific cov) xs None = Some r \<and> (\<forall>y \<in> set xs. cov y r)"
proof -
  obtain x ys where xs: "xs = x # ys" using assms(1) by (cases xs) auto
  then have "fold (more_specific cov) xs None = fold (more_specific cov) ys (Some x)" by (simp add: more_specific_def)
  with fold_specific [of x ys] assms(2) xs show ?thesis by auto
qed

end

lemma path_covers_trans: "path_covers a b \<Longrightarrow> path_covers b c \<Longrightarrow> path_covers a c"
  by (auto simp: path_covers_def has_prefix_iff)

lemma method_covers_trans: "method_covers a b \<Longrightarrow> method_covers b c \<Longrightarrow> method_covers a c"
  by (auto simp: method_covers_def)

interpretation mux_spec: specificity covers
  by unfold_locales (auto simp: covers_def path_covers_def [of p p for p] method_covers_def [of m m for m]
      intro: path_covers_trans method_covers_trans)

text \<open>Of two patterns that match a request without a conflict, one is more specific.\<close>

lemma has_prefix_both: "has_prefix s p \<Longrightarrow> has_prefix s q \<Longrightarrow> has_prefix p q \<or> has_prefix q p"
  by (metis append_eq_append_conv2 has_prefix_iff)

lemma route_matches_comparable:
  assumes "route_matches m p a" and "route_matches m p b" and "\<not> conflict a b"
  shows "covers a b \<or> covers b a"
proof -
  have paths: "path_covers (rt_path a) (rt_path b) \<or> path_covers (rt_path b) (rt_path a)"
    using assms(1,2) has_prefix_both by (auto simp: route_matches_def path_covers_def)
  have "method_covers (rt_method a) (rt_method b) \<or> method_covers (rt_method b) (rt_method a)"
    using assms(1,2) by (auto simp: route_matches_def method_covers_def)
  with paths assms(3) show ?thesis by (auto simp: conflict_def)
qed

text \<open>No two patterns conflict, which also means that there are no two of the same.\<close>

definition mux_wf :: "'h mux_route list \<Rightarrow> bool" where
  "mux_wf mux \<longleftrightarrow> distinct mux \<and> (\<forall>a \<in> set mux. \<forall>b \<in> set mux. a \<noteq> b \<longrightarrow> \<not> conflict a b)"

lemma conflict_sym: "conflict a b = conflict b a"
  by (auto simp: conflict_def)

lemma conflict_refl: "conflict a a"
  by (simp add: conflict_def path_covers_def method_covers_def)

lemma mux_wf_snoc: "mux_wf (mux @ [r]) \<longleftrightarrow> mux_wf mux \<and> \<not> list_ex (conflict r) mux"
proof
  assume wf: "mux_wf (mux @ [r])"
  then have "\<not> conflict r x" if "x \<in> set mux" for x using that by (auto simp: mux_wf_def)
  with wf show "mux_wf mux \<and> \<not> list_ex (conflict r) mux" by (auto simp: mux_wf_def list_ex_iff)
next
  assume wf: "mux_wf mux \<and> \<not> list_ex (conflict r) mux"
  then have new: "\<not> conflict r x \<and> \<not> conflict x r" if "x \<in> set mux" for x
    using that conflict_sym [of r x] by (auto simp: list_ex_iff)
  with conflict_refl have "r \<notin> set mux" by blast
  with wf new show "mux_wf (mux @ [r])" by (auto simp: mux_wf_def)
qed

lemma mux_register_wf: "mux_wf mux \<Longrightarrow> mux_register mux r = Some mux' \<Longrightarrow> mux_wf mux'"
  by (cases "list_ex (conflict r) mux") (auto simp: mux_register_def mux_wf_snoc)

text \<open>Registering works exactly when there are no conflicts, in any order.\<close>

lemma mux_wf_append1: "mux_wf (xs @ ys) \<Longrightarrow> mux_wf xs"
  by (auto simp: mux_wf_def)

lemma mux_register_all_iff:
  "mux_wf mux \<Longrightarrow> mux_register_all mux rs = (if mux_wf (mux @ rs) then Some (mux @ rs) else None)"
proof (induction mux rs rule: mux_register_all.induct)
  case (1 mux)
  then show ?case by simp
next
  case (2 mux r rs)
  show ?case
  proof (cases "list_ex (conflict r) mux")
    case True
    then have "\<not> mux_wf (mux @ [r])" by (simp add: mux_wf_snoc)
    then have "\<not> mux_wf (mux @ r # rs)" using mux_wf_append1 [of "mux @ [r]" rs] by auto
    with True show ?thesis by (simp add: mux_register_def)
  next
    case False
    then have "mux_wf (mux @ [r])" using "2.prems" by (simp add: mux_wf_snoc)
    with False 2 show ?thesis by (simp add: mux_register_def)
  qed
qed

lemma mux_wf_perm: "mset mux = mset mux' \<Longrightarrow> mux_wf mux = mux_wf mux'"
  unfolding mux_wf_def using mset_eq_setD mset_eq_imp_distinct_iff by metis

text \<open>A request goes to the most specific of the patterns that match it, whatever their order.\<close>

lemma mux_match_specific:
  assumes "mux_wf mux" and "a \<in> set mux" and "route_matches m p a"
  shows "\<exists>r \<in> set mux. mux_match mux m p = Some r \<and> route_matches m p r \<and> (\<forall>b \<in> set mux. route_matches m p b \<longrightarrow> covers b r)"
proof -
  let ?xs = "filter (route_matches m p) mux"
  have "covers x y \<or> covers y x" if "x \<in> set ?xs" "y \<in> set ?xs" for x y
  proof -
    show ?thesis
    proof (cases "x = y")
      case True
      then show ?thesis using mux_spec.cov_refl by auto
    next
      case False
      with that assms(1) have "\<not> conflict x y" "route_matches m p x" "route_matches m p y" by (auto simp: mux_wf_def)
      then show ?thesis using route_matches_comparable by metis
    qed
  qed
  moreover have "?xs \<noteq> []" using assms(2,3) by (auto simp: filter_empty_conv)
  ultimately obtain r where r: "r \<in> set ?xs" "fold (more_specific covers) ?xs None = Some r" "\<forall>y \<in> set ?xs. covers y r"
    using mux_spec.specific_total [of ?xs] by blast
  then show ?thesis by (intro bexI [of _ r]) (auto simp: mux_match_def)
qed

text \<open>So the order in which the patterns were registered makes no difference.\<close>

lemma mux_match_perm:
  assumes "mux_wf mux" and "mset mux = mset mux'"
  shows "mux_match mux m p = mux_match mux' m p"
proof (cases "\<exists>a \<in> set mux. route_matches m p a")
  case True
  then obtain a where a: "a \<in> set mux" "route_matches m p a" by blast
  have same: "set mux' = set mux" using assms(2) by (metis mset_eq_setD)
  have wf': "mux_wf mux'" using assms mux_wf_perm by metis
  from mux_match_specific [OF assms(1) a] obtain r where
      r: "r \<in> set mux" "mux_match mux m p = Some r" "route_matches m p r" "\<forall>b \<in> set mux. route_matches m p b \<longrightarrow> covers b r" by blast
  from mux_match_specific [OF wf' _ a(2)] a(1) same obtain r' where
      r': "r' \<in> set mux" "mux_match mux' m p = Some r'" "route_matches m p r'" "\<forall>b \<in> set mux. route_matches m p b \<longrightarrow> covers b r'" by blast
  have "covers r r'" "covers r' r" using r r' by auto
  then have "conflict r r'" by (auto simp: conflict_def covers_def)
  with assms(1) r(1) r'(1) have "r = r'" by (auto simp: mux_wf_def)
  with r(2) r'(2) show ?thesis by simp
next
  case False
  moreover have "set mux' = set mux" using assms(2) by (metis mset_eq_setD)
  ultimately show ?thesis by (simp add: mux_match_def filter_False)
qed

lemma mux_dispatch_perm:
  assumes "mux_wf mux" and "mset mux = mset mux'"
  shows "mux_dispatch mux m p = mux_dispatch mux' m p"
proof -
  have any: "list_ex P mux = list_ex P mux'" for P using mset_eq_setD [OF assms(2)] by (simp add: list_ex_iff)
  show ?thesis by (simp only: mux_dispatch_def slash_redirect_def mux_match_perm [OF assms] any)
qed

text \<open>Where a request ends: with the handler of a pattern that matches it, and with that of its own path if there is one.\<close>

lemma mux_match_in: "mux_match mux m p = Some r \<Longrightarrow> r \<in> set mux \<and> route_matches m p r"
proof -
  have "fold (more_specific covers) xs best = Some r \<Longrightarrow> r \<in> set xs \<or> best = Some r" for xs best
    by (induction xs arbitrary: best) (fastforce simp: more_specific_def split: option.splits if_splits)+
  from this [of "filter (route_matches m p) mux" None] show "mux_match mux m p = Some r \<Longrightarrow> r \<in> set mux \<and> route_matches m p r"
    by (simp add: mux_match_def)
qed

lemma dispatch_handle:
  assumes "mux_dispatch mux m p = Handle h"
  shows "\<exists>r \<in> set mux. rt_handler r = h \<and> route_matches m p r"
proof -
  define q where "q = (if m = ''CONNECT'' then p else clean_path p)"
  from assms have "\<not> slash_redirect mux m q" "q = p"
    unfolding mux_dispatch_def Let_def q_def [symmetric] by (auto split: if_split_asm)
  with assms have "(case mux_match mux m p of Some r \<Rightarrow> Handle (rt_handler r)
      | None \<Rightarrow> if list_ex (\<lambda>r. path_covers (rt_path r) p \<or> path_covers (rt_path r) (p @ ''/'')) mux
                then MethodNotAllowed else NotFound) = Handle h"
    unfolding mux_dispatch_def Let_def q_def [symmetric] by (simp only: if_False simp_thms)
  then show ?thesis by (cases "mux_match mux m p") (auto dest: mux_match_in split: if_split_asm)
qed

lemma dispatch_exact:
  assumes "mux_wf mux" and "r \<in> set mux" and "rt_method r = None" and "rt_path r = p"
    and "\<And>r'. r' \<in> set mux \<Longrightarrow> rt_path r' = p \<Longrightarrow> r' = r" and "\<not> has_suffix p ''/''" and "clean_path p = p"
  shows "mux_dispatch mux m p = Handle (rt_handler r)"
proof -
  have own: "route_matches m p r" using assms(3,4) by (simp add: route_matches_def path_covers_def method_covers_def)
  from mux_match_specific [OF assms(1,2) own] assms(2) own obtain r' where
      r': "r' \<in> set mux" "mux_match mux m p = Some r'" "covers r r'" by blast
  then have "rt_path r' = p" using assms(4,6) by (auto simp: covers_def path_covers_def)
  with r' assms(5) have "mux_match mux m p = Some r" by blast
  moreover from this have "\<not> slash_redirect mux m p" using assms(4,6) by (simp add: slash_redirect_def exact_match_def)
  moreover have "(if m = ''CONNECT'' then p else clean_path p) = p" using assms(7) by simp
  ultimately show ?thesis by (simp add: mux_dispatch_def Let_def)
qed

end
