(* ===== verification/Dnss_Program.thy ===== *)
theory Dnss_Program
  imports Server_Stack Http_Server Go_Mux
begin

text \<open>
  \<^verbatim>\<open>dnss.go\<close>, and the \<^verbatim>\<open>ListenAndServe\<close> functions of the two servers: from the flags to the services
  that run, and to the sockets they listen on. \<^verbatim>\<open>log.Fatalf\<close> ends the process with a message (\<open>Inl\<close>).
  \<^verbatim>\<open>url.Parse\<close>, which gives the URL back as text, and the sockets \<^verbatim>\<open>systemd\<close> passes are parameters; the
  sockets themselves and the goroutines' ends are not modelled.
\<close>

section \<open>Flags\<close>

record flags =
  dns_listen_addr :: string
  dns_unqualified_upstream :: string
  dns_server_for_domain :: string
  fallback_upstream :: string
  enable_dns_to_https :: bool
  https_upstream :: string
  https_client_cafile :: string
  enable_cache :: bool
  dnstap_destination :: string
  enable_https_to_dns :: bool
  dns_upstream :: string
  https_cert :: string
  https_key :: string
  https_server_addr :: string
  insecure_http_server :: bool
  monitoring_listen_addr :: string
  stats_interval :: duration
  top_domains_stats_interval :: duration
  top_domains_stats_count :: int

definition default_flags :: flags where
  "default_flags = \<lparr>
     dns_listen_addr = '':53'',
     dns_unqualified_upstream = [],
     dns_server_for_domain = [],
     fallback_upstream = ''8.8.8.8:53'',
     enable_dns_to_https = False,
     https_upstream = ''https://dns.google/dns-query'',
     https_client_cafile = [],
     enable_cache = True,
     dnstap_destination = [],
     enable_https_to_dns = False,
     dns_upstream = ''8.8.8.8:53'',
     https_cert = [],
     https_key = [],
     https_server_addr = '':443'',
     insecure_http_server = False,
     monitoring_listen_addr = [],
     stats_interval = 5 * minute,
     top_domains_stats_interval = minute,
     top_domains_stats_count = 25\<rparr>"

section \<open>Services\<close>

datatype resolver_conf = Plain https | Cached "https caching"

text \<open>\<^verbatim>\<open>dnsserver.Server\<close> with its resolver and its dnstap writer, and \<^verbatim>\<open>httpserver.Server\<close>.\<close>

record dns_proxy =
  dp_addr :: string
  dp_server :: dns_server
  dp_resolver :: resolver_conf
  dp_tap :: "writer option"

record https_proxy =
  hp_addr :: string
  hp_upstream :: string
  hp_cert_file :: string
  hp_key_file :: string
  hp_insecure :: bool

datatype service =
    SvcMonitoring string
  | SvcReport duration
  | SvcReportTopDomains duration int
  | SvcDns dns_proxy
  | SvcHttps https_proxy

definition new_dns_server :: "string \<Rightarrow> resolver_conf \<Rightarrow> string \<Rightarrow> domain_map \<Rightarrow> dns_proxy" where
  "new_dns_server addr backend unqUpstream overrides =
     \<lparr>dp_addr = addr, dp_server = \<lparr>ds_unq_upstream = unqUpstream, ds_server_overrides = overrides\<rparr>,
      dp_resolver = backend, dp_tap = None\<rparr>"

definition set_dnstap :: "writer \<Rightarrow> dns_proxy \<Rightarrow> dns_proxy" where
  "set_dnstap w s = s\<lparr>dp_tap := Some w\<rparr>"

definition dns_to_https :: "dns_lib \<Rightarrow> (string \<Rightarrow> string + string) \<Rightarrow> flags \<Rightarrow> string + dns_proxy" where
  "dns_to_https L parse_url fl =
     (case parse_url (https_upstream fl) of
        Inl err \<Rightarrow> Inl (''-https_upstream is not a valid URL: '' @ err)
      | Inr upstream \<Rightarrow>
          (let doh = new_doh upstream (https_client_cafile fl) (fallback_upstream fl);
               backend = (if enable_cache fl then Cached (new_caching_resolver doh) else Plain doh)
           in case domain_map_from_string L (dns_server_for_domain fl) of
                Inl err \<Rightarrow> Inl (''-dns_server_for_domain is not valid: '' @ err)
              | Inr overrides \<Rightarrow>
                  (let dth = new_dns_server (dns_listen_addr fl) backend (dns_unqualified_upstream fl) overrides
                   in Inr (if dnstap_destination fl \<noteq> []
                           then set_dnstap (fst (start (new_writer (dnstap_destination fl)))) dth
                           else dth))))"

definition https_to_dns :: "flags \<Rightarrow> https_proxy" where
  "https_to_dns fl = \<lparr>hp_addr = https_server_addr fl, hp_upstream = dns_upstream fl,
     hp_cert_file = https_cert fl, hp_key_file = https_key fl, hp_insecure = insecure_http_server fl\<rparr>"

text \<open>\<^verbatim>\<open>main\<close>: the services started, in order, and the message it ends with if it does not serve.\<close>

definition main_start :: "dns_lib \<Rightarrow> (string \<Rightarrow> string + string) \<Rightarrow> flags \<Rightarrow> service list \<times> string option" where
  "main_start L parse_url fl =
     (let svcs = (if monitoring_listen_addr fl \<noteq> [] then [SvcMonitoring (monitoring_listen_addr fl)] else [])
            @ [SvcReport (stats_interval fl),
               SvcReportTopDomains (top_domains_stats_interval fl) (top_domains_stats_count fl)]
      in if \<not> (enable_dns_to_https fl \<or> enable_https_to_dns fl) then (svcs, Some [])
         else case (if enable_dns_to_https fl then map_sum id (\<lambda>d. svcs @ [SvcDns d]) (dns_to_https L parse_url fl)
                    else Inr svcs) of
                Inl err \<Rightarrow> (svcs, Some err)
              | Inr svcs \<Rightarrow>
                  (if enable_https_to_dns fl then svcs @ [SvcHttps (https_to_dns fl)] else svcs, None))"

text \<open>The loop of \<^verbatim>\<open>signalHandler\<close>: the message the process ends with once one of the signals it asks for comes.\<close>

datatype os_signal = SIGTERM | SIGINT | OtherSignal string

fun signal_text :: "os_signal \<Rightarrow> string" where
  "signal_text SIGTERM = ''terminated''"
| "signal_text SIGINT = ''interrupt''"
| "signal_text (OtherSignal s) = s"

fun signal_handler :: "os_signal list \<Rightarrow> string option" where
  "signal_handler [] = None"
| "signal_handler (sig # sigs) =
     (if sig = SIGTERM \<or> sig = SIGINT then Some (''Got signal to exit: '' @ signal_text sig) else signal_handler sigs)"

section \<open>Listening\<close>

datatype listener =
    ListenUDP string
  | ListenTCP string
  | ActivateUDP nat
  | ActivateTCP nat

definition classic_serve :: "string \<Rightarrow> listener list" where
  "classic_serve addr = [ListenUDP addr, ListenTCP addr]"

text \<open>A file from \<^verbatim>\<open>systemd\<close>: whether it is a listening socket, and whether a packet connection.\<close>

record sd_file =
  sf_fd :: nat
  sf_listener :: bool
  sf_packet :: bool

definition classify :: "sd_file \<Rightarrow> nat list \<times> nat list \<Rightarrow> nat list \<times> nat list" where
  "classify f = (\<lambda>(pconns, listeners).
     if sf_listener f then (pconns, listeners @ [sf_fd f])
     else if sf_packet f then (pconns @ [sf_fd f], listeners)
     else (pconns, listeners))"

definition systemd_serve :: "string + (string, sd_file list) gomap \<Rightarrow> string + listener list" where
  "systemd_serve files =
     (case files of
        Inl err \<Rightarrow> Inl (''Error getting systemd listeners: '' @ err)
      | Inr fsMap \<Rightarrow>
          (let (pconns, listeners) = fold (\<lambda>fs. fold classify fs) (map snd fsMap) ([], []);
               started = map ActivateUDP pconns @ map ActivateTCP listeners
           in if started = [] then Inl ''No systemd sockets, did you forget the .socket?'' else Inr started))"

text \<open>\<^verbatim>\<open>Init\<close> of the resolver, which the cache passes on, and \<^verbatim>\<open>ListenAndServe\<close>.\<close>

definition init_resolver :: "files \<Rightarrow> net \<Rightarrow> resolver_conf \<Rightarrow> (string option \<times> resolver_conf) option" where
  "init_resolver F N r =
     (case r of
        Plain s \<Rightarrow> map_option (\<lambda>(err, s). (err, Plain s)) (https_init F N s)
      | Cached c \<Rightarrow> map_option (\<lambda>(err, c). (err, Cached c)) (caching_init (https_init F N) c))"

definition listen_and_serve ::
    "files \<Rightarrow> net \<Rightarrow> string + (string, sd_file list) gomap \<Rightarrow> dns_proxy \<Rightarrow>
     (string + listener list \<times> resolver_conf) option" where
  "listen_and_serve F N files s =
     (case init_resolver F N (dp_resolver s) of
        None \<Rightarrow> None
      | Some (Some err, r) \<Rightarrow> Some (Inl (''Error initializing: '' @ err))
      | Some (None, r) \<Rightarrow>
          Some (map_sum id (\<lambda>ls. (ls, r))
            (if dp_addr s = ''systemd'' then systemd_serve files else Inr (classic_serve (dp_addr s)))))"

text \<open>
  The HTTPS server: its address, the patterns of its mux (\<open>None\<close> if registering panics), and its
  certificate and key. Its one handler is the method \<^verbatim>\<open>Resolve\<close>.
\<close>

datatype https_handler = ResolveHandler

record http_listener =
  hl_addr :: string
  hl_mux :: "https_handler mux_route list option"
  hl_tls :: "(string \<times> string) option"

definition http_listen_and_serve :: "https_proxy \<Rightarrow> http_listener" where
  "http_listen_and_serve s =
     (let mux = mux_register_all []
            [\<lparr>rt_method = None, rt_path = ''/dns-query'', rt_handler = ResolveHandler\<rparr>,
             \<lparr>rt_method = None, rt_path = ''/resolve'', rt_handler = ResolveHandler\<rparr>]
      in \<lparr>hl_addr = hp_addr s, hl_mux = mux,
          hl_tls = (if hp_insecure s then None else Some (hp_cert_file s, hp_key_file s))\<rparr>)"

section \<open>A serving DNS proxy\<close>

text \<open>
  What happens to it: a query, a pass of the cache's maintenance when there is a cache, or a tick of
  the HTTPS resolver's.
\<close>

datatype proxy_event =
    PxQuery request_env msg
  | PxCollect
  | PxTick "instant \<times> instant"

fun cached_event :: "proxy_event \<Rightarrow> (instant \<times> instant) option server_event" where
  "cached_event (PxQuery E r) = SrvQuery E r"
| "cached_event PxCollect = SrvTick None"
| "cached_event (PxTick t) = SrvTick (Some t)"

fun plain_event :: "proxy_event \<Rightarrow> (instant \<times> instant) server_event option" where
  "plain_event (PxQuery E r) = Some (SrvQuery E r)"
| "plain_event PxCollect = None"
| "plain_event (PxTick t) = Some (SrvTick t)"

definition new_dns_state :: "'s \<Rightarrow> writer option \<Rightarrow> 's dns_state" where
  "new_dns_state s tap = \<lparr>dn_resolver = s, dn_world = empty_world, dn_tap = tap, dn_written = []\<rparr>"

definition serve :: "dns_lib \<Rightarrow> nat \<Rightarrow> net \<Rightarrow> dns_proxy \<Rightarrow> resolver_conf \<Rightarrow> proxy_event list \<Rightarrow> (msg list \<times> world) option" where
  "serve L v N p r es =
     (case r of
        Plain s \<Rightarrow> map_option (\<lambda>st. (dn_written st, dn_world st))
          (server_run L v (dp_server p) (https_query L N v) (https_tick N) (List.map_filter plain_event es)
             (new_dns_state s (dp_tap p)))
      | Cached c \<Rightarrow> map_option (\<lambda>st. (dn_written st, dn_world st))
          (server_run L v (dp_server p) (caching_query L default_cfg (https_query L N v))
             (caching_tick default_cfg (https_tick N)) (map cached_event es) (new_dns_state c (dp_tap p))))"

end
