(* ===== verification/Http_Server_Properties.thy ===== *)
theory Http_Server_Properties
  imports Http_Server
begin

text \<open>
  The properties of the HTTPS server: one response for each request, given by a specification
  without state; the two ways to send a DNS message are equivalent; TCP is the fallback for
  truncated replies only; and what the JSON API takes for a query type.
\<close>

section \<open>The responses, without the counting and tracing\<close>

definition error_reply :: "string \<Rightarrow> int \<Rightarrow> http_reply" where
  "error_reply text status = \<lparr>rp_status = status, rp_content_type = ''text/plain; charset=utf-8'',
     rp_body = reply_bytes (text @ [CHR 0x0A])\<rparr>"

definition dns_reply :: "bytes \<Rightarrow> http_reply" where
  "dns_reply packed = \<lparr>rp_status = 200, rp_content_type = ''application/dns-message'', rp_body = packed\<rparr>"

definition json_reply :: "dns_lib \<Rightarrow> msg \<Rightarrow> http_reply" where
  "json_reply L m = \<lparr>rp_status = 200, rp_content_type = ''application/dns-json'',
     rp_body = reply_bytes (json_message_text (new_json_message L m))\<rparr>"

text \<open>What the upstream says: its answer over UDP, or if that is truncated the one over TCP.\<close>

definition upstream_answer :: "http_env \<Rightarrow> msg \<Rightarrow> string \<Rightarrow> exchange_error + msg option" where
  "upstream_answer E r addr =
     (case he_exchange E ''udp'' (4 * second) r addr of
        Inr (Some m) \<Rightarrow> if m_truncated m then he_exchange E ''tcp'' (4 * second) r addr else Inr (Some m)
      | res \<Rightarrow> res)"

definition failure_reply :: "exchange_error \<Rightarrow> http_reply" where
  "failure_reply err = (if xe_timeout err then error_reply ''upstream DNS server timed out'' 504
     else error_reply ''upstream DNS exchange failed'' 502)"

definition answer_reply :: "(msg \<Rightarrow> http_reply) \<Rightarrow> exchange_error + msg option \<Rightarrow> http_reply" where
  "answer_reply f res =
     (case res of
        Inl err \<Rightarrow> failure_reply err
      | Inr None \<Rightarrow> error_reply ''no response from upstream'' 408
      | Inr (Some m) \<Rightarrow> f m)"

definition doh_reply :: "dns_lib \<Rightarrow> http_env \<Rightarrow> string \<Rightarrow> bytes \<Rightarrow> http_reply" where
  "doh_reply L E upstream b =
     (case unpack_msg L b of
        Inl err \<Rightarrow> error_reply ''invalid DNS query'' 400
      | Inr r \<Rightarrow> answer_reply
          (\<lambda>m. dns_reply (case pack_msg L m of Inr packed \<Rightarrow> packed | Inl err \<Rightarrow> servfail L r))
          (upstream_answer E r upstream))"

definition json_query :: "dns_lib \<Rightarrow> http_env \<Rightarrow> http_request \<Rightarrow> u16 \<Rightarrow> msg" where
  "json_query L E req t =
     (let r = set_question L (he_new_id E) (fqdn L (form_value req ''name'')) t in
      if form_value req ''cd'' = ''1'' \<or> equal_fold (form_value req ''cd'') ''true''
      then r\<lparr>m_checking_disabled := True\<rparr> else r)"

definition response_to :: "dns_lib \<Rightarrow> http_env \<Rightarrow> string \<Rightarrow> http_request \<Rightarrow> http_reply" where
  "response_to L E upstream req =
     (if rq_method req = ''GET'' \<and> form_value req ''dns'' \<noteq> [] then
        (case b64_decode (form_value req ''dns'') of
           Inl err \<Rightarrow> error_reply err 400
         | Inr b \<Rightarrow> doh_reply L E upstream b)
      else if rq_method req = ''GET'' \<and> form_value req ''name'' \<noteq> [] then
        (case query_type L (form_value req ''type'') of
           Inl err \<Rightarrow> error_reply err 400
         | Inr t \<Rightarrow> answer_reply (json_reply L) (upstream_answer E (json_query L E req t) upstream))
      else if rq_method req = ''POST'' then
        (case parse_media_type (rq_content_type req) of
           Inl err \<Rightarrow> error_reply err 400
         | Inr ct \<Rightarrow>
             if ct = ''application/dns-message'' then
               (case read_limited 4092 (rq_body req) (rq_read_error req) of
                  Inl err \<Rightarrow> error_reply err 400
                | Inr b \<Rightarrow> doh_reply L E upstream b)
             else error_reply ''unknown request type'' 415)
      else error_reply ''unknown request type'' 415)"

section \<open>One response for each request\<close>

lemma hs_replies_simps [simp]:
  "hs_replies (on_hs_world f st) = hs_replies st" "hs_replies (send rp st) = hs_replies st @ [rp]"
  "hs_replies (http_error err status st) = hs_replies st @ [error_reply err status]"
  "hs_replies (write_dns_response E b st) = hs_replies st @ [dns_reply b]"
  "hs_replies (bad_request c err st) = hs_replies st @ [error_reply err 400]"
  "hs_replies (unknown_request st) = hs_replies st @ [error_reply ''unknown request type'' 415]"
  by (simp_all add: on_hs_world_def send_def http_error_def error_reply_def write_dns_response_def
      dns_reply_def bad_request_def unknown_request_def Let_def)

lemma exchange_answer:
  "exchange E r addr st = Some (res, st') \<Longrightarrow> res = upstream_answer E r addr \<and> hs_replies st' = hs_replies st"
  by (auto simp: exchange_def upstream_answer_def Let_def split: sum.splits option.splits if_splits)

lemma exchange_failed_reply [simp]:
  "hs_replies (exchange_failed err st) = hs_replies st @ [failure_reply err]"
  by (simp add: exchange_failed_def dns_exchange_http_error_def failure_reply_def Let_def)

lemma no_upstream_response_reply [simp]:
  "hs_replies (no_upstream_response st) = hs_replies st @ [error_reply ''no response from upstream'' 408]"
  by (simp add: no_upstream_response_def Let_def)

lemma doh_respond_reply [simp]:
  "hs_replies (doh_respond L v E r res st) = hs_replies st @
     [answer_reply (\<lambda>m. dns_reply (case pack_msg L m of Inr packed \<Rightarrow> packed | Inl err \<Rightarrow> servfail L r)) res]"
  by (simp add: doh_respond_def answer_reply_def Let_def split: sum.split option.split)

lemma json_respond_reply [simp]:
  "hs_replies (json_respond L E res st) = hs_replies st @ [answer_reply (json_reply L) res]"
  by (simp add: json_respond_def answer_reply_def json_reply_def Let_def split: sum.split option.split)

lemma exchange_bind:
  "(exchange E r addr st \<bind> (\<lambda>(res, st). Some (f res st))) = Some st' \<Longrightarrow>
     \<exists>st1. st' = f (upstream_answer E r addr) st1 \<and> hs_replies st1 = hs_replies st"
  by (auto simp: bind_eq_Some_conv dest!: exchange_answer)

lemma resolve_doh_reply:
  assumes "resolve_doh L v E upstream b st = Some st'"
  shows "hs_replies st' = hs_replies st @ [doh_reply L E upstream b]"
proof (cases "unpack_msg L b")
  case (Inl err)
  with assms show ?thesis by (auto simp: resolve_doh_def doh_reply_def Let_def)
next
  case (Inr r)
  with assms show ?thesis
    by (auto simp: resolve_doh_def doh_reply_def Let_def dest!: exchange_bind split: if_splits)
qed

lemma resolve_json_reply:
  assumes "resolve_json L v E upstream req st = Some st'"
  shows "hs_replies st' = hs_replies st @
    [case query_type L (form_value req ''type'') of
       Inl err \<Rightarrow> error_reply err 400
     | Inr t \<Rightarrow> answer_reply (json_reply L) (upstream_answer E (json_query L E req t) upstream)]"
proof (cases "query_type L (form_value req ''type'')")
  case (Inl err)
  with assms show ?thesis by (auto simp: resolve_json_def Let_def)
next
  case (Inr t)
  with assms show ?thesis
    by (auto simp: resolve_json_def json_query_def Let_def dest!: exchange_bind split: if_splits)
qed

lemma resolve_reply:
  assumes "resolve L v E upstream req st = Some st'"
  shows "hs_replies st' = hs_replies st @ [response_to L E upstream req]"
proof -
  consider (get) "rq_method req = ''GET''" "form_value req ''dns'' \<noteq> []"
    | (json) "rq_method req = ''GET''" "form_value req ''dns'' = []" "form_value req ''name'' \<noteq> []"
    | (post) "rq_method req = ''POST''"
    | (other) "\<not> (rq_method req = ''GET'' \<and> form_value req ''dns'' \<noteq> [])"
        "\<not> (rq_method req = ''GET'' \<and> form_value req ''name'' \<noteq> [])" "rq_method req \<noteq> ''POST''"
    by blast
  then show ?thesis
  proof cases
    case get
    with assms show ?thesis
      by (auto simp: resolve_def response_to_def Let_def dest!: resolve_doh_reply split: sum.splits)
  next
    case json
    with assms show ?thesis
      by (auto simp: resolve_def response_to_def Let_def dest!: resolve_json_reply)
  next
    case post
    with assms show ?thesis
      by (auto simp: resolve_def response_to_def Let_def dest!: resolve_doh_reply split: sum.splits if_splits)
  next
    case other
    with assms show ?thesis by (auto simp: resolve_def response_to_def Let_def)
  qed
qed

text \<open>
  Every request that is handled gets exactly one response, the one of the specification: the
  answer of the upstream for a DNS message or a JSON query, a server failure when the answer cannot
  be packed, the status for a bad request, an unknown one, a failed or a timed-out exchange. The
  upstream is asked over TCP only after a truncated reply over UDP.
\<close>

lemma resolve_responds:
  assumes "resolve L v E upstream req st = Some st'"
  shows "hs_replies st' = hs_replies st @ [response_to L E upstream req]"
  by (rule resolve_reply [OF assms])

section \<open>A concrete request, for the witnesses\<close>

definition ex_http_env :: http_env where
  "ex_http_env = \<lparr>he_exchange = (\<lambda>net t r a. Inr (Some (empty_msg\<lparr>m_id := m_id r, m_truncated := (net = ''udp'')\<rparr>))),
     he_write_ok = True, he_header_text = (\<lambda>m. []), he_new_id = 3\<rparr>"

definition ex_get :: http_request where
  "ex_get = \<lparr>rq_method = ''GET'', rq_remote_addr = ''1.2.3.4:5'', rq_form = [(''dns'', b64_encode [9])],
     rq_content_type = [], rq_body = [], rq_read_error = None\<rparr>"

definition ex_post :: http_request where
  "ex_post = \<lparr>rq_method = ''POST'', rq_remote_addr = ''1.2.3.4:5'', rq_form = [],
     rq_content_type = ''application/dns-message'', rq_body = [9], rq_read_error = None\<rparr>"

definition ex_hs :: http_state where
  "ex_hs = \<lparr>hs_world = empty_world, hs_replies = []\<rparr>"

lemma ex_doh_total: "\<exists>st'. resolve_doh plain_lib 0 ex_http_env a [9] st = Some st'"
  by (simp add: resolve_doh_def plain_lib_def exchange_def ex_http_env_def Let_def)

lemma ex_get_total: "\<exists>st'. resolve plain_lib 0 ex_http_env a ex_get ex_hs = Some st'"
  using ex_doh_total
  by (auto simp: resolve_def ex_get_def form_value_def b64_decode_encode b64_encode_Nil_iff Let_def
      simp del: b64_encode.simps)

lemma ex_post_total: "\<exists>st'. resolve plain_lib 0 ex_http_env a ex_post ex_hs = Some st'"
  using ex_doh_total
  by (auto simp: resolve_def ex_post_def parse_media_type_dns_message read_limited_def Let_def)

lemma ex_doh_reply: "doh_reply plain_lib ex_http_env a [9] = dns_reply [9, 0]"
  by (simp add: doh_reply_def plain_lib_def upstream_answer_def ex_http_env_def answer_reply_def empty_msg_def)

lemma resolve_responds_witness:
  "\<exists>st'. resolve plain_lib 0 ex_http_env ''9.9.9.9:53'' ex_get ex_hs = Some st'
     \<and> hs_replies st' = [dns_reply [9, 0]]"
proof -
  obtain st' where st': "resolve plain_lib 0 ex_http_env ''9.9.9.9:53'' ex_get ex_hs = Some st'"
    using ex_get_total by blast
  have "response_to plain_lib ex_http_env ''9.9.9.9:53'' ex_get = dns_reply [9, 0]"
    by (simp add: response_to_def ex_get_def form_value_def b64_decode_encode b64_encode_Nil_iff ex_doh_reply
        del: b64_encode.simps)
  with resolve_responds [OF st'] st' show ?thesis by (simp add: ex_hs_def)
qed

section \<open>GET and POST\<close>

text \<open>
  C29: the two ways to send a DNS message are equivalent: a GET with the message in base64 and a POST
  with the message as its body get the same response, for any message the limit on bodies lets
  through whole.
\<close>

theorem doh_get_post_equivalent:
  assumes "b \<noteq> []" and "length b \<le> 4092"
    and "rq_method g = ''GET''" and "map_of (rq_form g) ''dns'' = Some (b64_encode b)"
    and "rq_method p = ''POST''" and "parse_media_type (rq_content_type p) = Inr ''application/dns-message''"
    and "rq_body p = b" and "rq_read_error p = None"
    and "resolve L v E upstream g st = Some st1" and "resolve L v E upstream p st = Some st2"
  shows "hs_replies st1 = hs_replies st2
    \<and> hs_replies st1 = hs_replies st @ [doh_reply L E upstream b]"
proof -
  have "response_to L E upstream g = doh_reply L E upstream b"
    using assms(1,3,4) by (simp add: response_to_def form_value_def b64_decode_encode b64_encode_Nil_iff)
  moreover have "response_to L E upstream p = doh_reply L E upstream b"
    using assms(2,5-8) by (simp add: response_to_def read_limited_def)
  ultimately show ?thesis
    using resolve_reply [OF assms(9)] resolve_reply [OF assms(10)] by simp
qed

theorem doh_get_post_equivalent_witness:
  "\<exists>st1 st2. resolve plain_lib 0 ex_http_env ''9.9.9.9:53'' ex_get ex_hs = Some st1
     \<and> resolve plain_lib 0 ex_http_env ''9.9.9.9:53'' ex_post ex_hs = Some st2
     \<and> hs_replies st1 = hs_replies st2"
proof -
  obtain st1 st2 where st: "resolve plain_lib 0 ex_http_env ''9.9.9.9:53'' ex_get ex_hs = Some st1"
      "resolve plain_lib 0 ex_http_env ''9.9.9.9:53'' ex_post ex_hs = Some st2"
    using ex_get_total ex_post_total by blast
  have "rq_method ex_get = ''GET''" "map_of (rq_form ex_get) ''dns'' = Some (b64_encode [9])"
      "rq_method ex_post = ''POST''" "parse_media_type (rq_content_type ex_post) = Inr ''application/dns-message''"
      "rq_body ex_post = [9]" "rq_read_error ex_post = None"
    by (simp_all add: ex_get_def ex_post_def parse_media_type_dns_message del: b64_encode.simps)
  from doh_get_post_equivalent [OF _ _ this st] st show ?thesis by simp
qed

section \<open>Query types of the JSON API\<close>

lemma show_nat_not_digit_free: "parse_uint 16 (show_nat n) = (if n < 65536 then Some n else None)"
  by (simp add: parse_uint_def show_nat_digits)

text \<open>
  The JSON API takes a query type as its number or as its name. Every number of 16 bits is taken
  as it is; a name, in any case, stands for its type; no type is type A; anything else is refused.
\<close>

lemma query_type_accepts:
  "(n < 65536 \<longrightarrow> query_type L (show_nat n) = Inr (of_nat n))
   \<and> (65536 \<le> n \<longrightarrow> string_to_type L (to_upper (show_nat n)) = None \<longrightarrow> isl (query_type L (show_nat n)))
   \<and> (s \<noteq> [] \<and> \<not> list_all is_digit s \<longrightarrow>
        (query_type L s = Inr t \<longleftrightarrow> string_to_type L (to_upper s) = Some t))
   \<and> query_type L [] = Inr 1"
proof (intro conjI impI)
  assume "s \<noteq> [] \<and> \<not> list_all is_digit s"
  then have "s \<noteq> []" "parse_uint 16 s = None" by (simp_all add: parse_uint_def)
  then show "query_type L s = Inr t \<longleftrightarrow> string_to_type L (to_upper s) = Some t"
    by (simp add: query_type_def split: option.split)
qed (simp_all add: query_type_def show_nat_not_digit_free)

lemma query_type_accepts_witness:
  "query_type plain_lib (show_nat 28) = Inr 28 \<and> query_type plain_lib ''aaaa'' = Inr 28"
proof -
  have "to_upper ''aaaa'' = ''AAAA''" by (simp add: text_eval)
  then have "string_to_type plain_lib (to_upper ''aaaa'') = Some 28" by (simp add: plain_lib_def)
  then show ?thesis
    using query_type_accepts [of 28 plain_lib "''aaaa''" 28] by (simp add: is_digit_def)
qed

end
