(* ===== verification/Http_Site.thy ===== *)
theory Http_Site
  imports Dnss_Program Http_Server_Properties
begin

text \<open>
  The HTTPS server as a whole: \<^verbatim>\<open>ListenAndServe\<close> of \<^verbatim>\<open>internal/httpserver/server.go\<close> registers
  \<^verbatim>\<open>Resolve\<close> with its own mux, which hands it the requests. Shown: which requests get there, and
  what each of them gets.
\<close>

text \<open>What a request for a path comes to; \<open>None\<close> if the server never gets to serve.\<close>

definition https_serve ::
    "dns_lib \<Rightarrow> nat \<Rightarrow> http_env \<Rightarrow> https_proxy \<Rightarrow> string \<Rightarrow> http_request \<Rightarrow> http_state \<Rightarrow> http_state option dispatch option" where
  "https_serve L v E s p req st =
     map_option
       (\<lambda>mux. map_dispatch (\<lambda>h. case h of ResolveHandler \<Rightarrow> resolve L v E (hp_upstream s) req st)
         (mux_dispatch mux (rq_method req) p))
       (hl_mux (http_listen_and_serve s))"

definition resolve_paths :: "string list" where
  "resolve_paths = [''/dns-query'', ''/resolve'']"

definition https_routes :: "https_handler mux_route list" where
  "https_routes = map (\<lambda>p. \<lparr>rt_method = None, rt_path = p, rt_handler = ResolveHandler\<rparr>) resolve_paths"

lemma https_routes_registered: "mux_register_all [] https_routes = Some https_routes"
  by code_simp

lemma https_mux: "hl_mux (http_listen_and_serve s) = Some https_routes"
  using https_routes_registered by (simp add: http_listen_and_serve_def https_routes_def resolve_paths_def)

lemma https_routes_wf: "mux_wf https_routes"
  using https_routes_registered mux_register_all_iff [of "[]" https_routes] by (simp add: mux_wf_def split: if_splits)

lemma resolve_path_plain: "p \<in> set resolve_paths \<Longrightarrow> \<not> has_suffix p ''/'' \<and> clean_path p = p"
proof -
  have "\<forall>p \<in> set resolve_paths. \<not> has_suffix p ''/'' \<and> clean_path p = p" by code_simp
  then show "p \<in> set resolve_paths \<Longrightarrow> \<not> has_suffix p ''/'' \<and> clean_path p = p" by blast
qed

lemma https_covers: "r \<in> set https_routes \<Longrightarrow> path_covers (rt_path r) q \<longleftrightarrow> rt_path r = q"
  using resolve_path_plain by (auto simp: https_routes_def path_covers_def)

lemma https_route_paths: "r \<in> set https_routes \<Longrightarrow> rt_path r \<in> set resolve_paths \<and> rt_method r = None"
  by (auto simp: https_routes_def)

text \<open>A path goes to \<^verbatim>\<open>Resolve\<close> exactly when it is one of the two.\<close>

lemma https_dispatch_resolve:
  assumes "p \<in> set resolve_paths"
  shows "mux_dispatch https_routes m p = Handle ResolveHandler"
proof -
  let ?r = "\<lparr>rt_method = None, rt_path = p, rt_handler = ResolveHandler\<rparr>"
  have own: "?r \<in> set https_routes" using assms by (auto simp: https_routes_def)
  have only: "r' = ?r" if "r' \<in> set https_routes" "rt_path r' = p" for r'
    using that by (auto simp: https_routes_def)
  have plain: "\<not> has_suffix p ''/''" "clean_path p = p" using resolve_path_plain [OF assms] by blast+
  have "mux_dispatch https_routes m p = Handle (rt_handler ?r)"
  proof (rule dispatch_exact [OF https_routes_wf own _ _ _ plain])
    show "rt_method ?r = None" "rt_path ?r = p" by simp_all
    show "r' = ?r" if "r' \<in> set https_routes" "rt_path r' = p" for r' by (rule only [OF that])
  qed
  then show ?thesis by simp
qed

lemma https_no_cover:
  assumes "r \<in> set https_routes" and "q \<notin> set resolve_paths"
  shows "\<not> path_covers (rt_path r) q"
  using assms https_covers [OF assms(1)] https_route_paths [OF assms(1)] by auto

lemma https_no_match: "q \<notin> set resolve_paths \<Longrightarrow> mux_match https_routes m q = None"
  using mux_match_in https_no_cover by (metis not_None_eq route_matches_def)

lemma https_dispatch_other:
  assumes "p \<notin> set resolve_paths"
  shows "mux_dispatch https_routes m p =
    (if m \<noteq> ''CONNECT'' \<and> clean_path p \<noteq> p then Redirect (clean_path p) else NotFound)"
proof -
  have slash: "q @ ''/'' \<notin> set resolve_paths" for q
    using resolve_path_plain [of "q @ ''/''"] by (auto simp: has_suffix_def)
  then have "\<not> slash_redirect https_routes m q" for q
    by (simp add: slash_redirect_def https_no_match exact_match_def)
  moreover have "\<not> list_ex (\<lambda>r. path_covers (rt_path r) p \<or> path_covers (rt_path r) (p @ ''/'')) https_routes"
    using https_no_cover assms slash by (auto simp: list_ex_iff)
  ultimately show ?thesis using https_no_match [OF assms] by (simp add: mux_dispatch_def Let_def)
qed

text \<open>
  C7: the HTTPS server starts without a panic and hands \<^verbatim>\<open>Resolve\<close> exactly the requests for its two
  paths, of whatever method; others are redirected to their clean path, or not found. Every request
  that is handled gets exactly one response, the one of the specification: the answer of the upstream
  for a DNS message or a JSON query, a server failure when the answer cannot be packed, the status for
  a bad request, an unknown one, a failed or a timed-out exchange. The upstream is asked over TCP only
  after a truncated reply over UDP.
\<close>

theorem https_requests_answered:
  "https_serve L v E s p req st = Some
     (if p = ''/dns-query'' \<or> p = ''/resolve'' then Handle (resolve L v E (hp_upstream s) req st)
      else if rq_method req \<noteq> ''CONNECT'' \<and> clean_path p \<noteq> p then Redirect (clean_path p)
      else NotFound)
   \<and> (\<forall>st'. https_serve L v E s p req st = Some (Handle (Some st')) \<longrightarrow>
        hs_replies st' = hs_replies st @ [response_to L E (hp_upstream s) req])"
  (is "?serve \<and> ?replies")
proof
  show serve: ?serve
    using https_dispatch_resolve [of p "rq_method req"] https_dispatch_other [of p "rq_method req"]
    by (auto simp: https_serve_def https_mux resolve_paths_def)
  show ?replies using resolve_responds unfolding serve by (auto split: if_split_asm)
qed

definition ex_https_proxy :: https_proxy where
  "ex_https_proxy = \<lparr>hp_addr = '':443'', hp_upstream = ''9.9.9.9:53'', hp_cert_file = ''cert'', hp_key_file = ''key'',
     hp_insecure = False\<rparr>"

theorem https_requests_answered_witness:
  "https_serve plain_lib 0 ex_http_env ex_https_proxy ''/x/../resolve'' ex_get ex_hs = Some (Redirect ''/resolve'')
   \<and> (\<exists>st'. https_serve plain_lib 0 ex_http_env ex_https_proxy ''/resolve'' ex_get ex_hs = Some (Handle (Some st'))
        \<and> hs_replies st' = [dns_reply [9, 0]])"
proof -
  note serve = https_requests_answered [of plain_lib 0 ex_http_env ex_https_proxy _ ex_get ex_hs]
  obtain st' where st': "resolve plain_lib 0 ex_http_env ''9.9.9.9:53'' ex_get ex_hs = Some st'"
      "hs_replies st' = [dns_reply [9, 0]]"
    using resolve_responds_witness by blast
  have "clean_path ''/x/../resolve'' = ''/resolve''" by code_simp
  with serve [of "''/x/../resolve''"]
  have "https_serve plain_lib 0 ex_http_env ex_https_proxy ''/x/../resolve'' ex_get ex_hs = Some (Redirect ''/resolve'')"
    by (simp add: ex_get_def)
  with serve [of "''/resolve''"] st' show ?thesis by (simp add: ex_https_proxy_def)
qed

end
