(* ===== verification/Net_Rings.thy ===== *)
theory Net_Rings
  imports Prelude
begin

text \<open>
  The two ring buffers of \<^verbatim>\<open>internal/nettrace\<close>: the events of a trace (\<^verbatim>\<open>evtring.go\<close>, an array with a
  position) and the finished traces of a bucket (\<^verbatim>\<open>traceRing\<close> in \<^verbatim>\<open>trace.go\<close>, a \<^verbatim>\<open>container/ring\<close>).
  Both keep the last entries added, oldest first; that is their interface, and both are shown to
  provide it. Adding to a ring without room for anything panics (\<open>None\<close>).
\<close>

section \<open>The interface\<close>

fun add_all :: "('a \<Rightarrow> 'r \<Rightarrow> 'r option) \<Rightarrow> 'a list \<Rightarrow> 'r \<Rightarrow> 'r option" where
  "add_all add [] r = Some r"
| "add_all add (x # xs) r = (case add x r of None \<Rightarrow> None | Some r' \<Rightarrow> add_all add xs r')"

locale bounded_ring =
  fixes add :: "'a \<Rightarrow> 'r \<Rightarrow> 'r option"
    and contents :: "'r \<Rightarrow> 'a list"
    and cap :: nat
    and wf :: "'r \<Rightarrow> bool"
  assumes add_total: "wf r \<Longrightarrow> \<exists>r'. add x r = Some r' \<and> wf r' \<and> contents r' = lastn cap (contents r @ [x])"
    and bounded: "wf r \<Longrightarrow> length (contents r) \<le> cap"
begin

lemma add_contents: "wf r \<Longrightarrow> add x r = Some r' \<Longrightarrow> contents r' = lastn cap (contents r @ [x])"
  using add_total [of r x] by auto

lemma add_wf: "wf r \<Longrightarrow> add x r = Some r' \<Longrightarrow> wf r'"
  using add_total [of r x] by auto

lemma add_all_contents:
  "wf r \<Longrightarrow> \<exists>r'. add_all add xs r = Some r' \<and> wf r' \<and> contents r' = lastn cap (contents r @ xs)"
proof (induction xs arbitrary: r)
  case Nil
  then show ?case using bounded by simp
next
  case (Cons x xs)
  obtain r1 where r1: "add x r = Some r1" "wf r1" "contents r1 = lastn cap (contents r @ [x])"
    using add_total [OF Cons.prems] by blast
  obtain r2 where "add_all add xs r1 = Some r2" "wf r2" "contents r2 = lastn cap (contents r1 @ xs)"
    using Cons.IH [OF r1(2)] by blast
  moreover have "lastn cap (contents r1 @ xs) = lastn cap (contents r @ x # xs)"
    by (simp add: r1(3) lastn_append_lastn)
  ultimately show ?case using r1(1) by simp
qed

lemma newest_kept: "wf r \<Longrightarrow> 0 < cap \<Longrightarrow> add x r = Some r' \<Longrightarrow> x \<in> set (contents r')"
  using add_contents last_in_lastn by metis

lemma oldest_out: "wf r \<Longrightarrow> add x r = Some r' \<Longrightarrow> set (contents r') \<subseteq> insert x (set (contents r))"
  using add_contents set_lastn_subset by fastforce

end

section \<open>The ring of events\<close>

record 'e evt_ring =
  er_evts :: "'e list"
  er_max :: nat
  er_pos :: int
  er_first_drop :: instant

definition new_evt_ring :: "nat \<Rightarrow> 'e evt_ring" where
  "new_evt_ring n = \<lparr>er_evts = [], er_max = n, er_pos = -1, er_first_drop = 0\<rparr>"

text \<open>\<open>time\<close> gives the time of an event; the first event that is dropped leaves its own.\<close>

definition evt_ring_add :: "('e \<Rightarrow> instant) \<Rightarrow> 'e \<Rightarrow> 'e evt_ring \<Rightarrow> 'e evt_ring option" where
  "evt_ring_add time e r =
     (if length (er_evts r) < er_max r
      then Some (r\<lparr>er_evts := er_evts r @ [e], er_pos := er_pos r + 1\<rparr>)
      else if er_max r = 0 then None
      else (let r = r\<lparr>er_pos := (er_pos r + 1) mod int (er_max r)\<rparr>;
                r = (if is_zero_time (er_first_drop r)
                     then r\<lparr>er_first_drop := time (er_evts r ! nat (er_pos r))\<rparr> else r)
            in Some (r\<lparr>er_evts := (er_evts r)[nat (er_pos r) := e]\<rparr>)))"

definition evt_ring_do :: "'e evt_ring \<Rightarrow> 'e list" where
  "evt_ring_do r =
     map (\<lambda>i. er_evts r ! nat ((er_pos r + 1 + int i) mod int (length (er_evts r)))) [0..<length (er_evts r)]"

text \<open>Until it is full the position is the last index; then it is any.\<close>

definition evt_ring_wf :: "nat \<Rightarrow> 'e evt_ring \<Rightarrow> bool" where
  "evt_ring_wf n r \<longleftrightarrow> er_max r = n \<and> 0 < n \<and> length (er_evts r) \<le> n
     \<and> (length (er_evts r) < n \<longrightarrow> er_pos r = int (length (er_evts r)) - 1)
     \<and> -1 \<le> er_pos r \<and> er_pos r < int (length (er_evts r)) \<and> (er_evts r \<noteq> [] \<longrightarrow> 0 \<le> er_pos r)"

lemma evt_ring_wf_new: "0 < n \<Longrightarrow> evt_ring_wf n (new_evt_ring n)"
  by (simp add: evt_ring_wf_def new_evt_ring_def)

lemma evt_ring_do_rotate:
  assumes "evt_ring_wf n r"
  shows "evt_ring_do r = drop (nat (er_pos r + 1)) (er_evts r) @ take (nat (er_pos r + 1)) (er_evts r)"
proof (cases "er_evts r = []")
  case True
  then show ?thesis by (simp add: evt_ring_do_def)
next
  case False
  define k where "k = nat (er_pos r + 1)"
  let ?xs = "er_evts r"
  have k: "er_pos r + 1 = int k" "k \<le> length ?xs" "0 < k"
    using assms False by (auto simp: evt_ring_wf_def k_def)
  have "evt_ring_do r = map (\<lambda>i. ?xs ! ((k + i) mod length ?xs)) [0..<length ?xs]"
    by (simp add: evt_ring_do_def k(1) nat_mod_distrib flip: of_nat_add zmod_int)
  also have "\<dots> = rotate k ?xs"
    by (rule nth_equalityI) (simp_all add: nth_rotate add.commute)
  also have "\<dots> = drop k ?xs @ take k ?xs"
  proof (cases "k = length ?xs")
    case True
    then show ?thesis by simp
  next
    case False
    with k(2) show ?thesis by (simp add: rotate_drop_take)
  qed
  finally show ?thesis by (simp add: k_def)
qed

lemma evt_ring_room:
  assumes "evt_ring_wf n r" and "length (er_evts r) < n"
  shows "evt_ring_do r = er_evts r" and "er_pos r + 1 = int (length (er_evts r))"
  using assms evt_ring_do_rotate [OF assms(1)] by (simp_all add: evt_ring_wf_def)

lemma rotate_update:
  assumes "k < length xs"
  shows "drop (Suc k) (xs[k := e]) @ take (Suc k) (xs[k := e]) = tl (drop k xs @ take k xs) @ [e]"
proof -
  obtain y ys where d: "drop k xs = y # ys" using assms by (cases "drop k xs") auto
  then have "drop (Suc k) xs = ys" by (metis drop_Suc list.sel(3) tl_drop)
  moreover have "take (Suc k) (xs[k := e]) = take k xs @ [e]"
    using assms by (simp add: take_Suc_conv_app_nth)
  ultimately show ?thesis using d by simp
qed

lemma evt_ring_add_full:
  assumes "evt_ring_wf n r" and "length (er_evts r) = n"
  shows "\<exists>r'. evt_ring_add time e r = Some r' \<and> evt_ring_wf n r' \<and> evt_ring_do r' = tl (evt_ring_do r) @ [e]
    \<and> er_first_drop r' = (if er_first_drop r = 0 then time (hd (evt_ring_do r)) else er_first_drop r)"
proof -
  define k where "k = nat ((er_pos r + 1) mod int n)"
  let ?xs = "er_evts r"
  have n: "0 < n" "er_max r = n" "?xs \<noteq> []" using assms by (auto simp: evt_ring_wf_def)
  have k: "k < n" "int k = (er_pos r + 1) mod int n"
    using n(1) by (simp_all add: k_def nat_less_iff)
  have rot: "evt_ring_do r = drop k ?xs @ take k ?xs"
  proof (cases "er_pos r + 1 = int n")
    case True
    then have "k = 0" by (simp add: k_def)
    moreover have "nat (er_pos r + 1) = n" using True by simp
    ultimately show ?thesis using assms by (simp add: evt_ring_do_rotate [OF assms(1)])
  next
    case False
    then have "0 \<le> er_pos r + 1" "er_pos r + 1 < int n" using assms by (auto simp: evt_ring_wf_def)
    then have "k = nat (er_pos r + 1)" by (simp add: k_def)
    then show ?thesis by (simp add: evt_ring_do_rotate [OF assms(1)])
  qed
  have hd: "hd (evt_ring_do r) = ?xs ! k"
    using k(1) assms(2) by (simp add: rot hd_append hd_drop_conv_nth)
  define r' where "r' = r\<lparr>er_pos := int k, er_evts := ?xs[k := e],
    er_first_drop := (if er_first_drop r = 0 then time (?xs ! k) else er_first_drop r)\<rparr>"
  have add: "evt_ring_add time e r = Some r'"
    using assms(2) n k by (simp add: evt_ring_add_def r'_def Let_def is_zero_time_def flip: k(2))
  have wf: "evt_ring_wf n r'"
    using assms k(1) n by (simp add: evt_ring_wf_def r'_def)
  have "evt_ring_do r' = drop (Suc k) (?xs[k := e]) @ take (Suc k) (?xs[k := e])"
    by (subst evt_ring_do_rotate [OF wf]) (simp add: r'_def nat_add_distrib)
  also have "\<dots> = tl (evt_ring_do r) @ [e]"
    unfolding rot by (rule rotate_update) (use k(1) assms(2) in simp)
  finally have "evt_ring_do r' = tl (evt_ring_do r) @ [e]" .
  with add wf hd show ?thesis by (auto simp: r'_def)
qed

lemma length_evt_ring_do [simp]: "length (evt_ring_do r) = length (er_evts r)"
  by (simp add: evt_ring_do_def)

lemma evt_ring_add_room:
  assumes "evt_ring_wf n r" and "length (er_evts r) < n"
  shows "\<exists>r'. evt_ring_add time e r = Some r' \<and> evt_ring_wf n r' \<and> evt_ring_do r' = evt_ring_do r @ [e]
    \<and> er_first_drop r' = er_first_drop r"
proof -
  define r' where "r' = r\<lparr>er_evts := er_evts r @ [e], er_pos := er_pos r + 1\<rparr>"
  have add: "evt_ring_add time e r = Some r'"
    using assms by (simp add: evt_ring_add_def r'_def evt_ring_wf_def)
  have wf: "evt_ring_wf n r'" using assms by (simp add: evt_ring_wf_def r'_def)
  have "evt_ring_do r' = er_evts r @ [e]"
    using assms evt_ring_room(2) [OF assms] by (subst evt_ring_do_rotate [OF wf]) (simp add: r'_def)
  with add wf show ?thesis by (simp add: r'_def evt_ring_room(1) [OF assms])
qed

interpretation evt: bounded_ring "evt_ring_add time" evt_ring_do n "evt_ring_wf n" for time n
proof
  fix r :: "'a evt_ring" and x
  assume wf: "evt_ring_wf n r"
  show "length (evt_ring_do r) \<le> n" using wf by (simp add: evt_ring_wf_def)
  show "\<exists>r'. evt_ring_add time x r = Some r' \<and> evt_ring_wf n r' \<and> evt_ring_do r' = lastn n (evt_ring_do r @ [x])"
  proof (cases "length (er_evts r) < n")
    case True
    with evt_ring_add_room [OF wf True, of time x] show ?thesis by fastforce
  next
    case False
    with wf have "length (er_evts r) = n" "0 < n" by (simp_all add: evt_ring_wf_def)
    with evt_ring_add_full [OF wf, of time x] show ?thesis by (fastforce simp: lastn_snoc_full)
  qed
qed

section \<open>The ring of traces\<close>

text \<open>The slots from the current one on, each empty or with a trace.\<close>

record 't trace_ring =
  rg_ring :: "'t option list"
  rg_max :: nat
  rg_len :: nat

definition new_trace_ring :: "nat \<Rightarrow> 't trace_ring" where
  "new_trace_ring n = \<lparr>rg_ring = replicate n None, rg_max = n, rg_len = 0\<rparr>"

definition trace_ring_add :: "'t \<Rightarrow> 't trace_ring \<Rightarrow> 't trace_ring option" where
  "trace_ring_add tr r =
     (case rg_ring r of
        [] \<Rightarrow> None
      | _ # rest \<Rightarrow>
          Some (r\<lparr>rg_ring := rest @ [Some tr], rg_len := (if rg_len r < rg_max r then rg_len r + 1 else rg_len r)\<rparr>))"

definition trace_ring_do :: "'t trace_ring \<Rightarrow> 't list" where
  "trace_ring_do r = concat (map (\<lambda>x. case x of None \<Rightarrow> [] | Some tr \<Rightarrow> [tr]) (rg_ring r))"

definition trace_ring_wf :: "nat \<Rightarrow> 't trace_ring \<Rightarrow> bool" where
  "trace_ring_wf n r \<longleftrightarrow> 0 < n \<and> rg_max r = n \<and> rg_len r \<le> n
     \<and> (\<exists>xs. length xs = rg_len r \<and> rg_ring r = replicate (n - rg_len r) None @ map Some xs)"

lemma trace_ring_wf_new: "0 < n \<Longrightarrow> trace_ring_wf n (new_trace_ring n)"
  by (simp add: trace_ring_wf_def new_trace_ring_def)

lemma trace_ring_do_shape:
  "rg_ring r = replicate k None @ map Some xs \<Longrightarrow> trace_ring_do r = xs"
proof -
  assume a: "rg_ring r = replicate k None @ map Some xs"
  have "concat (map (\<lambda>x. case x of None \<Rightarrow> [] | Some tr \<Rightarrow> [tr]) (replicate k None)) = []"
    by (induction k) simp_all
  moreover have "concat (map (\<lambda>x. case x of None \<Rightarrow> [] | Some tr \<Rightarrow> [tr]) (map Some xs)) = xs"
    by (induction xs) simp_all
  ultimately show ?thesis by (simp add: trace_ring_do_def a del: map_map map_replicate)
qed

lemma trace_ring_len: "trace_ring_wf n r \<Longrightarrow> rg_len r = length (trace_ring_do r)"
  by (auto simp: trace_ring_wf_def trace_ring_do_shape)

interpretation trc: bounded_ring trace_ring_add trace_ring_do n "trace_ring_wf n" for n
proof
  fix r :: "'a trace_ring" and x
  assume "trace_ring_wf n r"
  then obtain xs where xs: "length xs = rg_len r" "rg_ring r = replicate (n - rg_len r) None @ map Some xs"
      and n: "0 < n" "rg_max r = n" "rg_len r \<le> n"
    by (auto simp: trace_ring_wf_def)
  note d = trace_ring_do_shape [OF xs(2)]
  show "length (trace_ring_do r) \<le> n" by (simp add: d xs n)
  show "\<exists>r'. trace_ring_add x r = Some r' \<and> trace_ring_wf n r' \<and> trace_ring_do r' = lastn n (trace_ring_do r @ [x])"
  proof (cases "rg_len r < n")
    case True
    then obtain m where m: "n - rg_len r = Suc m" by (cases "n - rg_len r") auto
    let ?r = "r\<lparr>rg_ring := replicate m None @ map Some (xs @ [x]), rg_len := rg_len r + 1\<rparr>"
    have add: "trace_ring_add x r = Some ?r" using True n m by (simp add: trace_ring_add_def xs(2))
    have "n - (rg_len r + 1) = m" using m by simp
    then have "trace_ring_wf n ?r"
      using n True xs(1) by (auto simp: trace_ring_wf_def intro!: exI [of _ "xs @ [x]"])
    moreover have "trace_ring_do ?r = xs @ [x]" by (rule trace_ring_do_shape [of _ m]) simp
    ultimately show ?thesis using add True xs(1) by (simp add: d)
  next
    case False
    with n have len: "rg_len r = n" by simp
    then obtain y ys where ys: "xs = y # ys" using xs(1) n(1) by (cases xs) auto
    let ?r = "r\<lparr>rg_ring := map Some (ys @ [x])\<rparr>"
    have add: "trace_ring_add x r = Some ?r" using len n by (simp add: trace_ring_add_def xs(2) ys)
    have "trace_ring_wf n ?r"
      using n xs(1) ys len by (auto simp: trace_ring_wf_def intro!: exI [of _ "ys @ [x]"])
    moreover have "trace_ring_do ?r = ys @ [x]" by (rule trace_ring_do_shape [of _ 0]) simp
    ultimately show ?thesis using add xs(1) ys len n(1) by (simp add: d lastn_def)
  qed
qed

end
