(* ===== verification/Go_Float.thy ===== *)
theory Go_Float
  imports Complex_Main Go_Format
begin

text \<open>
  Floating-point numbers as the program uses them: \<^verbatim>\<open>float32\<close> and \<^verbatim>\<open>float64\<close> values are the rationals
  they stand for, and every operation is the exact one followed by \<open>round_float\<close>, the rounding to the
  nearest number of \<open>p\<close> bits, ties to even. That is IEEE arithmetic for zero and for numbers in the
  normal range, where those of the program are. \<open>format_fixed\<close> is \<^verbatim>\<open>%f\<close> with a precision, which \<^verbatim>\<open>strconv\<close>
  rounds correctly from the exact value.
\<close>

section \<open>Rounding\<close>

text \<open>The nearest integer, ties to even.\<close>

definition round_even :: "rat \<Rightarrow> int" where
  "round_even x =
     (let f = \<lfloor>x\<rfloor>; d = x - of_int f
      in if 2 * d < 1 then f else if 1 < 2 * d then f + 1 else if even f then f else f + 1)"

fun bit_len :: "nat \<Rightarrow> nat" where
  "bit_len n = (if n = 0 then 0 else Suc (bit_len (n div 2)))"

declare bit_len.simps [simp del]

text \<open>The exponent of a positive number: \<open>2 powi e \<le> x\<close> and \<open>x < 2 powi (e + 1)\<close>.\<close>

definition float_exp :: "rat \<Rightarrow> int" where
  "float_exp x = (if 1 \<le> x then int (bit_len (nat \<lfloor>x\<rfloor>)) - 1 else - int (bit_len (nat (\<lceil>1 / x\<rceil> - 1))))"

definition float_ulp :: "nat \<Rightarrow> rat \<Rightarrow> rat" where
  "float_ulp p x = 2 powi (float_exp x - int p + 1)"

definition round_pos :: "nat \<Rightarrow> rat \<Rightarrow> rat" where
  "round_pos p x = of_int (round_even (x / float_ulp p x)) * float_ulp p x"

definition round_float :: "nat \<Rightarrow> rat \<Rightarrow> rat" where
  "round_float p x = (if x = 0 then 0 else if x < 0 then - round_pos p (- x) else round_pos p x)"

abbreviation float32 :: "rat \<Rightarrow> rat" where "float32 \<equiv> round_float 24"
abbreviation float64 :: "rat \<Rightarrow> rat" where "float64 \<equiv> round_float 53"

text \<open>The conversion to an integer, and \<^verbatim>\<open>math.Modf\<close>'s fraction.\<close>

definition truncate_rat :: "rat \<Rightarrow> int" where
  "truncate_rat x = (if x < 0 then - \<lfloor>- x\<rfloor> else \<lfloor>x\<rfloor>)"

definition modf_frac :: "rat \<Rightarrow> rat" where
  "modf_frac x = x - of_int (truncate_rat x)"

section \<open>Text\<close>

definition pad_left :: "nat \<Rightarrow> string \<Rightarrow> string" where
  "pad_left w s = replicate (w - length s) (CHR '' '') @ s"

definition fixed_point :: "nat \<Rightarrow> rat \<Rightarrow> nat" where
  "fixed_point prec x = nat (round_even (\<bar>x\<bar> * 10 ^ prec))"

definition format_fixed :: "nat \<Rightarrow> rat \<Rightarrow> string" where
  "format_fixed prec x =
     (let n = fixed_point prec x
      in (if x < 0 then ''-'' else []) @ show_nat (n div 10 ^ prec) @ ''.'' @ low_digits prec (n mod 10 ^ prec))"

section \<open>Lemmas on rounding\<close>

lemma round_even_near: "\<bar>of_int (round_even x) - x\<bar> \<le> 1 / 2"
proof -
  have "of_int \<lfloor>x\<rfloor> \<le> x" "x < of_int \<lfloor>x\<rfloor> + 1" by linarith+
  then show ?thesis by (auto simp: round_even_def Let_def abs_le_iff)
qed

lemma round_even_of_int [simp]: "round_even (of_int n) = n"
  by (simp add: round_even_def)

lemma round_even_mono:
  assumes "x \<le> y"
  shows "round_even x \<le> round_even y"
proof (cases "\<lfloor>x\<rfloor> = \<lfloor>y\<rfloor>")
  case True
  with assms show ?thesis by (auto simp: round_even_def Let_def)
next
  case False
  with assms have "\<lfloor>x\<rfloor> + 1 \<le> \<lfloor>y\<rfloor>" using floor_mono [OF assms] by simp
  moreover have "round_even x \<le> \<lfloor>x\<rfloor> + 1" "\<lfloor>y\<rfloor> \<le> round_even y" by (simp_all add: round_even_def Let_def)
  ultimately show ?thesis by simp
qed

lemma bit_len_bounds: "0 < n \<Longrightarrow> 0 < bit_len n \<and> 2 ^ (bit_len n - 1) \<le> n \<and> n < 2 ^ bit_len n"
proof (induction n rule: bit_len.induct)
  case (1 n)
  show ?case
  proof (cases "n div 2 = 0")
    case True
    with "1.prems" have "n = 1" by auto
    then show ?thesis by (simp add: bit_len.simps)
  next
    case False
    with 1 have IH: "0 < bit_len (n div 2)" "2 ^ (bit_len (n div 2) - 1) \<le> n div 2" "n div 2 < 2 ^ bit_len (n div 2)" by auto
    then obtain k where k: "bit_len (n div 2) = Suc k" by (cases "bit_len (n div 2)") auto
    have "bit_len n = Suc (Suc k)" using "1.prems" k by (simp add: bit_len.simps [of n])
    moreover have "2 ^ Suc k \<le> n" "n < 2 ^ Suc (Suc k)" using IH k by simp_all
    ultimately show ?thesis by simp
  qed
qed

lemma float_exp_bounds:
  assumes "0 < x"
  shows "2 powi float_exp x \<le> x" and "x < 2 powi (float_exp x + 1)"
proof -
  have "2 powi float_exp x \<le> x \<and> x < 2 powi (float_exp x + 1)"
  proof (cases "1 \<le> x")
    case True
    define m where "m = nat \<lfloor>x\<rfloor>"
    have m: "0 < m" "of_nat m \<le> x" "x < of_nat m + 1"
      using True by (simp_all add: m_def) linarith+
    from bit_len_bounds [OF m(1)] obtain k where k: "bit_len m = Suc k" "2 ^ k \<le> m" "m + 1 \<le> 2 ^ Suc k"
      by (cases "bit_len m") auto
    have "(2 :: rat) ^ k \<le> of_nat m" using k(2) by (metis of_nat_le_iff of_nat_numeral of_nat_power)
    moreover have "of_nat (m + 1) \<le> (2 :: rat) ^ Suc k" using k(3) by (metis of_nat_le_iff of_nat_numeral of_nat_power)
    moreover have "float_exp x = int k" using True k(1) by (simp add: float_exp_def m_def)
    moreover have "(2 :: rat) powi (int k + 1) = 2 ^ Suc k" by (metis of_nat_Suc add.commute power_int_of_nat)
    ultimately have "(2 :: rat) ^ k \<le> x" "x < 2 ^ Suc k" "2 powi float_exp x = (2 :: rat) ^ k"
        "2 powi (float_exp x + 1) = (2 :: rat) ^ Suc k" using m by (simp_all only: power_int_of_nat of_nat_add of_nat_1)
    then show ?thesis by simp
  next
    case False
    define c where "c = nat (\<lceil>1 / x\<rceil> - 1)"
    have "1 < 1 / x" using False assms by simp
    then have c: "0 < c" "of_nat c < 1 / x" "1 / x \<le> of_nat c + 1"
      by (simp_all add: c_def) linarith+
    from bit_len_bounds [OF c(1)] obtain k where k: "bit_len c = Suc k" "2 ^ k \<le> c" "c + 1 \<le> 2 ^ Suc k"
      by (cases "bit_len c") auto
    have lo: "(2 :: rat) ^ k \<le> of_nat c" using k(2) by (metis of_nat_le_iff of_nat_numeral of_nat_power)
    have hi: "of_nat (c + 1) \<le> (2 :: rat) ^ Suc k" using k(3) by (metis of_nat_le_iff of_nat_numeral of_nat_power)
    have y: "2 ^ k < 1 / x" "1 / x \<le> 2 ^ Suc k"
      using le_less_trans [OF lo c(2)] order_trans [OF c(3) hi [unfolded of_nat_add of_nat_1]] .
    have e: "float_exp x = - int (Suc k)" using False k(1) by (simp add: float_exp_def c_def)
    have p1: "(2 :: rat) powi (float_exp x) = 1 / 2 ^ Suc k" unfolding e by (simp add: power_int_minus field_simps del: power_Suc of_nat_Suc)
    have p2: "(2 :: rat) powi (float_exp x + 1) = 1 / 2 ^ k" unfolding e by (simp add: power_int_minus field_simps)
    show ?thesis unfolding p1 p2 using y assms by (simp add: field_simps)
  qed
  then show "2 powi float_exp x \<le> x" and "x < 2 powi (float_exp x + 1)" by auto
qed

lemma float_ulp_pos: "0 < float_ulp p x"
  by (simp add: float_ulp_def)

lemma ulp_scale: "2 ^ k * float_ulp p x = 2 powi (float_exp x - int p + 1 + int k)"
  by (simp add: float_ulp_def power_int_add power_int_diff)

lemma ulp_scales:
  assumes "0 < p"
  shows "2 ^ (p - 1) * float_ulp p x = 2 powi float_exp x" and "2 ^ p * float_ulp p x = 2 powi (float_exp x + 1)"
  unfolding ulp_scale using assms by (simp_all add: of_nat_diff algebra_simps)

text \<open>A positive number has a significand of \<open>p\<close> bits.\<close>

lemma significand_bounds:
  assumes "0 < x" and "0 < p"
  shows "2 ^ (p - 1) \<le> x / float_ulp p x" and "x / float_ulp p x < 2 ^ p"
  using ulp_scales [OF assms(2), of x] float_exp_bounds [OF assms(1)] float_ulp_pos [of p x]
  by (simp_all add: field_simps)

lemma round_pos_error: "0 < x \<Longrightarrow> 0 < p \<Longrightarrow> \<bar>round_pos p x - x\<bar> \<le> x / 2 ^ p"
proof -
  assume x: "0 < x" "0 < p"
  let ?u = "float_ulp p x"
  have "\<bar>round_pos p x - x\<bar> = \<bar>of_int (round_even (x / ?u)) - x / ?u\<bar> * ?u"
  proof -
    have "round_pos p x - x = (of_int (round_even (x / ?u)) - x / ?u) * ?u"
      using float_ulp_pos [of p x] by (simp add: round_pos_def left_diff_distrib)
    then show ?thesis using float_ulp_pos [of p x] by (simp add: abs_mult)
  qed
  also have "\<dots> \<le> 1 / 2 * ?u"
    using round_even_near [of "x / ?u"] float_ulp_pos [of p x] by (intro mult_right_mono) auto
  also have "\<dots> \<le> x / 2 ^ p"
  proof -
    have "2 ^ (p - 1) * ?u \<le> x" using significand_bounds(1) [OF x] float_ulp_pos [of p x] by (simp add: field_simps)
    moreover have "(2 :: rat) ^ p = 2 * 2 ^ (p - 1)" using x(2) by (simp flip: power_Suc)
    ultimately show ?thesis by (simp add: field_simps)
  qed
  finally show ?thesis .
qed

text \<open>The error of an operation is within half a unit in the last place.\<close>

lemma round_float_error: "0 < p \<Longrightarrow> \<bar>round_float p x - x\<bar> \<le> \<bar>x\<bar> / 2 ^ p"
  using round_pos_error [of x p] round_pos_error [of "- x" p] by (auto simp: round_float_def abs_minus_commute)

lemma round_pos_bounds:
  assumes "0 < x" and "0 < p"
  shows "2 powi float_exp x \<le> round_pos p x" and "round_pos p x \<le> 2 powi (float_exp x + 1)"
proof -
  let ?u = "float_ulp p x"
  have "round_even (of_int (2 ^ (p - 1))) \<le> round_even (x / ?u)" "round_even (x / ?u) \<le> round_even (of_int (2 ^ p))"
    using significand_bounds [OF assms] by (auto intro!: round_even_mono)
  then have k: "(2 :: rat) ^ (p - 1) \<le> of_int (round_even (x / ?u))" "of_int (round_even (x / ?u)) \<le> (2 :: rat) ^ p"
    unfolding round_even_of_int by (metis of_int_le_iff of_int_numeral of_int_power)+
  then have "2 ^ (p - 1) * ?u \<le> round_pos p x" "round_pos p x \<le> 2 ^ p * ?u"
    using float_ulp_pos [of p x] by (simp_all add: round_pos_def mult_right_mono)
  then show "2 powi float_exp x \<le> round_pos p x" "round_pos p x \<le> 2 powi (float_exp x + 1)"
    by (simp_all only: ulp_scales [OF assms(2)])
qed

lemma round_pos_mono:
  assumes "0 < x" and "x \<le> y" and "0 < p"
  shows "round_pos p x \<le> round_pos p y"
proof (cases "float_exp x = float_exp y")
  case True
  then have "float_ulp p x = float_ulp p y" by (simp add: float_ulp_def)
  with assms(2) float_ulp_pos [of p y] show ?thesis
    unfolding round_pos_def by (auto intro!: mult_right_mono round_even_mono divide_right_mono)
next
  case False
  have y: "0 < y" using assms by simp
  have "2 powi float_exp x < (2 :: rat) powi (float_exp y + 1)"
    using float_exp_bounds(1) [OF assms(1)] float_exp_bounds(2) [OF y] assms(2) by linarith
  then have "\<not> float_exp y + 1 \<le> float_exp x" using power_int_increasing [of "float_exp y + 1" "float_exp x" "2 :: rat"] by auto
  with False have "float_exp x + 1 \<le> float_exp y" by simp
  then have "2 powi (float_exp x + 1) \<le> (2 :: rat) powi float_exp y" by (intro power_int_increasing) auto
  with round_pos_bounds(2) [OF assms(1,3)] round_pos_bounds(1) [OF y assms(3)] show ?thesis by linarith
qed

lemma round_pos_nonneg: "0 < x \<Longrightarrow> 0 < p \<Longrightarrow> 0 < round_pos p x"
  using round_pos_bounds(1) [of x p] zero_less_power_int [of "2 :: rat" "float_exp x"] by linarith

lemma round_float_mono: "0 \<le> x \<Longrightarrow> x \<le> y \<Longrightarrow> 0 < p \<Longrightarrow> round_float p x \<le> round_float p y"
  using round_pos_mono [of x y p] round_pos_nonneg [of y p] by (auto simp: round_float_def)

text \<open>Integers of at most \<open>p\<close> bits are exact.\<close>

lemma round_pos_exact:
  assumes "x = of_int n * float_ulp p x"
  shows "round_pos p x = x"
proof -
  have "x / float_ulp p x = of_int n" using assms float_ulp_pos [of p x] by (metis less_irrefl nonzero_eq_divide_eq)
  with assms show ?thesis by (simp add: round_pos_def)
qed

lemma round_pos_int:
  assumes "0 < n" and "n < 2 ^ p"
  shows "round_pos p (of_int n) = of_int n"
proof -
  let ?e = "float_exp (of_int n)"
  have "2 powi ?e \<le> rat_of_int n" using float_exp_bounds(1) [of "of_int n"] assms(1) by simp
  also have "rat_of_int n < 2 powi (int p)" using assms(2) by (metis of_int_less_iff of_int_numeral of_int_power power_int_of_nat)
  finally have "\<not> int p \<le> ?e" using power_int_increasing [of "int p" ?e "2 :: rat"] by auto
  then have k: "?e - int p + 1 = - int (nat (int p - 1 - ?e))" by simp
  define k where "k = nat (int p - 1 - ?e)"
  have k: "?e - int p + 1 = - int k" using k by (simp add: k_def)
  have "rat_of_int n = of_int (n * 2 ^ k) * float_ulp p (of_int n)"
    unfolding float_ulp_def k by (simp add: power_int_minus field_simps)
  then show ?thesis by (rule round_pos_exact)
qed

lemma round_float_int: "\<bar>n\<bar> < 2 ^ p \<Longrightarrow> round_float p (of_int n) = of_int n"
  using round_pos_int [of n p] round_pos_int [of "- n" p] by (auto simp: round_float_def)

lemma round_float_0 [simp]: "round_float p 0 = 0"
  by (simp add: round_float_def)

lemma round_float_nonneg: "0 \<le> x \<Longrightarrow> 0 < p \<Longrightarrow> 0 \<le> round_float p x"
  using round_float_mono [of 0 x p] by simp

lemma round_float_pos: "0 < x \<Longrightarrow> 0 < p \<Longrightarrow> 0 < round_float p x"
  using round_pos_nonneg [of x p] by (simp add: round_float_def)

lemma round_float_1: "1 < p \<Longrightarrow> round_float p 1 = 1"
  using round_float_int [of 1 p] by (simp add: one_less_power)

end
