(* ===== verification/Net_Histogram.thy ===== *)
theory Net_Histogram
  imports Prelude Go_Float
begin

text \<open>
  The latency histogram of \<^verbatim>\<open>internal/nettrace\<close> (\<^verbatim>\<open>histogram.go\<close>, and the buckets of \<^verbatim>\<open>trace.go\<close>).
  Counters are 64-bit words; the percentages are rounded as \<^verbatim>\<open>float32\<close> is, by \<open>Go_Float\<close>. An index out of range panics (\<open>None\<close>).
\<close>

section \<open>Buckets\<close>

abbreviation (input) n_buckets :: nat where "n_buckets \<equiv> 8"

definition buckets :: "duration list" where
  "buckets = [0, 5 * millisecond, 10 * millisecond, 50 * millisecond, 100 * millisecond,
     300 * millisecond, 1 * second, 10 * second]"

fun find_bucket_from :: "nat \<Rightarrow> duration list \<Rightarrow> duration \<Rightarrow> int" where
  "find_bucket_from i [] latency = int n_buckets - 1"
| "find_bucket_from i (d # ds) latency =
     (if latency \<ge> d then find_bucket_from (i + 1) ds latency else int i - 1)"

definition find_bucket :: "duration \<Rightarrow> int" where
  "find_bucket latency = find_bucket_from 0 buckets latency"

section \<open>The histogram\<close>

record histogram =
  h_count :: "u64 list"
  h_total_q :: u64
  h_total_t :: i64
  h_min :: duration
  h_max :: duration

definition empty_histogram :: histogram where
  "empty_histogram = \<lparr>h_count = replicate n_buckets 0, h_total_q = 0, h_total_t = 0, h_min = 0, h_max = 0\<rparr>"

definition hist_add :: "int \<Rightarrow> duration \<Rightarrow> histogram \<Rightarrow> histogram option" where
  "hist_add bucket latency h =
     (let h = (if h_total_q h = 0 \<or> h_min h > latency then h\<lparr>h_min := latency\<rparr> else h);
          h = (if h_max h < latency then h\<lparr>h_max := latency\<rparr> else h)
      in if bucket < 0 \<or> int (length (h_count h)) \<le> bucket then None
         else Some (h\<lparr>h_count := (h_count h)[nat bucket := h_count h ! nat bucket + 1],
                      h_total_q := h_total_q h + 1,
                      h_total_t := h_total_t h + word_of_int latency\<rparr>))"

record hist_line =
  ln_start :: duration
  ln_bucket_idx :: nat
  ln_count :: u64
  ln_percent :: rat
  ln_cum_pct :: rat

record hist_snapshot =
  sn_counts :: "(duration \<times> hist_line) list"
  sn_count :: u64
  sn_avg :: duration
  sn_min :: duration
  sn_max :: duration

text \<open>The loop of \<^verbatim>\<open>Snapshot\<close>, from bucket \<open>i\<close> on.\<close>

definition float_percent :: "nat \<Rightarrow> nat \<Rightarrow> rat" where
  "float_percent n q = float32 (float32 (float32 (of_nat n) / float32 (of_nat q)) * 100)"

definition percent_of :: "u64 \<Rightarrow> u64 \<Rightarrow> rat" where
  "percent_of x totalQ = (if totalQ > 0 then float_percent (unat x) (unat totalQ) else 0)"

fun snapshot_lines :: "u64 \<Rightarrow> nat \<Rightarrow> u64 \<Rightarrow> u64 list \<Rightarrow> (duration \<times> hist_line) list" where
  "snapshot_lines totalQ i cum [] = []"
| "snapshot_lines totalQ i cum (c # cs) =
     (let cum = cum + c
      in (buckets ! i, \<lparr>ln_start = buckets ! i, ln_bucket_idx = i, ln_count = c,
            ln_percent = percent_of c totalQ, ln_cum_pct = percent_of cum totalQ\<rparr>) # snapshot_lines totalQ (i + 1) cum cs)"

definition snapshot :: "histogram \<Rightarrow> hist_snapshot" where
  "snapshot h = \<lparr>sn_counts = snapshot_lines (h_total_q h) 0 0 (h_count h), sn_count = h_total_q h,
     sn_avg = (if h_total_q h > 0 then sint (h_total_t h div h_total_q h) else 0),
     sn_min = h_min h, sn_max = h_max h\<rparr>"

section \<open>Every latency has its bucket\<close>

lemma find_bucket_cases:
  "find_bucket t = (if t < 0 then -1 else if t < 5 * millisecond then 0 else if t < 10 * millisecond then 1
     else if t < 50 * millisecond then 2 else if t < 100 * millisecond then 3
     else if t < 300 * millisecond then 4 else if t < 1 * second then 5
     else if t < 10 * second then 6 else 7)"
  by (simp add: find_bucket_def buckets_def)

lemma find_bucket_range: "0 \<le> t \<Longrightarrow> 0 \<le> find_bucket t \<and> find_bucket t < 8"
  by (simp add: find_bucket_cases)

lemma find_bucket_negative: "t < 0 \<Longrightarrow> find_bucket t = -1"
  by (simp add: find_bucket_cases)

lemma find_bucket_interval:
  "0 \<le> t \<Longrightarrow> buckets ! nat (find_bucket t) \<le> t
     \<and> (find_bucket t < 7 \<longrightarrow> t < buckets ! nat (find_bucket t + 1))"
  by (simp add: find_bucket_cases buckets_def)

lemma buckets_sorted: "i \<le> j \<Longrightarrow> j < 8 \<Longrightarrow> buckets ! i \<le> buckets ! j"
proof (rule sorted_nth_mono)
  show "sorted buckets" by (simp add: buckets_def)
  show "i \<le> j" "j < 8 \<Longrightarrow> j < length buckets" if "i \<le> j" using that by (simp_all add: buckets_def)
qed

lemma find_bucket_iff:
  assumes "0 \<le> t" and "b < 8"
  shows "find_bucket t = int b \<longleftrightarrow> buckets ! b \<le> t \<and> (b < 7 \<longrightarrow> t < buckets ! (b + 1))"
proof
  assume "find_bucket t = int b"
  then show "buckets ! b \<le> t \<and> (b < 7 \<longrightarrow> t < buckets ! (b + 1))"
    using find_bucket_interval [OF assms(1)] by (simp add: nat_add_distrib)
next
  assume b: "buckets ! b \<le> t \<and> (b < 7 \<longrightarrow> t < buckets ! (b + 1))"
  obtain k where k: "find_bucket t = int k" "k < 8"
    using find_bucket_range [OF assms(1)] nonneg_int_cases by (metis of_nat_less_iff of_nat_numeral)
  have kt: "buckets ! k \<le> t" "k < 7 \<Longrightarrow> t < buckets ! (k + 1)"
    using find_bucket_interval [OF assms(1)] k(1) by (simp_all add: nat_add_distrib)
  have "\<not> k < b"
  proof
    assume "k < b"
    then have "buckets ! (k + 1) \<le> buckets ! b" using assms(2) by (intro buckets_sorted) simp_all
    with kt(2) \<open>k < b\<close> assms(2) b show False by simp
  qed
  moreover have "\<not> b < k"
  proof
    assume "b < k"
    then have "buckets ! (b + 1) \<le> buckets ! k" using k(2) by (intro buckets_sorted) simp_all
    with kt(1) \<open>b < k\<close> k(2) b show False by simp
  qed
  ultimately show "find_bucket t = int b" using k(1) by simp
qed

section \<open>What the histogram counts\<close>

text \<open>All the latencies a family has seen, in order.\<close>

fun hist_add_all :: "duration list \<Rightarrow> histogram \<Rightarrow> histogram option" where
  "hist_add_all [] h = Some h"
| "hist_add_all (t # ts) h =
     (case hist_add (find_bucket t) t h of None \<Rightarrow> None | Some h' \<Rightarrow> hist_add_all ts h')"

definition hist_counts :: "duration list \<Rightarrow> histogram \<Rightarrow> bool" where
  "hist_counts ts h \<longleftrightarrow> length (h_count h) = 8
     \<and> (\<forall>b < 8. h_count h ! b = of_nat (length (filter (\<lambda>t. find_bucket t = int b) ts)))
     \<and> h_total_q h = of_nat (length ts) \<and> h_total_t h = word_of_int (sum_list ts)
     \<and> (ts \<noteq> [] \<longrightarrow> h_min h = Min (set ts) \<and> h_max h = Max (set ts))
     \<and> (ts = [] \<longrightarrow> h_max h = 0)"

lemma hist_counts_add:
  assumes "hist_counts ts h" and "0 \<le> t" and "length ts < 2 ^ 64" and "\<forall>x \<in> set ts. 0 \<le> x"
  shows "\<exists>h'. hist_add (find_bucket t) t h = Some h' \<and> hist_counts (ts @ [t]) h'"
proof -
  have b: "0 \<le> find_bucket t" "find_bucket t < 8" using find_bucket_range [OF assms(2)] by auto
  define b where "b = nat (find_bucket t)"
  have fb: "find_bucket t = int b" "b < 8" using b by (simp_all add: b_def)
  have len: "length (h_count h) = 8" using assms(1) by (simp add: hist_counts_def)
  have zero: "h_total_q h = 0 \<longleftrightarrow> ts = []"
  proof
    assume "h_total_q h = 0"
    then have "(of_nat (length ts) :: u64) = 0" using assms(1) by (simp add: hist_counts_def)
    then have "unat (of_nat (length ts) :: u64) = 0" by simp
    moreover have "unat (of_nat (length ts) :: u64) = length ts"
      using assms(3) by (simp add: unsigned_of_nat take_bit_nat_eq_self)
    ultimately show "ts = []" by simp
  next
    assume "ts = []"
    then show "h_total_q h = 0" using assms(1) by (simp add: hist_counts_def)
  qed
  define mn where "mn = (if h_total_q h = 0 \<or> h_min h > t then t else h_min h)"
  define mx where "mx = (if h_max h < t then t else h_max h)"
  define h' where "h' = h\<lparr>h_min := mn, h_max := mx, h_count := (h_count h)[b := h_count h ! b + 1],
     h_total_q := h_total_q h + 1, h_total_t := h_total_t h + word_of_int t\<rparr>"
  have "hist_add (find_bucket t) t h = Some h'"
    using fb len by (simp add: hist_add_def Let_def h'_def mn_def mx_def)
  moreover have "mn = Min (set (ts @ [t])) \<and> mx = Max (set (ts @ [t]))"
  proof (cases "ts = []")
    case True
    with assms(1,2) zero show ?thesis by (auto simp: mn_def mx_def hist_counts_def)
  next
    case False
    then have "Min (set (ts @ [t])) = min t (Min (set ts))" "Max (set (ts @ [t])) = max t (Max (set ts))"
      by simp_all
    moreover have "h_min h = Min (set ts)" "h_max h = Max (set ts)" "h_total_q h \<noteq> 0"
      using assms(1) False zero by (simp_all add: hist_counts_def)
    ultimately show ?thesis by (simp add: mn_def mx_def)
  qed
  then have "hist_counts (ts @ [t]) h'"
    using assms(1) fb len by (auto simp: hist_counts_def h'_def nth_list_update)
  ultimately show ?thesis by blast
qed

lemma hist_add_all_counts:
  "hist_counts ts h \<Longrightarrow> \<forall>x \<in> set (ts @ us). 0 \<le> x \<Longrightarrow> length (ts @ us) < 2 ^ 64 \<Longrightarrow>
     \<exists>h'. hist_add_all us h = Some h' \<and> hist_counts (ts @ us) h'"
proof (induction us arbitrary: ts h)
  case Nil
  then show ?case by simp
next
  case (Cons u us)
  obtain h1 where h1: "hist_add (find_bucket u) u h = Some h1" "hist_counts (ts @ [u]) h1"
    using hist_counts_add [OF Cons.prems(1), of u] Cons.prems(2,3) by auto
  from Cons.IH [OF h1(2)] Cons.prems(2,3) h1(1) show ?case by simp
qed

lemma hist_counts_empty: "hist_counts [] empty_histogram"
  by (simp add: hist_counts_def empty_histogram_def)

lemma snapshot_lines_fields:
  "length (snapshot_lines q i cum cs) = length cs
   \<and> (\<forall>j < length cs. ln_count (snd (snapshot_lines q i cum cs ! j)) = cs ! j
        \<and> ln_percent (snd (snapshot_lines q i cum cs ! j)) = percent_of (cs ! j) q
        \<and> ln_cum_pct (snd (snapshot_lines q i cum cs ! j)) = percent_of (cum + sum_list (take (Suc j) cs)) q)"
proof (induction cs arbitrary: i cum)
  case Nil
  then show ?case by simp
next
  case (Cons c cs)
  then show ?case by (auto simp: Let_def nth_Cons add.assoc split: nat.split)
qed

lemma sum_list_of_nat: "(\<Sum>x\<leftarrow>xs. of_nat (f x)) = (of_nat (\<Sum>x\<leftarrow>xs. f x) :: 'a :: semiring_1)"
  by (induction xs) simp_all

lemma bucket_counts_sum:
  assumes "\<forall>x \<in> set ts. 0 \<le> x"
  shows "(\<Sum>b\<leftarrow>[0..<8]. length (filter (\<lambda>t. find_bucket t = int b) ts)) = length ts"
  using assms
proof (induction ts)
  case Nil
  then show ?case by (simp add: sum_list_triv)
next
  case (Cons t ts)
  have "0 \<le> find_bucket t" "find_bucket t < 8" using Cons.prems find_bucket_range [of t] by auto
  then consider "find_bucket t = 0" | "find_bucket t = 1" | "find_bucket t = 2" | "find_bucket t = 3"
    | "find_bucket t = 4" | "find_bucket t = 5" | "find_bucket t = 6" | "find_bucket t = 7"
    by linarith
  then show ?case using Cons by cases (simp_all add: upt_rec)
qed

text \<open>The percentages grow with the counts, and a whole is exactly 100 of them, in spite of the rounding.\<close>

lemma float_percent_mono: "m \<le> n \<Longrightarrow> float_percent m q \<le> float_percent n q"
  by (auto simp: float_percent_def intro!: round_float_mono mult_right_mono divide_right_mono round_float_nonneg
      mult_nonneg_nonneg divide_nonneg_nonneg)

lemma float_percent_self:
  assumes "0 < q"
  shows "float_percent q q = 100"
proof -
  have "0 < float32 (of_nat q)" using assms by (intro round_float_pos) simp_all
  then have "float32 (float32 (of_nat q) / float32 (of_nat q)) = 1" by (simp add: round_float_1)
  moreover have "float32 100 = 100" using round_float_int [of 100 24] by simp
  ultimately show ?thesis by (simp add: float_percent_def)
qed

lemma percent_of_mono: "unat x \<le> unat y \<Longrightarrow> percent_of x q \<le> percent_of y q"
  by (simp add: percent_of_def float_percent_mono)

lemma percent_of_self: "0 < q \<Longrightarrow> percent_of q q = 100"
  by (simp add: percent_of_def float_percent_self word_less_nat_alt)

lemma percent_of_range:
  assumes "unat x \<le> unat q"
  shows "0 \<le> percent_of x q" and "percent_of x q \<le> 100"
proof -
  have "float_percent 0 (unat q) = 0" by (simp add: float_percent_def)
  then show "0 \<le> percent_of x q" using float_percent_mono [of 0 "unat x" "unat q"] by (simp add: percent_of_def)
  show "percent_of x q \<le> 100"
    using percent_of_mono [OF assms, of q] percent_of_self [of q] by (cases "0 < q") (simp_all add: percent_of_def)
qed

lemma unat_sum_list:
  fixes ws :: "u64 list"
  shows "(\<Sum>x\<leftarrow>ws. unat x) < 2 ^ 64 \<Longrightarrow> unat (sum_list ws) = (\<Sum>x\<leftarrow>ws. unat x)"
proof (induction ws)
  case Nil
  then show ?case by simp
next
  case (Cons w ws)
  then have "unat w + unat (sum_list ws) < 2 ^ LENGTH(64)" by simp
  with Cons show ?case by (simp add: unat_word_ariths(1))
qed

lemma sum_list_take_mono: "j \<le> k \<Longrightarrow> (\<Sum>x\<leftarrow>take j ws. f x) \<le> ((\<Sum>x\<leftarrow>take k ws. f x) :: nat)"
proof -
  assume "j \<le> k"
  then have "take k ws = take j ws @ drop j (take k ws)" by (metis append_take_drop_id min_def take_take)
  then show ?thesis by (metis le_add1 map_append sum_list_append)
qed

text \<open>The accumulated percentages of lines whose counts add up to the total.\<close>

lemma snapshot_lines_cum:
  assumes sum: "(\<Sum>x\<leftarrow>cs. unat x) = unat q"
  shows "sorted (map (ln_cum_pct \<circ> snd) (snapshot_lines q 0 0 cs))"
    and "\<forall>l \<in> set (snapshot_lines q 0 0 cs). 0 \<le> ln_percent (snd l) \<and> ln_percent (snd l) \<le> 100"
proof -
  have small: "(\<Sum>x\<leftarrow>take j cs. unat x) \<le> unat q" for j
    using sum_list_take_mono [of j "max j (length cs)" unat cs] sum by simp
  have "unat q < 2 ^ 64" using unsigned_less [of q] by simp
  with small have unat_cum: "unat (sum_list (take j cs)) = (\<Sum>x\<leftarrow>take j cs. unat x)" for j
    by (intro unat_sum_list) (meson le_less_trans)
  show "sorted (map (ln_cum_pct \<circ> snd) (snapshot_lines q 0 0 cs))"
    unfolding sorted_iff_nth_mono using snapshot_lines_fields [of q 0 0 cs]
    by (auto simp: unat_cum intro!: percent_of_mono sum_list_take_mono)
  have "unat x \<le> unat q" if "x \<in> set cs" for x
    using member_le_sum_list [of "unat x" "map unat cs"] that sum by simp
  with snapshot_lines_fields [of q 0 0 cs] show "\<forall>l \<in> set (snapshot_lines q 0 0 cs). 0 \<le> ln_percent (snd l) \<and> ln_percent (snd l) \<le> 100"
    by (simp add: all_set_conv_all_nth percent_of_range)
qed

text \<open>
  C28: the histogram is exact. Over any sequence of finished requests it never fails; each bucket
  counts the requests whose latency is between its bound and the next, the total is the number
  of requests, the minimum and maximum are those of the latencies; and in what is displayed the
  percentages are between 0 and 100 and the accumulated ones ascend to exactly 100, although they are rounded to \<^verbatim>\<open>float32\<close>.
\<close>

theorem histogram_exact:
  assumes "\<forall>t \<in> set ts. 0 \<le> t" and "ts \<noteq> []" and "length ts < 2 ^ 64"
  shows "\<exists>h. hist_add_all ts empty_histogram = Some h
    \<and> (\<forall>b < 8. unat (h_count h ! b) = length (filter (\<lambda>t. buckets ! b \<le> t \<and> (b < 7 \<longrightarrow> t < buckets ! (b + 1))) ts))
    \<and> unat (sn_count (snapshot h)) = length ts
    \<and> sn_min (snapshot h) = Min (set ts) \<and> sn_max (snapshot h) = Max (set ts)
    \<and> (\<forall>l \<in> set (sn_counts (snapshot h)). 0 \<le> ln_percent (snd l) \<and> ln_percent (snd l) \<le> 100)
    \<and> sorted (map (ln_cum_pct \<circ> snd) (sn_counts (snapshot h)))
    \<and> ln_cum_pct (snd (last (sn_counts (snapshot h)))) = 100"
proof -
  obtain h where h: "hist_add_all ts empty_histogram = Some h" "hist_counts ts h"
    using hist_add_all_counts [OF hist_counts_empty, of ts] assms(1,3) by auto
  have small: "unat (of_nat n :: u64) = n" if "n \<le> length ts" for n
    using that assms(3) by (simp add: unsigned_of_nat take_bit_nat_eq_self)
  have same: "find_bucket t = int b \<longleftrightarrow> buckets ! b \<le> t \<and> (b < 7 \<longrightarrow> t < buckets ! (b + 1))"
    if "t \<in> set ts" "b < 8" for t b
    by (rule find_bucket_iff) (use assms(1) that in auto)
  have cnt: "unat (h_count h ! b) = length (filter (\<lambda>t. buckets ! b \<le> t \<and> (b < 7 \<longrightarrow> t < buckets ! (b + 1))) ts)"
    if "b < 8" for b
  proof -
    have "filter (\<lambda>t. find_bucket t = int b) ts = filter (\<lambda>t. buckets ! b \<le> t \<and> (b < 7 \<longrightarrow> t < buckets ! (b + 1))) ts"
      using same [OF _ that] by (intro filter_cong) auto
    with h(2) that show ?thesis by (simp add: hist_counts_def small)
  qed
  have tot: "unat (h_total_q h) = length ts" using h(2) by (simp add: hist_counts_def small)
  have counts: "h_count h = map (\<lambda>b. of_nat (length (filter (\<lambda>t. find_bucket t = int b) ts))) [0..<8]"
    using h(2) by (intro nth_equalityI) (simp_all add: hist_counts_def)
  then have "sum_list (h_count h) = of_nat (\<Sum>b\<leftarrow>[0..<8]. length (filter (\<lambda>t. find_bucket t = int b) ts))"
    by (simp only: sum_list_of_nat)
  also have "\<dots> = of_nat (length ts)" by (simp only: bucket_counts_sum [OF assms(1)])
  finally have sum: "sum_list (h_count h) = h_total_q h" using h(2) by (simp add: hist_counts_def)
  have len: "length (h_count h) = 8" using h(2) by (simp add: hist_counts_def)
  have pos: "0 < h_total_q h" using tot assms(2) by (simp add: word_less_nat_alt)
  define ls where "ls = snapshot_lines (h_total_q h) 0 0 (h_count h)"
  have ls: "length ls = 8" "ln_cum_pct (snd (ls ! 7)) = percent_of (sum_list (h_count h)) (h_total_q h)"
    using snapshot_lines_fields [of "h_total_q h" 0 0 "h_count h"] len unfolding ls_def by simp_all
  have "last ls = ls ! 7" using ls(1) by (subst last_conv_nth) auto
  then have "ln_cum_pct (snd (last ls)) = 100" using ls(2) percent_of_self [OF pos] by (simp add: sum)
  moreover have "(\<Sum>x\<leftarrow>h_count h. unat x) = unat (h_total_q h)"
  proof -
    have "(\<Sum>x\<leftarrow>h_count h. unat x) = (\<Sum>b\<leftarrow>[0..<8]. length (filter (\<lambda>t. find_bucket t = int b) ts))"
      unfolding counts by (simp add: small comp_def cong: map_cong)
    with bucket_counts_sum [OF assms(1)] tot show ?thesis by simp
  qed
  ultimately show ?thesis using h cnt tot assms(2) snapshot_lines_cum [of "h_count h" "h_total_q h"]
    by (auto simp: snapshot_def hist_counts_def ls_def)
qed

theorem histogram_exact_witness:
  "\<exists>h. hist_add_all [1, 7 * millisecond, 20 * second] empty_histogram = Some h
    \<and> unat (sn_count (snapshot h)) = 3 \<and> sn_max (snapshot h) = 20 * second
    \<and> unat (h_count h ! 1) = 1"
proof -
  obtain h where h: "hist_add_all [1, 7 * millisecond, 20 * second] empty_histogram = Some h"
      "\<forall>b < 8. unat (h_count h ! b) = length (filter (\<lambda>t. buckets ! b \<le> t \<and> (b < 7 \<longrightarrow> t < buckets ! (b + 1)))
          [1, 7 * millisecond, 20 * second])"
      "unat (sn_count (snapshot h)) = 3" "sn_max (snapshot h) = Max (set [1, 7 * millisecond, 20 * second])"
    using histogram_exact [of "[1, 7 * millisecond, 20 * second]"] by auto
  have b: "buckets ! 1 = 5 * millisecond" "buckets ! (1 + 1) = 10 * millisecond" by (simp_all add: buckets_def)
  have "unat (h_count h ! 1) = length (filter (\<lambda>t. buckets ! 1 \<le> t \<and> ((1::nat) < 7 \<longrightarrow> t < buckets ! (1 + 1)))
      [1, 7 * millisecond, 20 * second])"
    by (rule h(2) [rule_format]) simp
  also have "\<dots> = 1" unfolding b by simp
  finally show ?thesis using h(1,3,4) by simp
qed

end
