(* ===== verification/Net_Trace.thy ===== *)
theory Net_Trace
  imports Net_Rings Net_Histogram Go_Format Go_Sort
begin

text \<open>
  \<^verbatim>\<open>internal/nettrace/trace.go\<close>: traces, their events, and the families that keep the active and the
  finished ones. A \<^verbatim>\<open>*trace\<close> is an address in the heap of the \<open>store\<close>; the functions that read
  the clock or a random number take it as an argument, and those that may panic give an option.
\<close>

section \<open>Traces\<close>

type_synonym addr = nat

datatype evt_type = EvtLog | EvtChild | EvtLink | EvtDrop

record event =
  ev_when :: instant
  ev_type :: evt_type
  ev_ref :: "addr option"
  ev_msg :: string

record trace =
  tc_id :: string
  tc_family :: string
  tc_title :: string
  tc_parent :: "addr option"
  tc_start :: instant
  tc_end :: instant
  tc_is_error :: bool
  tc_max_events :: int
  tc_cutoff :: int
  tc_first_events :: "event list"
  tc_last_events :: "event evt_ring option"

abbreviation (input) default_max_events :: int where "default_max_events \<equiv> 30"
abbreviation (input) traces_in_bucket :: nat where "traces_in_bucket \<equiv> 10"

definition unix_nano :: "instant \<Rightarrow> int" where
  "unix_nano t = t - 62135596800 * second"

definition new_id :: "string \<Rightarrow> int \<Rightarrow> u64 \<Rightarrow> string" where
  "new_id family ts rnd = family @ ''!'' @ show_int ts @ ''!'' @ show_nat (unat rnd)"

definition id_family :: "string \<Rightarrow> string" where
  "id_family i =
     (let sp = split2 (CHR ''!'') i in
      if length sp \<noteq> 2 then i else sp ! 0)"

text \<open>\<^verbatim>\<open>append\<close>, on the trace alone.\<close>

definition append_event :: "event \<Rightarrow> trace \<Rightarrow> trace option" where
  "append_event e tr =
     (if int (length (tc_first_events tr)) < tc_cutoff tr
      then Some (tr\<lparr>tc_first_events := tc_first_events tr @ [e]\<rparr>)
      else (let r = (case tc_last_events tr of
                       None \<Rightarrow> new_evt_ring (nat (tc_max_events tr - tc_cutoff tr))
                     | Some r \<Rightarrow> r)
            in map_option (\<lambda>r. tr\<lparr>tc_last_events := Some r\<rparr>) (evt_ring_add ev_when e r)))"

definition set_max_events :: "int \<Rightarrow> trace \<Rightarrow> trace" where
  "set_max_events n tr =
     (let n = (if n < 6 then 6 else n) in tr\<lparr>tc_max_events := n, tc_cutoff := n div 3\<rparr>)"

definition set_error :: "trace \<Rightarrow> trace" where
  "set_error tr = tr\<lparr>tc_is_error := True\<rparr>"

definition is_error :: "trace \<Rightarrow> bool" where
  "is_error tr = tc_is_error tr"

definition duration_of :: "instant \<Rightarrow> trace \<Rightarrow> duration" where
  "duration_of now tr =
     (if is_zero_time (tc_end tr) then time_sub now (tc_start tr) else time_sub (tc_end tr) (tc_start tr))"

definition drop_event :: "instant \<Rightarrow> event" where
  "drop_event t = \<lparr>ev_when = t, ev_type = EvtDrop, ev_ref = None, ev_msg = []\<rparr>"

definition events :: "trace \<Rightarrow> event list" where
  "events tr =
     (case tc_last_events tr of
        None \<Rightarrow> tc_first_events tr
      | Some r \<Rightarrow> tc_first_events tr
          @ (if \<not> is_zero_time (er_first_drop r) then [drop_event (er_first_drop r)] else [])
          @ evt_ring_do r)"

text \<open>\<^verbatim>\<open>String\<close>, for debugging.\<close>

definition trace_string :: "trace \<Rightarrow> string" where
  "trace_string tr = ''trace{'' @ tc_family tr @ '', '' @ tc_title tr @ '', '' @ quote (tc_id tr) @ '', ''
     @ show_nat (length (events tr)) @ ''}''"

definition log_event :: "instant \<Rightarrow> string \<Rightarrow> event" where
  "log_event now msg = \<lparr>ev_when = now, ev_type = EvtLog, ev_ref = None, ev_msg = msg\<rparr>"

definition child_event :: "instant \<Rightarrow> addr \<Rightarrow> event" where
  "child_event now c = \<lparr>ev_when = now, ev_type = EvtChild, ev_ref = Some c, ev_msg = []\<rparr>"

definition link_event :: "instant \<Rightarrow> addr \<Rightarrow> string \<Rightarrow> event" where
  "link_event now other msg = \<lparr>ev_when = now, ev_type = EvtLink, ev_ref = Some other, ev_msg = msg\<rparr>"

section \<open>Families\<close>

record family_traces =
  ft_active :: "(string, addr) gomap"
  ft_finished :: "addr trace_ring list"
  ft_errors :: "addr trace_ring"
  ft_latencies :: histogram

record store =
  st_heap :: "trace list"
  st_families :: "(string, family_traces) gomap"

definition new_family_traces :: family_traces where
  "new_family_traces = \<lparr>ft_active = [], ft_finished = replicate n_buckets (new_trace_ring traces_in_bucket),
     ft_errors = new_trace_ring traces_in_bucket, ft_latencies = empty_histogram\<rparr>"

definition len_active :: "family_traces \<Rightarrow> nat" where
  "len_active ft = length (ft_active ft)"

definition len_errors :: "family_traces \<Rightarrow> nat" where
  "len_errors ft = rg_len (ft_errors ft)"

definition len_bucket :: "family_traces \<Rightarrow> nat \<Rightarrow> nat" where
  "len_bucket ft b = rg_len (ft_finished ft ! b)"

definition latencies :: "family_traces \<Rightarrow> hist_snapshot" where
  "latencies ft = snapshot (ft_latencies ft)"

text \<open>
  \<^verbatim>\<open>sort.Slice\<close> by start, newer first. \<^verbatim>\<open>TracesFor\<close> of a number below -2 indexes \<^verbatim>\<open>finished\<close> out of
  its range and panics.
\<close>

definition newer :: "trace list \<Rightarrow> addr \<Rightarrow> addr \<Rightarrow> bool" where
  "newer heap a b \<longleftrightarrow> tc_start (heap ! b) < tc_start (heap ! a)"

definition traces_for :: "trace list \<Rightarrow> int \<Rightarrow> bool \<Rightarrow> family_traces \<Rightarrow> addr list option" where
  "traces_for heap b allgt ft =
     map_option (go_sort (newer heap))
       (if b = -2 then Some (trace_ring_do (ft_errors ft))
        else if b = -1 then Some (map snd (ft_active ft))
        else if b < int n_buckets then
          (if b < 0 then None
           else Some (trace_ring_do (ft_finished ft ! nat b)
             @ (if allgt then concat (map (\<lambda>i. trace_ring_do (ft_finished ft ! i)) [nat (b + 1)..<n_buckets]) else [])))
        else Some [])"

text \<open>The last trace of a ring with an id.\<close>

definition ring_find :: "trace list \<Rightarrow> string \<Rightarrow> addr trace_ring \<Rightarrow> addr option" where
  "ring_find heap i r =
     foldl (\<lambda>found tr. if tc_id (heap ! tr) = i then Some tr else found) None (trace_ring_do r)"

fun rings_find :: "trace list \<Rightarrow> string \<Rightarrow> addr trace_ring list \<Rightarrow> addr option" where
  "rings_find heap i [] = None"
| "rings_find heap i (r # rs) =
     (case ring_find heap i r of Some a \<Rightarrow> Some a | None \<Rightarrow> rings_find heap i rs)"

definition find_trace :: "trace list \<Rightarrow> string \<Rightarrow> family_traces \<Rightarrow> addr option" where
  "find_trace heap i ft =
     (case map_of (ft_active ft) i of
        Some a \<Rightarrow> Some a
      | None \<Rightarrow>
          (case rings_find heap i (ft_finished ft) of
             Some a \<Rightarrow> Some a
           | None \<Rightarrow> ring_find heap i (ft_errors ft)))"

text \<open>\<^verbatim>\<open>finalize\<close>: \<^verbatim>\<open>finished[-1]\<close> panics, for an end before the start.\<close>

definition finalize :: "trace \<Rightarrow> addr \<Rightarrow> family_traces \<Rightarrow> family_traces option" where
  "finalize tr a ft =
     (let latency = time_sub (tc_end tr) (tc_start tr);
          b = find_bucket latency;
          ft = ft\<lparr>ft_active := gm_del (tc_id tr) (ft_active ft)\<rparr>
      in if b < 0 \<or> int (length (ft_finished ft)) \<le> b then None
         else case trace_ring_add a (ft_finished ft ! nat b) of
                None \<Rightarrow> None
              | Some r \<Rightarrow>
                  (let ft = ft\<lparr>ft_finished := (ft_finished ft)[nat b := r]\<rparr> in
                   case (if tc_is_error tr then trace_ring_add a (ft_errors ft) else Some (ft_errors ft)) of
                     None \<Rightarrow> None
                   | Some er \<Rightarrow>
                       (let ft = ft\<lparr>ft_errors := er\<rparr> in
                        case hist_add b latency (ft_latencies ft) of
                          None \<Rightarrow> None
                        | Some h \<Rightarrow> Some (ft\<lparr>ft_latencies := h\<rparr>))))"

section \<open>The store\<close>

definition empty_store :: store where
  "empty_store = \<lparr>st_heap = [], st_families = []\<rparr>"

definition new_trace :: "instant \<Rightarrow> u64 \<Rightarrow> string \<Rightarrow> string \<Rightarrow> store \<Rightarrow> addr \<times> store" where
  "new_trace now rnd family title st =
     (let a = length (st_heap st);
          tr = \<lparr>tc_id = new_id family (unix_nano now) rnd, tc_family = family, tc_title = title,
                tc_parent = None, tc_start = now, tc_end = 0, tc_is_error = False,
                tc_max_events = default_max_events, tc_cutoff = default_max_events div 3,
                tc_first_events = [], tc_last_events = None\<rparr>;
          ft = (case map_of (st_families st) family of None \<Rightarrow> new_family_traces | Some ft \<Rightarrow> ft);
          ft = ft\<lparr>ft_active := gm_set (tc_id tr) a (ft_active ft)\<rparr>
      in (a, st\<lparr>st_heap := st_heap st @ [tr], st_families := gm_set family ft (st_families st)\<rparr>))"

definition on_trace :: "(trace \<Rightarrow> trace) \<Rightarrow> addr \<Rightarrow> store \<Rightarrow> store" where
  "on_trace f a st = st\<lparr>st_heap := (st_heap st)[a := f (st_heap st ! a)]\<rparr>"

definition trace_append :: "event \<Rightarrow> addr \<Rightarrow> store \<Rightarrow> store option" where
  "trace_append e a st =
     map_option (\<lambda>tr. st\<lparr>st_heap := (st_heap st)[a := tr]\<rparr>) (append_event e (st_heap st ! a))"

definition new_child :: "instant \<Rightarrow> u64 \<Rightarrow> instant \<Rightarrow> string \<Rightarrow> string \<Rightarrow> addr \<Rightarrow> store \<Rightarrow> (addr \<times> store) option" where
  "new_child now rnd now2 family title a st =
     (let (c, st) = new_trace now rnd family title st;
          st = on_trace (\<lambda>tr. tr\<lparr>tc_parent := Some a\<rparr>) c st
      in map_option (\<lambda>st. (c, st)) (trace_append (child_event now2 c) a st))"

definition link_traces :: "instant \<Rightarrow> addr \<Rightarrow> string \<Rightarrow> addr \<Rightarrow> store \<Rightarrow> store option" where
  "link_traces now other msg a st = trace_append (link_event now other msg) a st"

definition printf_trace :: "instant \<Rightarrow> string \<Rightarrow> addr \<Rightarrow> store \<Rightarrow> store option" where
  "printf_trace now msg a st = trace_append (log_event now msg) a st"

definition errorf_trace :: "instant \<Rightarrow> string \<Rightarrow> addr \<Rightarrow> store \<Rightarrow> store option" where
  "errorf_trace now msg a st = printf_trace now msg a (on_trace set_error a st)"

text \<open>\<^verbatim>\<open>Finish\<close>; a family that is not there would be a nil pointer.\<close>

definition finish_trace :: "instant \<Rightarrow> addr \<Rightarrow> store \<Rightarrow> store option" where
  "finish_trace now a st =
     (let st = on_trace (\<lambda>tr. tr\<lparr>tc_end := now\<rparr>) a st;
          tr = st_heap st ! a
      in case map_of (st_families st) (tc_family tr) of
           None \<Rightarrow> None
         | Some ft \<Rightarrow>
             map_option (\<lambda>ft. st\<lparr>st_families := gm_set (tc_family tr) ft (st_families st)\<rparr>) (finalize tr a ft))"

text \<open>\<^verbatim>\<open>findInFamilies\<close>, with the empty string for no reference.\<close>

function find_in_families :: "store \<Rightarrow> string \<Rightarrow> string \<Rightarrow> addr option" where
  "find_in_families st traceID refID =
     (case (case map_of (st_families st) (id_family traceID) of
              None \<Rightarrow> None
            | Some fts \<Rightarrow> find_trace (st_heap st) traceID fts) of
        Some tr \<Rightarrow> Some tr
      | None \<Rightarrow>
          if refID \<noteq> [] then
            (case find_in_families st refID [] of
               None \<Rightarrow> None
             | Some ref \<Rightarrow>
                 (case tc_parent (st_heap st ! ref) of
                    Some p \<Rightarrow> if tc_id (st_heap st ! p) = traceID then Some p
                              else Option.bind (find (\<lambda>e. case ev_ref e of None \<Rightarrow> False | Some r \<Rightarrow> tc_id (st_heap st ! r) = traceID)
                                  (events (st_heap st ! ref))) ev_ref
                  | None \<Rightarrow> Option.bind (find (\<lambda>e. case ev_ref e of None \<Rightarrow> False | Some r \<Rightarrow> tc_id (st_heap st ! r) = traceID)
                                  (events (st_heap st ! ref))) ev_ref))
          else None)"
  by pat_completeness auto
termination
  by (relation "measure (\<lambda>(st, traceID, refID). length refID)") auto

declare find_in_families.simps [simp del]

end
