(* ===== verification/Net_Trace_Events.thy ===== *)
theory Net_Trace_Events
  imports Net_Trace
begin

text \<open>
  What a trace shows of the events added to it: all of them up to the maximum, and beyond it the
  first third, the time of the first one dropped, and the last ones.
\<close>

definition trace_holds :: "nat \<Rightarrow> nat \<Rightarrow> event list \<Rightarrow> trace \<Rightarrow> bool" where
  "trace_holds n c es tr \<longleftrightarrow> tc_max_events tr = int n \<and> tc_cutoff tr = int c
     \<and> tc_first_events tr = take c es
     \<and> (case tc_last_events tr of
          None \<Rightarrow> length es \<le> c
        | Some r \<Rightarrow> c < length es \<and> evt_ring_wf (n - c) r
            \<and> evt_ring_do r = lastn (n - c) (drop c es)
            \<and> er_first_drop r = (if n < length es then ev_when (es ! c) else 0))"

lemma evt_ring_add_step:
  assumes "evt_ring_wf k r" and "evt_ring_do r = lastn k xs" and "ev_when e \<noteq> 0"
    and "er_first_drop r = (if k < length xs then ev_when (hd xs) else 0)"
    and "\<forall>x \<in> set xs. ev_when x \<noteq> 0"
  shows "\<exists>r'. evt_ring_add ev_when e r = Some r' \<and> evt_ring_wf k r' \<and> evt_ring_do r' = lastn k (xs @ [e])
    \<and> er_first_drop r' = (if k < length (xs @ [e]) then ev_when (hd (xs @ [e])) else 0)"
proof (cases "length (er_evts r) < k")
  case True
  then have "length xs < k" using assms(2) length_evt_ring_do [of r] by simp
  with evt_ring_add_room [OF assms(1) True, of ev_when e] assms(2,4) show ?thesis by fastforce
next
  case False
  then have len: "length (er_evts r) = k" "0 < k" using assms(1) by (simp_all add: evt_ring_wf_def)
  then have k: "k \<le> length xs" using assms(2) length_evt_ring_do [of r] by simp
  then have ne: "xs \<noteq> []" using len(2) by auto
  obtain r' where r': "evt_ring_add ev_when e r = Some r'" "evt_ring_wf k r'" "evt_ring_do r' = tl (evt_ring_do r) @ [e]"
      "er_first_drop r' = (if er_first_drop r = 0 then ev_when (hd (evt_ring_do r)) else er_first_drop r)"
    using evt_ring_add_full [OF assms(1) len(1), of ev_when e] by blast
  have "evt_ring_do r' = lastn k (lastn k xs @ [e])"
    using r'(3) assms(2) k len(2) by (simp add: lastn_snoc_full)
  then have "evt_ring_do r' = lastn k (xs @ [e])" by (simp add: lastn_append_lastn)
  moreover have "er_first_drop r' = ev_when (hd xs)"
  proof (cases "k < length xs")
    case True
    then show ?thesis using r'(4) assms(4,5) ne by (simp split: if_splits)
  next
    case False
    with k have "evt_ring_do r = xs" using assms(2) by simp
    with r'(4) assms(4) False show ?thesis by simp
  qed
  ultimately show ?thesis using r'(1,2) k ne by simp
qed

lemma append_event_holds:
  assumes "trace_holds n c es tr" and "c < n" and "ev_when e \<noteq> 0" and "\<forall>x \<in> set es. ev_when x \<noteq> 0"
  shows "\<exists>tr'. append_event e tr = Some tr' \<and> trace_holds n c (es @ [e]) tr'"
proof (cases "length es < c")
  case True
  with assms(1) show ?thesis
    by (auto simp: trace_holds_def append_event_def split: option.splits)
next
  case False
  define r where "r = (case tc_last_events tr of None \<Rightarrow> new_evt_ring (n - c) | Some r \<Rightarrow> r)"
  have len: "int (length (tc_first_events tr)) = tc_cutoff tr"
    using assms(1) False by (simp add: trace_holds_def)
  have ring: "evt_ring_wf (n - c) r" "evt_ring_do r = lastn (n - c) (drop c es)"
      "er_first_drop r = (if n - c < length (drop c es) then ev_when (hd (drop c es)) else 0)"
    using assms(1,2) False
    by (auto simp: r_def trace_holds_def evt_ring_wf_new hd_drop_conv_nth split: option.splits)
      (simp_all add: new_evt_ring_def evt_ring_do_def)
  have "\<forall>x \<in> set (drop c es). ev_when x \<noteq> 0" using assms(4) by (auto dest: in_set_dropD)
  from evt_ring_add_step [OF ring(1,2) assms(3) ring(3) this] obtain r' where
      r': "evt_ring_add ev_when e r = Some r'" "evt_ring_wf (n - c) r'"
      "evt_ring_do r' = lastn (n - c) (drop c (es @ [e]))"
      "er_first_drop r' = (if n - c < length (drop c (es @ [e])) then ev_when (hd (drop c (es @ [e]))) else 0)"
    using False by auto
  have hd: "hd (drop c (es @ [e])) = (es @ [e]) ! c"
    using False by (intro hd_drop_conv_nth) simp
  have "nat (tc_max_events tr - tc_cutoff tr) = n - c"
    using assms(1,2) by (simp add: trace_holds_def)
  then have "append_event e tr = Some (tr\<lparr>tc_last_events := Some r'\<rparr>)"
    using len r'(1) unfolding append_event_def Let_def r_def by (cases "tc_last_events tr") simp_all
  moreover have "trace_holds n c (es @ [e]) (tr\<lparr>tc_last_events := Some r'\<rparr>)"
    using assms(1,2) False r'(2-4) hd by (simp add: trace_holds_def) arith
  ultimately show ?thesis by blast
qed

lemma append_all_holds:
  "trace_holds n c es tr \<Longrightarrow> c < n \<Longrightarrow> \<forall>x \<in> set (es @ fs). ev_when x \<noteq> 0 \<Longrightarrow>
     \<exists>tr'. add_all append_event fs tr = Some tr' \<and> trace_holds n c (es @ fs) tr'"
proof (induction fs arbitrary: es tr)
  case Nil
  then show ?case by simp
next
  case (Cons f fs)
  obtain tr1 where tr1: "append_event f tr = Some tr1" "trace_holds n c (es @ [f]) tr1"
    using append_event_holds [OF Cons.prems(1,2), of f] Cons.prems(3) by auto
  from Cons.IH [OF tr1(2) Cons.prems(2)] Cons.prems(3) tr1(1) show ?case by simp
qed

lemma events_holds:
  assumes "trace_holds n c es tr" and "c < n" and "\<forall>x \<in> set es. ev_when x \<noteq> 0"
  shows "events tr = (if length es \<le> n then es
     else take c es @ drop_event (ev_when (es ! c)) # lastn (n - c) es)"
proof (cases "tc_last_events tr")
  case None
  with assms show ?thesis by (simp add: trace_holds_def events_def)
next
  case (Some r)
  with assms(1) have r: "c < length es" "tc_first_events tr = take c es"
      "evt_ring_do r = lastn (n - c) (drop c es)"
      "er_first_drop r = (if n < length es then ev_when (es ! c) else 0)"
    by (auto simp: trace_holds_def)
  show ?thesis
  proof (cases "length es \<le> n")
    case True
    with r Some assms(2) show ?thesis by (simp add: events_def is_zero_time_def)
  next
    case False
    have "ev_when (es ! c) \<noteq> 0" using assms(3) r(1) by simp
    moreover have "lastn (n - c) (drop c es) = lastn (n - c) es"
      using False assms(2) by (simp add: lastn_def)
    ultimately show ?thesis using r Some False by (simp add: events_def is_zero_time_def)
  qed
qed

text \<open>
  What a trace shows is exact. A new trace whose maximum is set to \<open>n\<close> (at least 6) and that then
  gets any events shows all of them while they are at most \<open>n\<close>; beyond that it shows the first
  third of \<open>n\<close>, a mark with the time of the first event that was dropped, and the latest
  two thirds. Adding an event never panics.
\<close>

lemma trace_events_exact:
  assumes "tc_first_events tr = []" and "tc_last_events tr = None" and "6 \<le> n"
    and "\<forall>e \<in> set es. ev_when e \<noteq> 0"
  shows "\<exists>tr'. add_all append_event es (set_max_events (int n) tr) = Some tr'
    \<and> events tr' = (if length es \<le> n then es
        else take (n div 3) es @ drop_event (ev_when (es ! (n div 3))) # lastn (n - n div 3) es)"
proof -
  have "trace_holds n (n div 3) [] (set_max_events (int n) tr)"
    using assms(1-3) by (simp add: trace_holds_def set_max_events_def Let_def zdiv_int)
  from append_all_holds [OF this, of es] assms(3,4) obtain tr' where
      tr': "add_all append_event es (set_max_events (int n) tr) = Some tr'" "trace_holds n (n div 3) es tr'"
    by auto
  from events_holds [OF tr'(2)] assms(3,4) tr'(1) show ?thesis by auto
qed

end
