(* ===== verification/Net_Store.thy ===== *)
theory Net_Store
  imports Net_Trace_Events
begin

text \<open>
  The trace store over any use of it, as a step relation: traces are created, get events, errors and
  limits, and finish, in any order and on any number of traces at once. The premises of the steps
  are the contract of the package for its users: ids are not repeated (they end in a random number),
  families do not contain the separator, the clock does not run backwards, and a trace is not
  used after it is finished.
\<close>

section \<open>The steps\<close>

definition valid :: "store \<Rightarrow> addr \<Rightarrow> bool" where
  "valid st a \<longleftrightarrow> a < length (st_heap st)"

definition open_trace :: "store \<Rightarrow> addr \<Rightarrow> bool" where
  "open_trace st a \<longleftrightarrow> valid st a \<and> tc_end (st_heap st ! a) = 0"

definition can_create :: "store \<Rightarrow> instant \<Rightarrow> u64 \<Rightarrow> string \<Rightarrow> bool" where
  "can_create st now rnd family \<longleftrightarrow> 0 < now \<and> CHR ''!'' \<notin> set family
     \<and> new_id family (unix_nano now) rnd \<notin> tc_id ` set (st_heap st)"

inductive net_step :: "store \<Rightarrow> store \<Rightarrow> bool" where
  created: "can_create st now rnd family \<Longrightarrow> net_step st (snd (new_trace now rnd family title st))"
| child: "can_create st now rnd family \<Longrightarrow> open_trace st a \<Longrightarrow>
     new_child now rnd now2 family title a st = Some (c, st') \<Longrightarrow> net_step st st'"
| logged: "open_trace st a \<Longrightarrow> printf_trace now msg a st = Some st' \<Longrightarrow> net_step st st'"
| linked: "open_trace st a \<Longrightarrow> valid st b \<Longrightarrow> link_traces now b msg a st = Some st' \<Longrightarrow> net_step st st'"
| errored: "open_trace st a \<Longrightarrow> net_step st (on_trace set_error a st)"
| resized: "open_trace st a \<Longrightarrow> net_step st (on_trace (set_max_events n) a st)"
| finished: "open_trace st a \<Longrightarrow> tc_start (st_heap st ! a) \<le> now \<Longrightarrow> finish_trace now a st = Some st' \<Longrightarrow>
     net_step st st'"

definition net_reachable :: "store \<Rightarrow> bool" where
  "net_reachable st \<longleftrightarrow> net_step\<^sup>*\<^sup>* empty_store st"

section \<open>The invariant\<close>

definition latency :: "trace \<Rightarrow> duration" where
  "latency tr = time_sub (tc_end tr) (tc_start tr)"

definition done_traces :: "string \<Rightarrow> trace list \<Rightarrow> addr set" where
  "done_traces f heap = {a. a < length heap \<and> tc_family (heap ! a) = f \<and> tc_end (heap ! a) \<noteq> 0}"

definition family_ok :: "trace list \<Rightarrow> string \<Rightarrow> family_traces \<Rightarrow> bool" where
  "family_ok heap f ft \<longleftrightarrow> gm_wf (ft_active ft)
   \<and> length (ft_finished ft) = 8 \<and> (\<forall>r \<in> set (ft_finished ft). trace_ring_wf 10 r) \<and> trace_ring_wf 10 (ft_errors ft)
   \<and> (\<forall>i a. map_of (ft_active ft) i = Some a \<longleftrightarrow>
        a < length heap \<and> tc_id (heap ! a) = i \<and> tc_family (heap ! a) = f \<and> tc_end (heap ! a) = 0)
   \<and> (\<forall>b < 8. \<forall>a \<in> set (trace_ring_do (ft_finished ft ! b)).
        a < length heap \<and> tc_family (heap ! a) = f \<and> tc_end (heap ! a) \<noteq> 0 \<and> find_bucket (latency (heap ! a)) = int b)
   \<and> (\<forall>a \<in> set (trace_ring_do (ft_errors ft)).
        a < length heap \<and> tc_family (heap ! a) = f \<and> tc_end (heap ! a) \<noteq> 0 \<and> tc_is_error (heap ! a))
   \<and> length (h_count (ft_latencies ft)) = 8
   \<and> h_total_q (ft_latencies ft) = of_nat (card (done_traces f heap))"

definition trace_ok :: "trace \<Rightarrow> bool" where
  "trace_ok tr \<longleftrightarrow> tc_id tr \<noteq> [] \<and> id_family (tc_id tr) = tc_family tr \<and> 0 < tc_start tr
     \<and> (tc_end tr = 0 \<or> tc_start tr \<le> tc_end tr)
     \<and> 0 \<le> tc_cutoff tr \<and> tc_cutoff tr < tc_max_events tr
     \<and> (case tc_last_events tr of None \<Rightarrow> True | Some r \<Rightarrow> evt_ring_wf (er_max r) r)"

definition store_inv :: "store \<Rightarrow> bool" where
  "store_inv st \<longleftrightarrow> gm_wf (st_families st) \<and> distinct (map tc_id (st_heap st))
     \<and> (\<forall>tr \<in> set (st_heap st). trace_ok tr \<and> map_of (st_families st) (tc_family tr) \<noteq> None)
     \<and> (\<forall>f ft. map_of (st_families st) f = Some ft \<longrightarrow> family_ok (st_heap st) f ft)"

lemma store_inv_empty: "store_inv empty_store"
  by (simp add: store_inv_def empty_store_def)

text \<open>Changes to one trace that leave what the families rest on.\<close>

definition same_core :: "trace \<Rightarrow> trace \<Rightarrow> bool" where
  "same_core tr tr' \<longleftrightarrow> tc_id tr' = tc_id tr \<and> tc_family tr' = tc_family tr \<and> tc_start tr' = tc_start tr
     \<and> tc_end tr' = tc_end tr \<and> (tc_is_error tr \<longrightarrow> tc_is_error tr')"

lemma family_ok_same_core:
  assumes "family_ok heap f ft" and "a < length heap" and "same_core (heap ! a) tr"
  shows "family_ok (heap[a := tr]) f ft"
proof -
  have core: "tc_id (heap[a := tr] ! b) = tc_id (heap ! b)" "tc_family (heap[a := tr] ! b) = tc_family (heap ! b)"
      "tc_end (heap[a := tr] ! b) = tc_end (heap ! b)" "latency (heap[a := tr] ! b) = latency (heap ! b)"
      "tc_is_error (heap ! b) \<Longrightarrow> tc_is_error (heap[a := tr] ! b)" for b
    using assms(2,3) by (cases "b = a"; simp add: same_core_def latency_def)+
  have "done_traces f (heap[a := tr]) = done_traces f heap" by (simp add: done_traces_def core)
  with assms(1) core show ?thesis by (simp add: family_ok_def)
qed

lemma store_inv_on_trace:
  assumes "store_inv st" and "a < length (st_heap st)" and "same_core (st_heap st ! a) tr" and "trace_ok tr"
  shows "store_inv (st\<lparr>st_heap := (st_heap st)[a := tr]\<rparr>)"
proof -
  have "map tc_id ((st_heap st)[a := tr]) = map tc_id (st_heap st)"
    using assms(2,3) by (intro nth_equalityI) (auto simp: nth_list_update same_core_def)
  moreover have "set ((st_heap st)[a := tr]) \<subseteq> insert tr (set (st_heap st))" by (rule set_update_subset_insert)
  moreover have "map_of (st_families st) (tc_family tr) \<noteq> None"
    using assms(1-3) by (simp add: store_inv_def same_core_def)
  ultimately show ?thesis
    using assms family_ok_same_core [OF _ assms(2,3)] unfolding store_inv_def by auto
qed

lemma append_event_ok:
  assumes "trace_ok tr" and "append_event e tr = Some tr'"
  shows "same_core tr tr' \<and> trace_ok tr'"
proof (cases "int (length (tc_first_events tr)) < tc_cutoff tr")
  case True
  with assms show ?thesis by (auto simp: append_event_def same_core_def trace_ok_def)
next
  case False
  define r where "r = (case tc_last_events tr of None \<Rightarrow> new_evt_ring (nat (tc_max_events tr - tc_cutoff tr)) | Some r \<Rightarrow> r)"
  have wf: "evt_ring_wf (er_max r) r"
    using assms(1) by (auto simp: r_def trace_ok_def new_evt_ring_def evt_ring_wf_def split: option.splits)
  obtain r' where r': "evt_ring_add ev_when e r = Some r'" "tr' = tr\<lparr>tc_last_events := Some r'\<rparr>"
    using assms(2) False by (auto simp: append_event_def Let_def r_def)
  have "evt_ring_wf (er_max r) r'" using evt.add_wf [OF wf r'(1)] .
  then have "evt_ring_wf (er_max r') r'" by (simp add: evt_ring_wf_def)
  with assms(1) r'(2) show ?thesis by (simp add: same_core_def trace_ok_def)
qed

lemma append_event_total:
  assumes "trace_ok tr"
  shows "\<exists>tr'. append_event e tr = Some tr'"
proof (cases "int (length (tc_first_events tr)) < tc_cutoff tr")
  case True
  then show ?thesis by (simp add: append_event_def)
next
  case False
  define r where "r = (case tc_last_events tr of None \<Rightarrow> new_evt_ring (nat (tc_max_events tr - tc_cutoff tr)) | Some r \<Rightarrow> r)"
  have "evt_ring_wf (er_max r) r"
    using assms by (auto simp: r_def trace_ok_def new_evt_ring_def evt_ring_wf_def split: option.splits)
  with evt.add_total [of "er_max r" r ev_when e] False show ?thesis
    by (auto simp: append_event_def Let_def r_def)
qed

lemma trace_append_inv:
  assumes "store_inv st" and "a < length (st_heap st)" and "trace_append e a st = Some st'"
  shows "store_inv st'"
proof -
  obtain tr where tr: "append_event e (st_heap st ! a) = Some tr" "st' = st\<lparr>st_heap := (st_heap st)[a := tr]\<rparr>"
    using assms(3) by (auto simp: trace_append_def)
  have "trace_ok (st_heap st ! a)" using assms(1,2) by (simp add: store_inv_def)
  from append_event_ok [OF this tr(1)] store_inv_on_trace [OF assms(1,2)] show ?thesis
    unfolding tr(2) by blast
qed

section \<open>New traces\<close>

lemma bang_not_digit: "CHR ''!'' \<notin> set (show_nat n)"
  using show_nat_digits [of n] by (auto simp: list_all_iff is_digit_def)

lemma new_id_nonempty: "new_id family ts rnd \<noteq> []"
  by (simp add: new_id_def)

lemma id_family_new_id: "CHR ''!'' \<notin> set family \<Longrightarrow> id_family (new_id family ts rnd) = family"
  using split2_append [of "CHR ''!''" family "show_int ts @ ''!'' @ show_nat (unat rnd)"]
  by (simp add: id_family_def new_id_def Let_def)

lemma family_ok_new: "family_ok heap f new_family_traces" if "\<forall>tr \<in> set heap. tc_family tr \<noteq> f"
proof -
  have none: "a < length heap \<Longrightarrow> tc_family (heap ! a) \<noteq> f" for a using that by simp
  have "done_traces f heap = {}" using none by (auto simp: done_traces_def)
  moreover have "trace_ring_do (new_trace_ring 10 :: addr trace_ring) = []"
    by (rule trace_ring_do_shape [of _ 10]) (simp add: new_trace_ring_def)
  ultimately show ?thesis
    using none by (auto simp: family_ok_def new_family_traces_def trace_ring_wf_new empty_histogram_def)
qed

lemma done_traces_snoc: "tc_end tr = 0 \<Longrightarrow> done_traces f (heap @ [tr]) = done_traces f heap"
  by (auto simp: done_traces_def nth_append less_Suc_eq)

lemma family_ok_snoc_other:
  assumes "family_ok heap f ft" and "tc_family tr \<noteq> f" and "tc_end tr = 0"
  shows "family_ok (heap @ [tr]) f ft"
  using assms unfolding family_ok_def done_traces_snoc [OF assms(3)]
  by (auto simp: nth_append less_Suc_eq)

lemma family_ok_snoc_same:
  assumes "family_ok heap f ft" and "tc_family tr = f" and "tc_end tr = 0" and "tc_id tr \<notin> tc_id ` set heap"
  shows "family_ok (heap @ [tr]) f (ft\<lparr>ft_active := gm_set (tc_id tr) (length heap) (ft_active ft)\<rparr>)"
proof -
  have fresh: "a < length heap \<Longrightarrow> tc_id (heap ! a) \<noteq> tc_id tr" for a using assms(4) by (metis image_eqI nth_mem)
  show ?thesis
    using assms fresh unfolding family_ok_def done_traces_snoc [OF assms(3)]
    by (auto simp: nth_append less_Suc_eq gm_wf_set split: if_splits)
qed

lemma new_trace_inv:
  assumes "store_inv st" and "can_create st now rnd family"
  shows "store_inv (snd (new_trace now rnd family title st))"
    and "fst (new_trace now rnd family title st) = length (st_heap st)"
    and "length (st_heap (snd (new_trace now rnd family title st))) = length (st_heap st) + 1"
    and "b < length (st_heap st) \<Longrightarrow> st_heap (snd (new_trace now rnd family title st)) ! b = st_heap st ! b"
proof -
  define tr where "tr = \<lparr>tc_id = new_id family (unix_nano now) rnd, tc_family = family, tc_title = title,
                tc_parent = None, tc_start = now, tc_end = 0, tc_is_error = False,
                tc_max_events = 30, tc_cutoff = 30 div 3,
                tc_first_events = [], tc_last_events = None\<rparr>"
  define ft where "ft = (case map_of (st_families st) family of None \<Rightarrow> new_family_traces | Some ft \<Rightarrow> ft)"
  define ft' where "ft' = ft\<lparr>ft_active := gm_set (tc_id tr) (length (st_heap st)) (ft_active ft)\<rparr>"
  have new: "new_trace now rnd family title st = (length (st_heap st),
      st\<lparr>st_heap := st_heap st @ [tr], st_families := gm_set family ft' (st_families st)\<rparr>)"
    by (simp add: new_trace_def Let_def tr_def ft_def ft'_def)
  have tr: "tc_family tr = family" "tc_end tr = 0" "tc_id tr \<notin> tc_id ` set (st_heap st)" "trace_ok tr"
    using assms(2) by (auto simp: tr_def can_create_def trace_ok_def id_family_new_id new_id_nonempty)
  have "family_ok (st_heap st) family ft"
  proof (cases "map_of (st_families st) family")
    case None
    then have "\<forall>tr \<in> set (st_heap st). tc_family tr \<noteq> family" using assms(1) by (auto simp: store_inv_def)
    with None show ?thesis by (simp add: ft_def family_ok_new)
  next
    case (Some x)
    with assms(1) show ?thesis by (simp add: ft_def store_inv_def)
  qed
  then have ok: "family_ok (st_heap st @ [tr]) family ft'"
    unfolding ft'_def using tr by (intro family_ok_snoc_same) auto
  have others: "family_ok (st_heap st @ [tr]) f x" if "f \<noteq> family" "map_of (st_families st) f = Some x" for f x
    using assms(1) that tr(1,2) by (intro family_ok_snoc_other) (auto simp: store_inv_def)
  show "store_inv (snd (new_trace now rnd family title st))"
    using assms(1) tr ok others by (auto simp: store_inv_def new gm_wf_set)
  show "fst (new_trace now rnd family title st) = length (st_heap st)"
    "length (st_heap (snd (new_trace now rnd family title st))) = length (st_heap st) + 1"
    "b < length (st_heap st) \<Longrightarrow> st_heap (snd (new_trace now rnd family title st)) ! b = st_heap st ! b"
    by (simp_all add: new nth_append)
qed

lemma new_child_parent_inv:
  assumes "store_inv st" and "can_create st now rnd family"
  shows "store_inv (on_trace (\<lambda>tr. tr\<lparr>tc_parent := p\<rparr>) (length (st_heap st)) (snd (new_trace now rnd family title st)))"
proof -
  let ?st1 = "snd (new_trace now rnd family title st)"
  note new = new_trace_inv [OF assms, where title = title]
  have "trace_ok (st_heap ?st1 ! length (st_heap st))" using new(1,3) by (simp add: store_inv_def)
  then show ?thesis unfolding on_trace_def using new(1,3)
    by (intro store_inv_on_trace) (auto simp: same_core_def trace_ok_def)
qed

section \<open>Finishing\<close>

lemma hist_add_total:
  "length (h_count h) = 8 \<Longrightarrow> 0 \<le> b \<Longrightarrow> b < 8 \<Longrightarrow>
     \<exists>h'. hist_add b t h = Some h' \<and> length (h_count h') = 8 \<and> h_total_q h' = h_total_q h + 1"
  by (simp add: hist_add_def Let_def)

lemma done_traces_finish:
  assumes "a < length heap" and "tc_end (heap ! a) = 0" and "tc_end tr \<noteq> 0"
    and "tc_family tr = tc_family (heap ! a)"
  shows "done_traces f (heap[a := tr]) =
    (if tc_family tr = f then insert a (done_traces f heap) else done_traces f heap)"
    and "a \<notin> done_traces f heap" and "finite (done_traces f heap)"
proof -
  show "finite (done_traces f heap)" by (simp add: done_traces_def)
  show "a \<notin> done_traces f heap" using assms(2) by (simp add: done_traces_def)
  show "done_traces f (heap[a := tr]) =
    (if tc_family tr = f then insert a (done_traces f heap) else done_traces f heap)"
    using assms by (auto simp: done_traces_def nth_list_update split: if_splits)
qed

lemma family_ok_finish_other:
  assumes "family_ok heap g ft" and "a < length heap" and "tc_end (heap ! a) = 0" and "tc_end tr \<noteq> 0"
    and "tc_family tr = tc_family (heap ! a)" and "tc_family tr \<noteq> g"
  shows "family_ok (heap[a := tr]) g ft"
  using assms unfolding family_ok_def done_traces_finish(1) [OF assms(2-5)]
  by (auto simp: nth_list_update split: if_splits)

text \<open>What \<open>finalize\<close> makes of a family: a ring, the errors and the histogram each gain the trace.\<close>

lemma trace_ring_gains:
  assumes "trace_ring_wf 10 r"
  shows "\<exists>r'. trace_ring_add a r = Some r' \<and> trace_ring_wf 10 r' \<and> a \<in> set (trace_ring_do r')
    \<and> set (trace_ring_do r') \<subseteq> insert a (set (trace_ring_do r))"
proof -
  obtain r' where r': "trace_ring_add a r = Some r'" "trace_ring_wf 10 r'" "trace_ring_do r' = lastn 10 (trace_ring_do r @ [a])"
    using assms trc.add_total [of 10 r a] by auto
  have "a \<in> set (trace_ring_do r')" unfolding r'(3) by (rule last_in_lastn) simp
  moreover have "set (trace_ring_do r') \<subseteq> insert a (set (trace_ring_do r))"
    unfolding r'(3) using set_lastn_subset by fastforce
  ultimately show ?thesis using r' by blast
qed

lemma finalize_total:
  assumes fam: "family_ok heap f ft" and late: "0 \<le> latency tr"
  shows "\<exists>r er h. finalize tr a ft = Some (ft\<lparr>ft_active := gm_del (tc_id tr) (ft_active ft),
       ft_finished := (ft_finished ft)[nat (find_bucket (latency tr)) := r], ft_errors := er, ft_latencies := h\<rparr>)
    \<and> trace_ring_wf 10 r \<and> a \<in> set (trace_ring_do r)
    \<and> set (trace_ring_do r) \<subseteq> insert a (set (trace_ring_do (ft_finished ft ! nat (find_bucket (latency tr)))))
    \<and> trace_ring_wf 10 er \<and> (tc_is_error tr \<longrightarrow> a \<in> set (trace_ring_do er))
    \<and> set (trace_ring_do er) \<subseteq> (if tc_is_error tr then {a} else {}) \<union> set (trace_ring_do (ft_errors ft))
    \<and> length (h_count h) = 8 \<and> h_total_q h = h_total_q (ft_latencies ft) + 1"
proof -
  define b where "b = nat (find_bucket (latency tr))"
  have fb: "find_bucket (latency tr) = int b" "b < 8"
    using find_bucket_range [OF late] unfolding b_def by linarith+
  have len: "length (ft_finished ft) = 8" using fam by (simp add: family_ok_def)
  have "trace_ring_wf 10 (ft_finished ft ! b)" "trace_ring_wf 10 (ft_errors ft)" using fam fb(2) len by (simp_all add: family_ok_def)
  then obtain r e where r: "trace_ring_add a (ft_finished ft ! b) = Some r" "trace_ring_wf 10 r" "a \<in> set (trace_ring_do r)"
        "set (trace_ring_do r) \<subseteq> insert a (set (trace_ring_do (ft_finished ft ! b)))"
      and e: "trace_ring_add a (ft_errors ft) = Some e" "trace_ring_wf 10 e" "a \<in> set (trace_ring_do e)"
        "set (trace_ring_do e) \<subseteq> insert a (set (trace_ring_do (ft_errors ft)))"
    using trace_ring_gains [of "ft_finished ft ! b" a] trace_ring_gains [of "ft_errors ft" a] by blast
  define er where "er = (if tc_is_error tr then e else ft_errors ft)"
  have er: "trace_ring_wf 10 er" "tc_is_error tr \<longrightarrow> a \<in> set (trace_ring_do er)"
      "set (trace_ring_do er) \<subseteq> (if tc_is_error tr then {a} else {}) \<union> set (trace_ring_do (ft_errors ft))"
    using e \<open>trace_ring_wf 10 (ft_errors ft)\<close> by (simp_all add: er_def)
  have "length (h_count (ft_latencies ft)) = 8" using fam by (simp add: family_ok_def)
  from hist_add_total [OF this, of "int b" "latency tr"] fb(2) obtain h where
      h: "hist_add (int b) (latency tr) (ft_latencies ft) = Some h" "length (h_count h) = 8"
      "h_total_q h = h_total_q (ft_latencies ft) + 1"
    by auto
  have "finalize tr a ft = Some (ft\<lparr>ft_active := gm_del (tc_id tr) (ft_active ft),
       ft_finished := (ft_finished ft)[b := r], ft_errors := er, ft_latencies := h\<rparr>)"
    using fb r(1) e(1) h(1) len
    by (cases "tc_is_error tr"; cases ft) (auto simp: finalize_def Let_def latency_def er_def)
  with r er h show ?thesis unfolding b_def [symmetric] by blast
qed

lemma family_ok_finished:
  assumes fam: "family_ok heap f ft" and a: "a < length heap" "tc_family (heap ! a) = f" "tc_end (heap ! a) = 0"
    and ids: "distinct (map tc_id heap)" and tr: "tr = (heap ! a)\<lparr>tc_end := now\<rparr>" and now: "now \<noteq> 0"
    and b: "find_bucket (latency tr) = int b" "b < 8"
    and r: "trace_ring_wf 10 r" "set (trace_ring_do r) \<subseteq> insert a (set (trace_ring_do (ft_finished ft ! b)))"
    and er: "trace_ring_wf 10 er" "set (trace_ring_do er) \<subseteq> (if tc_is_error tr then {a} else {}) \<union> set (trace_ring_do (ft_errors ft))"
    and h: "length (h_count h) = 8" "h_total_q h = h_total_q (ft_latencies ft) + 1"
  shows "family_ok (heap[a := tr]) f (ft\<lparr>ft_active := gm_del (tc_id tr) (ft_active ft),
    ft_finished := (ft_finished ft)[b := r], ft_errors := er, ft_latencies := h\<rparr>)" (is "family_ok _ _ ?ft")
proof -
  have len: "length (ft_finished ft) = 8" using fam by (simp add: family_ok_def)
  have heap: "heap[a := tr] ! c = (if c = a then tr else heap ! c)" for c
    using a(1) by (simp add: nth_list_update)
  have uniq: "c < length heap \<Longrightarrow> tc_id (heap ! c) = tc_id tr \<Longrightarrow> c = a" for c
    using ids a(1) by (auto simp: tr distinct_conv_nth)
  have trf: "tc_family tr = f" "tc_end tr \<noteq> 0" "tc_id tr = tc_id (heap ! a)" using a(2) now by (simp_all add: tr)
  have cnt: "of_nat (card (done_traces f (heap[a := tr]))) = h_total_q (ft_latencies ft) + 1"
    using done_traces_finish [OF a(1,3) trf(2), of f] trf(1) a(2) fam by (simp add: family_ok_def)
  have act: "map_of (ft_active ?ft) i = Some c \<longleftrightarrow> c < length (heap[a := tr]) \<and> tc_id (heap[a := tr] ! c) = i
      \<and> tc_family (heap[a := tr] ! c) = f \<and> tc_end (heap[a := tr] ! c) = 0" for i c
    using fam uniq [of c] trf a(1,3) by (auto simp: family_ok_def heap split: if_splits)
  have old: "c < length heap \<and> tc_family (heap ! c) = f \<and> tc_end (heap ! c) \<noteq> 0 \<and> find_bucket (latency (heap ! c)) = int d \<and> c \<noteq> a"
    if "d < 8" "c \<in> set (trace_ring_do (ft_finished ft ! d))" for c d
    using fam that a(3) by (auto simp: family_ok_def)
  have finished: "c < length heap \<and> tc_family (heap[a := tr] ! c) = f \<and> tc_end (heap[a := tr] ! c) \<noteq> 0
      \<and> find_bucket (latency (heap[a := tr] ! c)) = int d"
    if "d < 8" "c \<in> set (trace_ring_do (ft_finished ?ft ! d))" for d c
  proof (cases "d = b \<and> c = a")
    case True
    with a(1) trf b(1) show ?thesis by (simp add: heap)
  next
    case False
    with that r(2) len have "c \<in> set (trace_ring_do (ft_finished ft ! d))" by (cases "d = b") auto
    with old [OF that(1)] show ?thesis by (simp add: heap)
  qed
  have errors: "c < length heap \<and> tc_family (heap[a := tr] ! c) = f \<and> tc_end (heap[a := tr] ! c) \<noteq> 0
      \<and> tc_is_error (heap[a := tr] ! c)" if "c \<in> set (trace_ring_do er)" for c
    using that er(2) fam a(1,3) trf by (auto simp: heap family_ok_def split: if_splits)
  have rings: "\<forall>x \<in> set (ft_finished ?ft). trace_ring_wf 10 x"
    using fam r(1) set_update_subset_insert [of "ft_finished ft" b r] by (auto simp: family_ok_def)
  show ?thesis unfolding family_ok_def
    using act finished errors rings cnt fam er(1) h len by (intro conjI) (simp_all add: family_ok_def gm_wf_del)
qed

lemma family_ok_finalize:
  assumes fam: "family_ok heap f ft" and a: "a < length heap" "tc_family (heap ! a) = f" "tc_end (heap ! a) = 0"
    and ids: "distinct (map tc_id heap)"
    and tr: "tr = (heap ! a)\<lparr>tc_end := now\<rparr>" and now: "now \<noteq> 0" "tc_start (heap ! a) \<le> now"
  shows "\<exists>ft'. finalize tr a ft = Some ft' \<and> family_ok (heap[a := tr]) f ft'
    \<and> a \<in> set (trace_ring_do (ft_finished ft' ! nat (find_bucket (latency tr))))
    \<and> (tc_is_error tr \<longrightarrow> a \<in> set (trace_ring_do (ft_errors ft')))"
proof -
  define b where "b = nat (find_bucket (latency tr))"
  have late: "0 \<le> latency tr" using now by (simp add: latency_def tr time_sub_nonneg)
  then have b: "find_bucket (latency tr) = int b" "b < 8"
    using find_bucket_range [of "latency tr"] unfolding b_def by linarith+
  from finalize_total [OF fam late, of a, folded b_def] obtain r er h where
      fin: "finalize tr a ft = Some (ft\<lparr>ft_active := gm_del (tc_id tr) (ft_active ft),
         ft_finished := (ft_finished ft)[b := r], ft_errors := er, ft_latencies := h\<rparr>)"
      and r: "trace_ring_wf 10 r" "a \<in> set (trace_ring_do r)"
        "set (trace_ring_do r) \<subseteq> insert a (set (trace_ring_do (ft_finished ft ! b)))"
      and er: "trace_ring_wf 10 er" "tc_is_error tr \<longrightarrow> a \<in> set (trace_ring_do er)"
        "set (trace_ring_do er) \<subseteq> (if tc_is_error tr then {a} else {}) \<union> set (trace_ring_do (ft_errors ft))"
      and h: "length (h_count h) = 8" "h_total_q h = h_total_q (ft_latencies ft) + 1" by blast
  have "length (ft_finished ft) = 8" using fam by (simp add: family_ok_def)
  with family_ok_finished [OF fam a ids tr now(1) b r(1,3) er(1,3) h] fin r(2) er(2) b(2) show ?thesis
    by (simp add: b_def [symmetric])
qed

text \<open>Finishing an open trace does not panic, and afterwards the family has it where it belongs.\<close>

lemma finish_trace_ok:
  assumes inv: "store_inv st" and a: "open_trace st a" and now: "tc_start (st_heap st ! a) \<le> now"
  shows "\<exists>st' ft'. finish_trace now a st = Some st' \<and> store_inv st'
     \<and> st_heap st' = (st_heap st)[a := (st_heap st ! a)\<lparr>tc_end := now\<rparr>]
     \<and> map_of (st_families st') (tc_family (st_heap st ! a)) = Some ft'
     \<and> a \<in> set (trace_ring_do (ft_finished ft' ! nat (find_bucket (time_sub now (tc_start (st_heap st ! a))))))
     \<and> (tc_is_error (st_heap st ! a) \<longrightarrow> a \<in> set (trace_ring_do (ft_errors ft')))"
proof -
  let ?heap = "st_heap st" and ?f = "tc_family (st_heap st ! a)"
  define tr where "tr = (?heap ! a)\<lparr>tc_end := now\<rparr>"
  have a': "a < length ?heap" "tc_end (?heap ! a) = 0" using a by (simp_all add: open_trace_def valid_def)
  have ok: "trace_ok (?heap ! a)" using inv a'(1) by (simp add: store_inv_def)
  then have pos: "now \<noteq> 0" using now by (simp add: trace_ok_def)
  have "map_of (st_families st) ?f \<noteq> None" using inv a'(1) by (simp add: store_inv_def)
  then obtain ft where ft: "map_of (st_families st) ?f = Some ft" by blast
  have fam: "family_ok ?heap ?f ft" using inv ft by (simp add: store_inv_def)
  have ids: "distinct (map tc_id ?heap)" using inv by (simp add: store_inv_def)
  obtain ft' where ft': "finalize tr a ft = Some ft'" "family_ok (?heap[a := tr]) ?f ft'"
      "a \<in> set (trace_ring_do (ft_finished ft' ! nat (find_bucket (latency tr))))"
      "tc_is_error tr \<longrightarrow> a \<in> set (trace_ring_do (ft_errors ft'))"
    using family_ok_finalize [OF fam a'(1) refl a'(2) ids tr_def pos now] by blast
  define st' where "st' = st\<lparr>st_heap := ?heap[a := tr], st_families := gm_set ?f ft' (st_families st)\<rparr>"
  have fin: "finish_trace now a st = Some st'"
    using ft ft'(1) a'(1) by (simp add: finish_trace_def on_trace_def Let_def tr_def st'_def)
  have "family_ok (?heap[a := tr]) g x" if "g \<noteq> ?f" "map_of (st_families st) g = Some x" for g x
    using inv that a' pos by (intro family_ok_finish_other) (auto simp: store_inv_def tr_def)
  moreover have "map tc_id (?heap[a := tr]) = map tc_id ?heap"
    using list_update_id [of "map tc_id ?heap" a] a'(1) by (simp add: map_update tr_def del: list_update_id)
  moreover have "trace_ok tr" using ok now by (simp add: trace_ok_def tr_def)
  ultimately have "\<forall>tr' \<in> set (?heap[a := tr]). trace_ok tr' \<and> (tc_family tr' = ?f \<or> map_of (st_families st) (tc_family tr') \<noteq> None)"
    and "\<And>g x. g \<noteq> ?f \<Longrightarrow> map_of (st_families st) g = Some x \<Longrightarrow> family_ok (?heap[a := tr]) g x"
    and "map tc_id (?heap[a := tr]) = map tc_id ?heap"
    using inv set_update_subset_insert [of ?heap a tr] by (auto simp: store_inv_def tr_def)
  then have "store_inv st'"
    using inv ft'(2) unfolding store_inv_def st'_def by (simp add: gm_wf_set) blast
  with fin ft' show ?thesis by (auto simp: st'_def tr_def latency_def)
qed

section \<open>The invariant holds in every state\<close>

lemma net_step_inv: "net_step st st' \<Longrightarrow> store_inv st \<Longrightarrow> store_inv st'"
proof (induction rule: net_step.induct)
  case (created st now rnd family title)
  then show ?case by (simp add: new_trace_inv(1))
next
  case (child st now rnd family a now2 title c st')
  let ?st1 = "snd (new_trace now rnd family title st)" and ?c = "length (st_heap st)"
  note new = new_trace_inv [OF child.prems child.hyps(1), where title = title]
  have a: "a < length (st_heap st)" using child.hyps(2) by (simp add: open_trace_def valid_def)
  let ?st2 = "on_trace (\<lambda>tr. tr\<lparr>tc_parent := Some a\<rparr>) ?c ?st1"
  have "trace_append (child_event now2 ?c) a ?st2 = Some st'" and "c = ?c"
    using child.hyps(3) new(2) by (auto simp: new_child_def split: prod.splits)
  moreover have "store_inv ?st2" using new_child_parent_inv [OF child.prems child.hyps(1)] .
  moreover have "a < length (st_heap ?st2)" using a new(3) by (simp add: on_trace_def)
  ultimately show ?case using trace_append_inv by blast
next
  case (logged st a now msg st')
  then show ?case by (auto simp: printf_trace_def open_trace_def valid_def intro: trace_append_inv)
next
  case (linked st a b now msg st')
  then show ?case by (auto simp: link_traces_def open_trace_def valid_def intro: trace_append_inv)
next
  case (errored st a)
  have a: "a < length (st_heap st)" using errored.hyps by (simp add: open_trace_def valid_def)
  then have "trace_ok (st_heap st ! a)" using errored.prems by (simp add: store_inv_def)
  with errored.prems a show ?case
    unfolding on_trace_def by (intro store_inv_on_trace) (auto simp: same_core_def trace_ok_def set_error_def)
next
  case (resized st a n)
  have a: "a < length (st_heap st)" using resized.hyps by (simp add: open_trace_def valid_def)
  then have "trace_ok (st_heap st ! a)" using resized.prems by (simp add: store_inv_def)
  with resized.prems a show ?case
    unfolding on_trace_def by (intro store_inv_on_trace) (auto simp: same_core_def trace_ok_def set_max_events_def Let_def)
next
  case (finished st a now st')
  from finish_trace_ok [OF finished.prems finished.hyps(1,2)] finished.hyps(3) show ?case by auto
qed

lemma net_reachable_inv: "net_reachable st \<Longrightarrow> store_inv st"
  unfolding net_reachable_def by (induction rule: rtranclp_induct) (auto intro: store_inv_empty net_step_inv)

end
