(* ===== verification/Net_Lookup.thy ===== *)
theory Net_Lookup
  imports Net_Store
begin

text \<open>
  Lookups in the trace store, in every state it can reach: the references between traces lead to
  traces, a lookup finds only the trace with the id, and it finds it exactly when a family still
  keeps it or the reference given leads to it.
\<close>

section \<open>References\<close>

definition refs_ok :: "store \<Rightarrow> bool" where
  "refs_ok st \<longleftrightarrow> (\<forall>a < length (st_heap st).
     (\<forall>p. tc_parent (st_heap st ! a) = Some p \<longrightarrow> valid st p)
     \<and> (\<forall>e \<in> set (events (st_heap st ! a)). \<forall>r. ev_ref e = Some r \<longrightarrow> valid st r))"

lemma refs_ok_parent: "refs_ok st \<Longrightarrow> valid st a \<Longrightarrow> tc_parent (st_heap st ! a) = Some p \<Longrightarrow> valid st p"
  unfolding refs_ok_def valid_def [of st a] by blast

lemma refs_ok_ref:
  "refs_ok st \<Longrightarrow> valid st a \<Longrightarrow> e \<in> set (events (st_heap st ! a)) \<Longrightarrow> ev_ref e = Some r \<Longrightarrow> valid st r"
  unfolding refs_ok_def valid_def [of st a] by blast

lemma refs_okI:
  assumes "\<And>a p. valid st a \<Longrightarrow> tc_parent (st_heap st ! a) = Some p \<Longrightarrow> valid st p"
    and "\<And>a e r. valid st a \<Longrightarrow> e \<in> set (events (st_heap st ! a)) \<Longrightarrow> ev_ref e = Some r \<Longrightarrow> valid st r"
  shows "refs_ok st"
  using assms unfolding refs_ok_def valid_def by blast

lemma refs_ok_heap: "st_heap st' = st_heap st \<Longrightarrow> refs_ok st' \<longleftrightarrow> refs_ok st"
  unfolding refs_ok_def valid_def by simp

lemma events_frame [simp]:
  "events (tr\<lparr>tc_end := n\<rparr>) = events tr" "events (tr\<lparr>tc_parent := q\<rparr>) = events tr"
  "events (set_error tr) = events tr" "events (set_max_events k tr) = events tr"
  "tc_parent (set_error tr) = tc_parent tr" "tc_parent (set_max_events k tr) = tc_parent tr"
  by (cases "tc_last_events tr"; simp add: events_def set_error_def set_max_events_def Let_def)+

lemma append_event_refs:
  assumes "trace_ok tr" and "append_event e tr = Some tr'" and "x \<in> set (events tr')" and "ev_ref x = Some r"
  shows "x = e \<or> x \<in> set (events tr)" and "tc_parent tr' = tc_parent tr"
proof -
  show "tc_parent tr' = tc_parent tr" using assms(2) by (auto simp: append_event_def Let_def split: if_splits)
  show "x = e \<or> x \<in> set (events tr)"
  proof (cases "int (length (tc_first_events tr)) < tc_cutoff tr")
    case True
    with assms show ?thesis by (auto simp: append_event_def events_def split: option.splits)
  next
    case False
    define q where "q = (case tc_last_events tr of None \<Rightarrow> new_evt_ring (nat (tc_max_events tr - tc_cutoff tr)) | Some r \<Rightarrow> r)"
    have wf: "evt_ring_wf (er_max q) q"
      using assms(1) by (auto simp: q_def trace_ok_def new_evt_ring_def evt_ring_wf_def split: option.splits)
    obtain q' where q': "evt_ring_add ev_when e q = Some q'" "tr' = tr\<lparr>tc_last_events := Some q'\<rparr>"
      using assms(2) False by (auto simp: append_event_def Let_def q_def)
    have "set (evt_ring_do q') \<subseteq> insert e (set (evt_ring_do q))" using evt.oldest_out [OF wf q'(1)] .
    moreover have "x \<in> set (tc_first_events tr) \<or> x \<in> set (evt_ring_do q')"
      using assms(3,4) q'(2) by (auto simp: events_def drop_event_def split: if_splits)
    moreover have "tc_last_events tr = None \<Longrightarrow> evt_ring_do q = []"
      by (simp add: q_def new_evt_ring_def evt_ring_do_def)
    ultimately show ?thesis by (cases "tc_last_events tr") (auto simp: events_def q_def)
  qed
qed

lemma refs_ok_trace_append:
  assumes "store_inv st" and "refs_ok st" and "valid st a" and "trace_append e a st = Some st'"
    and "\<And>r. ev_ref e = Some r \<Longrightarrow> valid st r"
  shows "refs_ok st'"
proof -
  obtain tr where tr: "append_event e (st_heap st ! a) = Some tr" "st' = st\<lparr>st_heap := (st_heap st)[a := tr]\<rparr>"
    using assms(4) by (auto simp: trace_append_def)
  have ok: "trace_ok (st_heap st ! a)" using assms(1,3) by (simp add: store_inv_def valid_def)
  have v: "valid st' b = valid st b" and nth: "valid st b \<Longrightarrow> st_heap st' ! b = (if b = a then tr else st_heap st ! b)" for b
    by (simp_all add: valid_def tr(2) nth_list_update)
  have par: "tc_parent tr = tc_parent (st_heap st ! a)"
    using tr(1) by (auto simp: append_event_def Let_def split: if_splits)
  have new: "valid st r" if "x \<in> set (events tr)" "ev_ref x = Some r" for x r
    using append_event_refs(1) [OF ok tr(1) that] assms(5) refs_ok_ref [OF assms(2,3) _ that(2)] that(2) by blast
  show ?thesis
  proof (rule refs_okI)
    fix b
    assume b: "valid st' b"
    show "tc_parent (st_heap st' ! b) = Some p \<Longrightarrow> valid st' p" for p
      using refs_ok_parent [OF assms(2), of b p] refs_ok_parent [OF assms(2,3), of p] par b
      by (simp add: v nth split: if_splits)
    show "x \<in> set (events (st_heap st' ! b)) \<Longrightarrow> ev_ref x = Some r \<Longrightarrow> valid st' r" for x r
      using refs_ok_ref [OF assms(2), of b x r] new [of x r] b by (simp add: v nth split: if_splits)
  qed
qed

lemma refs_ok_on_trace:
  assumes "refs_ok st" and "\<And>e. e \<in> set (events (f (st_heap st ! a))) \<Longrightarrow> e \<in> set (events (st_heap st ! a))"
    and "\<And>p. tc_parent (f (st_heap st ! a)) = Some p \<Longrightarrow> valid st p" and "valid st a"
  shows "refs_ok (on_trace f a st)"
proof (rule refs_okI)
  have v: "valid (on_trace f a st) b = valid st b" for b by (simp add: valid_def on_trace_def)
  have nth: "valid st b \<Longrightarrow> st_heap (on_trace f a st) ! b = (if b = a then f (st_heap st ! a) else st_heap st ! b)" for b
    by (simp add: valid_def on_trace_def nth_list_update)
  fix b
  assume b: "valid (on_trace f a st) b"
  show "tc_parent (st_heap (on_trace f a st) ! b) = Some p \<Longrightarrow> valid (on_trace f a st) p" for p
    using refs_ok_parent [OF assms(1), of b p] assms(3) [of p] b by (simp add: v nth split: if_splits)
  show "e \<in> set (events (st_heap (on_trace f a st) ! b)) \<Longrightarrow> ev_ref e = Some r \<Longrightarrow> valid (on_trace f a st) r" for e r
    using refs_ok_ref [OF assms(1), of b e r] refs_ok_ref [OF assms(1,4), of e r] assms(2) [of e] b
    by (simp add: v nth split: if_splits)
qed

lemma refs_ok_new_trace:
  assumes "refs_ok st"
  shows "refs_ok (snd (new_trace now rnd family title st))"
proof (rule refs_okI)
  let ?st' = "snd (new_trace now rnd family title st)"
  obtain tr where tr: "st_heap ?st' = st_heap st @ [tr]" "tc_parent tr = None" "events tr = []"
    by (auto simp: new_trace_def Let_def events_def)
  then have v: "valid ?st' b \<longleftrightarrow> valid st b \<or> b = length (st_heap st)" for b by (auto simp: valid_def)
  have nth: "st_heap ?st' ! b = (if valid st b then st_heap st ! b else tr)" if "valid ?st' b" for b
    using that tr(1) by (auto simp: valid_def nth_append)
  fix b
  assume b: "valid ?st' b"
  show "tc_parent (st_heap ?st' ! b) = Some p \<Longrightarrow> valid ?st' p" for p
    using refs_ok_parent [OF assms, of b p] tr(2) by (simp add: nth [OF b] v split: if_splits)
  show "e \<in> set (events (st_heap ?st' ! b)) \<Longrightarrow> ev_ref e = Some r \<Longrightarrow> valid ?st' r" for e r
    using refs_ok_ref [OF assms, of b e r] tr(3) by (simp add: nth [OF b] v split: if_splits)
qed

lemma refs_ok_finish:
  assumes "refs_ok st" and "valid st a" and "finish_trace now a st = Some st'"
  shows "refs_ok st'"
proof -
  let ?st = "on_trace (\<lambda>tr. tr\<lparr>tc_end := now\<rparr>) a st"
  have "refs_ok ?st"
    using assms(1,2) refs_ok_parent [OF assms(1,2)] by (intro refs_ok_on_trace) simp_all
  moreover have "st_heap st' = st_heap ?st"
    using assms(3) unfolding finish_trace_def Let_def
    by (cases "map_of (st_families ?st) (tc_family (st_heap ?st ! a))") auto
  ultimately show ?thesis using refs_ok_heap by blast
qed

lemma net_step_refs: "net_step st st' \<Longrightarrow> store_inv st \<Longrightarrow> refs_ok st \<Longrightarrow> refs_ok st'"
proof (induction rule: net_step.induct)
  case (created st now rnd family title)
  then show ?case by (simp add: refs_ok_new_trace)
next
  case (child st now rnd family a now2 title c st')
  let ?st1 = "snd (new_trace now rnd family title st)" and ?c = "length (st_heap st)"
  note new = new_trace_inv [OF child.prems(1) child.hyps(1), where title = title]
  let ?st2 = "on_trace (\<lambda>tr. tr\<lparr>tc_parent := Some a\<rparr>) ?c ?st1"
  have app: "trace_append (child_event now2 ?c) a ?st2 = Some st'"
    using child.hyps(3) new(2) by (auto simp: new_child_def split: prod.splits)
  have a: "valid st a" using child.hyps(2) by (simp add: open_trace_def)
  have v: "valid ?st1 b \<longleftrightarrow> b < ?c + 1" "valid ?st2 b \<longleftrightarrow> b < ?c + 1" for b
    using new(3) by (simp_all add: valid_def on_trace_def)
  have "refs_ok ?st2"
    using child.prems(2) a v
    by (intro refs_ok_on_trace refs_ok_new_trace) (auto simp: valid_def)
  moreover have "store_inv ?st2" using new_child_parent_inv [OF child.prems(1) child.hyps(1)] .
  ultimately show ?case
    using app a v by (intro refs_ok_trace_append [OF _ _ _ app]) (auto simp: child_event_def valid_def)
next
  case (logged st a now msg st')
  then show ?case
    by (intro refs_ok_trace_append [OF logged.prems]) (auto simp: printf_trace_def open_trace_def log_event_def)
next
  case (linked st a b now msg st')
  then show ?case
    by (intro refs_ok_trace_append [OF linked.prems]) (auto simp: link_traces_def open_trace_def link_event_def)
next
  case (errored st a)
  then show ?case
    using refs_ok_parent by (intro refs_ok_on_trace) (auto simp: open_trace_def)
next
  case (resized st a n)
  then show ?case
    using refs_ok_parent by (intro refs_ok_on_trace) (auto simp: open_trace_def)
next
  case (finished st a now st')
  then show ?case using refs_ok_finish by (auto simp: open_trace_def)
qed

lemma net_reachable_refs: "net_reachable st \<Longrightarrow> refs_ok st"
proof -
  have "net_step\<^sup>*\<^sup>* empty_store st \<Longrightarrow> store_inv st \<and> refs_ok st"
  proof (induction rule: rtranclp_induct)
    case base
    show ?case using store_inv_empty by (simp add: refs_ok_def empty_store_def)
  next
    case (step y z)
    then show ?case using net_step_inv net_step_refs by blast
  qed
  then show "net_reachable st \<Longrightarrow> refs_ok st" by (simp add: net_reachable_def)
qed

section \<open>Lookups\<close>

lemma ring_find_fold:
  "foldl (\<lambda>found tr. if tc_id (heap ! tr) = i then Some tr else found) acc xs =
     (case filter (\<lambda>a. tc_id (heap ! a) = i) xs of [] \<Rightarrow> acc | ys \<Rightarrow> Some (last ys))"
  by (induction xs arbitrary: acc) (auto split: list.splits)

lemma ring_find_None: "ring_find heap i r = None \<longleftrightarrow> (\<forall>a \<in> set (trace_ring_do r). tc_id (heap ! a) \<noteq> i)"
  by (simp add: ring_find_def ring_find_fold flip: filter_empty_conv split: list.splits)

lemma ring_find_Some: "ring_find heap i r = Some a \<Longrightarrow> a \<in> set (trace_ring_do r) \<and> tc_id (heap ! a) = i"
proof -
  assume "ring_find heap i r = Some a"
  then obtain y ys where "filter (\<lambda>a. tc_id (heap ! a) = i) (trace_ring_do r) = y # ys" "a = last (y # ys)"
    by (auto simp: ring_find_def ring_find_fold split: list.splits)
  then have "a \<in> set (filter (\<lambda>a. tc_id (heap ! a) = i) (trace_ring_do r))" by (metis last_in_set list.distinct(1))
  then show ?thesis by simp
qed

lemma rings_find_None: "rings_find heap i rs = None \<longleftrightarrow> (\<forall>r \<in> set rs. \<forall>a \<in> set (trace_ring_do r). tc_id (heap ! a) \<noteq> i)"
  by (induction rs) (auto simp: ring_find_None dest: ring_find_Some split: option.splits)

lemma rings_find_Some:
  "rings_find heap i rs = Some a \<Longrightarrow> (\<exists>r \<in> set rs. a \<in> set (trace_ring_do r)) \<and> tc_id (heap ! a) = i"
  by (induction rs) (auto dest: ring_find_Some split: option.splits)

text \<open>The traces a family keeps.\<close>

definition keeps :: "family_traces \<Rightarrow> addr \<Rightarrow> bool" where
  "keeps ft a \<longleftrightarrow> a \<in> snd ` set (ft_active ft) \<or> (\<exists>r \<in> set (ft_finished ft). a \<in> set (trace_ring_do r))
     \<or> a \<in> set (trace_ring_do (ft_errors ft))"

lemma keeps_family: "family_ok heap f ft \<Longrightarrow> keeps ft a \<Longrightarrow> a < length heap \<and> tc_family (heap ! a) = f"
proof -
  assume fam: "family_ok heap f ft" and "keeps ft a"
  then consider "a \<in> snd ` set (ft_active ft)" | r where "r \<in> set (ft_finished ft)" "a \<in> set (trace_ring_do r)"
    | "a \<in> set (trace_ring_do (ft_errors ft))" by (auto simp: keeps_def)
  then show ?thesis
  proof cases
    case 1
    then obtain i where "map_of (ft_active ft) i = Some a"
      using fam by (auto simp: family_ok_def gm_wf_def dest: map_of_is_SomeI)
    with fam show ?thesis by (simp add: family_ok_def)
  next
    case 2
    then obtain b where "b < 8" "r = ft_finished ft ! b" using fam by (auto simp: family_ok_def in_set_conv_nth)
    with 2 fam show ?thesis by (simp add: family_ok_def)
  next
    case 3
    with fam show ?thesis by (simp add: family_ok_def)
  qed
qed

lemma find_trace_Some:
  assumes "family_ok heap f ft" and "find_trace heap i ft = Some a"
  shows "keeps ft a \<and> tc_id (heap ! a) = i"
proof (cases "map_of (ft_active ft) i")
  case None
  with assms(2) show ?thesis
    by (auto simp: find_trace_def keeps_def dest: rings_find_Some ring_find_Some split: option.splits)
next
  case (Some b)
  with assms have "b = a" "tc_id (heap ! a) = i" by (auto simp: find_trace_def family_ok_def)
  with Some show ?thesis by (auto simp: keeps_def dest: map_of_SomeD intro: rev_image_eqI)
qed

lemma find_trace_None: "find_trace heap i ft = None \<Longrightarrow> keeps ft a \<Longrightarrow> family_ok heap f ft \<Longrightarrow> tc_id (heap ! a) \<noteq> i"
proof
  assume n: "find_trace heap i ft = None" and k: "keeps ft a" and fam: "family_ok heap f ft" and i: "tc_id (heap ! a) = i"
  from n have "map_of (ft_active ft) i = None" "rings_find heap i (ft_finished ft) = None" "ring_find heap i (ft_errors ft) = None"
    by (auto simp: find_trace_def split: option.splits)
  with k i have "a \<in> snd ` set (ft_active ft)" by (auto simp: keeps_def rings_find_None ring_find_None)
  then obtain j where "map_of (ft_active ft) j = Some a"
    using fam by (auto simp: family_ok_def gm_wf_def dest: map_of_is_SomeI)
  with fam i have "map_of (ft_active ft) i = Some a" by (simp add: family_ok_def)
  with \<open>map_of (ft_active ft) i = None\<close> show False by simp
qed

definition kept :: "store \<Rightarrow> addr \<Rightarrow> bool" where
  "kept st a \<longleftrightarrow> (\<exists>ft. map_of (st_families st) (tc_family (st_heap st ! a)) = Some ft \<and> keeps ft a)"

text \<open>The lookup by the id alone, and by the reference.\<close>

definition find_direct :: "store \<Rightarrow> string \<Rightarrow> addr option" where
  "find_direct st i =
     (case map_of (st_families st) (id_family i) of None \<Rightarrow> None | Some fts \<Rightarrow> find_trace (st_heap st) i fts)"

lemma find_in_families_direct: "find_in_families st i [] = find_direct st i"
  by (subst find_in_families.simps) (simp add: find_direct_def split: option.splits)

lemma find_direct_Some:
  assumes "store_inv st" and "find_direct st i = Some a"
  shows "valid st a \<and> tc_id (st_heap st ! a) = i \<and> kept st a"
proof -
  obtain ft where ft: "map_of (st_families st) (id_family i) = Some ft" "find_trace (st_heap st) i ft = Some a"
    using assms(2) by (auto simp: find_direct_def split: option.splits)
  have fam: "family_ok (st_heap st) (id_family i) ft" using assms(1) ft(1) by (simp add: store_inv_def)
  from find_trace_Some [OF this ft(2)] keeps_family [OF fam, of a] ft(1) show ?thesis
    by (auto simp: valid_def kept_def)
qed

lemma heap_ids_unique: "store_inv st \<Longrightarrow> valid st a \<Longrightarrow> valid st b \<Longrightarrow> tc_id (st_heap st ! a) = tc_id (st_heap st ! b) \<Longrightarrow> a = b"
  by (auto simp: store_inv_def valid_def distinct_conv_nth)

lemma find_direct_kept:
  assumes "store_inv st" and "valid st a" and "kept st a"
  shows "find_direct st (tc_id (st_heap st ! a)) = Some a"
proof -
  let ?tr = "st_heap st ! a"
  obtain ft where ft: "map_of (st_families st) (tc_family ?tr) = Some ft" "keeps ft a"
    using assms(3) by (auto simp: kept_def)
  have fam: "family_ok (st_heap st) (tc_family ?tr) ft" using assms(1) ft(1) by (simp add: store_inv_def)
  have id: "id_family (tc_id ?tr) = tc_family ?tr" using assms(1,2) by (simp add: store_inv_def trace_ok_def valid_def)
  obtain b where b: "find_trace (st_heap st) (tc_id ?tr) ft = Some b"
    using find_trace_None [OF _ ft(2) fam, of "tc_id ?tr"] by fastforce
  then have "find_direct st (tc_id ?tr) = Some b" using ft(1) id by (simp add: find_direct_def)
  with find_direct_Some [OF assms(1) this] heap_ids_unique [OF assms(1) _ assms(2)] show ?thesis by auto
qed

text \<open>Whether a trace refers to another: as its child, or by an event.\<close>

definition leads_to :: "store \<Rightarrow> addr \<Rightarrow> addr \<Rightarrow> bool" where
  "leads_to st b a \<longleftrightarrow> tc_parent (st_heap st ! b) = Some a \<or> (\<exists>e \<in> set (events (st_heap st ! b)). ev_ref e = Some a)"

definition event_ref :: "store \<Rightarrow> string \<Rightarrow> event list \<Rightarrow> addr option" where
  "event_ref st i es =
     Option.bind (find (\<lambda>e. case ev_ref e of None \<Rightarrow> False | Some r \<Rightarrow> tc_id (st_heap st ! r) = i) es) ev_ref"

definition find_by_ref :: "store \<Rightarrow> string \<Rightarrow> addr \<Rightarrow> addr option" where
  "find_by_ref st i b =
     (case tc_parent (st_heap st ! b) of
        Some p \<Rightarrow> if tc_id (st_heap st ! p) = i then Some p else event_ref st i (events (st_heap st ! b))
      | None \<Rightarrow> event_ref st i (events (st_heap st ! b)))"

lemma event_ref_rec [simp]:
  "event_ref st i [] = None"
  "event_ref st i (e # es) = (case ev_ref e of
     Some r \<Rightarrow> if tc_id (st_heap st ! r) = i then Some r else event_ref st i es | None \<Rightarrow> event_ref st i es)"
  by (simp_all add: event_ref_def split: option.splits)

lemma event_ref_Some: "event_ref st i es = Some a \<Longrightarrow> (\<exists>e \<in> set es. ev_ref e = Some a) \<and> tc_id (st_heap st ! a) = i"
  by (induction es) (auto split: option.splits if_splits)

lemma event_ref_None: "event_ref st i es = None \<Longrightarrow> e \<in> set es \<Longrightarrow> ev_ref e = Some a \<Longrightarrow> tc_id (st_heap st ! a) \<noteq> i"
  by (induction es) (auto split: option.splits if_splits)

lemma find_in_families_unfold:
  "find_in_families st i ref =
     (case find_direct st i of
        Some a \<Rightarrow> Some a
      | None \<Rightarrow> if ref = [] then None else Option.bind (find_direct st ref) (find_by_ref st i))"
  by (subst find_in_families.simps)
    (simp add: find_in_families_direct find_by_ref_def event_ref_def flip: find_direct_def
      split: option.splits)

lemma find_by_ref_Some: "find_by_ref st i b = Some a \<Longrightarrow> leads_to st b a \<and> tc_id (st_heap st ! a) = i"
  by (auto simp: find_by_ref_def leads_to_def dest: event_ref_Some split: option.splits if_splits)

lemma find_by_ref_None: "find_by_ref st i b = None \<Longrightarrow> leads_to st b a \<Longrightarrow> tc_id (st_heap st ! a) \<noteq> i"
  by (auto simp: find_by_ref_def leads_to_def dest: event_ref_None split: option.splits if_splits)

lemma leads_to_valid: "refs_ok st \<Longrightarrow> valid st b \<Longrightarrow> leads_to st b a \<Longrightarrow> valid st a"
  by (auto simp: leads_to_def intro: refs_ok_parent refs_ok_ref)

lemma find_in_families_cases:
  assumes "net_reachable st"
  shows "find_in_families st i ref = Some a \<Longrightarrow>
      valid st a \<and> tc_id (st_heap st ! a) = i
      \<and> (kept st a \<or> (\<exists>b. valid st b \<and> kept st b \<and> tc_id (st_heap st ! b) = ref \<and> leads_to st b a))"
    and "valid st a \<Longrightarrow> kept st a \<Longrightarrow> find_in_families st (tc_id (st_heap st ! a)) ref = Some a"
    and "valid st b \<Longrightarrow> kept st b \<Longrightarrow> leads_to st b a \<Longrightarrow>
      find_in_families st (tc_id (st_heap st ! a)) (tc_id (st_heap st ! b)) = Some a"
proof -
  note inv = net_reachable_inv [OF assms] net_reachable_refs [OF assms]
  show "valid st a \<and> tc_id (st_heap st ! a) = i
      \<and> (kept st a \<or> (\<exists>b. valid st b \<and> kept st b \<and> tc_id (st_heap st ! b) = ref \<and> leads_to st b a))"
    if "find_in_families st i ref = Some a"
  proof (cases "find_direct st i")
    case (Some c)
    with that find_direct_Some [OF inv(1) Some] show ?thesis by (simp add: find_in_families_unfold)
  next
    case None
    with that obtain b where b: "find_direct st ref = Some b" "find_by_ref st i b = Some a"
      by (auto simp: find_in_families_unfold bind_eq_Some_conv split: if_splits)
    note b' = find_direct_Some [OF inv(1) b(1)] and a' = find_by_ref_Some [OF b(2)]
    with leads_to_valid [OF inv(2)] show ?thesis by blast
  qed
  show "valid st a \<Longrightarrow> kept st a \<Longrightarrow> find_in_families st (tc_id (st_heap st ! a)) ref = Some a"
    using find_direct_kept [OF inv(1)] by (simp add: find_in_families_unfold)
  show "find_in_families st (tc_id (st_heap st ! a)) (tc_id (st_heap st ! b)) = Some a"
    if b: "valid st b" "kept st b" "leads_to st b a"
  proof (cases "find_direct st (tc_id (st_heap st ! a))")
    case (Some c)
    from find_direct_Some [OF inv(1) this] leads_to_valid [OF inv(2) b(1,3)] have "c = a"
      using heap_ids_unique [OF inv(1)] by blast
    with Some show ?thesis by (simp add: find_in_families_unfold)
  next
    case None
    have va: "valid st a" using leads_to_valid [OF inv(2) b(1,3)] .
    obtain c where c: "find_by_ref st (tc_id (st_heap st ! a)) b = Some c"
      using find_by_ref_None [OF _ b(3)] by fastforce
    have "c = a" using find_by_ref_Some [OF c] leads_to_valid [OF inv(2) b(1)] heap_ids_unique [OF inv(1) _ va] by blast
    moreover have "tc_id (st_heap st ! b) \<noteq> []"
      using inv(1) b(1) by (auto simp: store_inv_def trace_ok_def valid_def)
    ultimately show ?thesis using None c find_direct_kept [OF inv(1) b(1,2)] by (simp add: find_in_families_unfold)
  qed
qed

text \<open>Every operation on an open trace succeeds.\<close>

lemma store_inv_trace:
  assumes "store_inv st" and "valid st a"
  shows "trace_ok (st_heap st ! a)" and "\<exists>ft. map_of (st_families st) (tc_family (st_heap st ! a)) = Some ft"
proof -
  have "st_heap st ! a \<in> set (st_heap st)" using assms(2) by (simp add: valid_def)
  with assms(1) show "trace_ok (st_heap st ! a)" "\<exists>ft. map_of (st_families st) (tc_family (st_heap st ! a)) = Some ft"
    unfolding store_inv_def by blast+
qed

lemma trace_append_total: "store_inv st \<Longrightarrow> open_trace st a \<Longrightarrow> \<exists>st'. trace_append e a st = Some st'"
  using append_event_total [of "st_heap st ! a" e]
  by (auto simp: trace_append_def store_inv_def open_trace_def valid_def)

lemma new_child_total:
  assumes inv: "store_inv st" and a: "open_trace st a" and new: "can_create st now rnd family"
  shows "\<exists>c st'. new_child now rnd now2 family title a st = Some (c, st')"
proof -
  let ?st1 = "snd (new_trace now rnd family title st)" and ?c = "length (st_heap st)"
  note n = new_trace_inv [OF inv new, where title = title]
  let ?st2 = "on_trace (\<lambda>tr. tr\<lparr>tc_parent := Some a\<rparr>) ?c ?st1"
  have "store_inv ?st2" using new_child_parent_inv [OF inv new] .
  moreover have "open_trace ?st2 a"
    using a n(3,4) by (auto simp: open_trace_def on_trace_def valid_def)
  ultimately show ?thesis
    using trace_append_total [of ?st2 a "child_event now2 ?c"] n(2)
    by (auto simp: new_child_def split: prod.split)
qed

lemma net_reachable_step: "net_reachable st \<Longrightarrow> net_step st st' \<Longrightarrow> net_reachable st'"
  unfolding net_reachable_def by (rule rtranclp.rtrancl_into_rtrancl)

lemma open_trace_kept: "store_inv st \<Longrightarrow> open_trace st a \<Longrightarrow> kept st a"
proof -
  assume inv: "store_inv st" and a: "open_trace st a"
  then obtain ft where ft: "map_of (st_families st) (tc_family (st_heap st ! a)) = Some ft"
    using store_inv_trace(2) by (auto simp: open_trace_def)
  with inv a have "map_of (ft_active ft) (tc_id (st_heap st ! a)) = Some a"
    by (auto simp: store_inv_def family_ok_def open_trace_def valid_def)
  then have "keeps ft a" by (auto simp: keeps_def dest: map_of_SomeD intro: rev_image_eqI)
  with ft show "kept st a" by (auto simp: kept_def)
qed

section \<open>Properties\<close>

text \<open>
  C27: A lookup by id and reference finds a trace exactly when it has the id and its family
  still keeps it (among the active, the finished or the failed ones), or the reference is the id of
  a kept trace that is its child or has an event that refers to it.
\<close>

theorem find_in_families_exact:
  assumes "net_reachable st"
  shows "find_in_families st i ref = Some a \<longleftrightarrow> valid st a \<and> tc_id (st_heap st ! a) = i
    \<and> (kept st a \<or> (\<exists>b. valid st b \<and> kept st b \<and> tc_id (st_heap st ! b) = ref \<and> leads_to st b a))"
  using find_in_families_cases(1) [OF assms, of i ref a] find_in_families_cases(2,3) [OF assms] by blast

text \<open>
  C17: The trace store is well-formed in every state it can reach. Ids are not repeated and name their
  family; an active map holds exactly the open traces of its family, by id; a bucket has at most ten
  traces, all finished and with a latency of the bucket; the ring of errors has at most ten, all finished
  with an error; and the latency histogram has counted each finished trace once.
\<close>

theorem store_well_formed:
  assumes "net_reachable st"
  shows "distinct (map tc_id (st_heap st))
    \<and> (\<forall>tr \<in> set (st_heap st). id_family (tc_id tr) = tc_family tr
         \<and> (tc_end tr = 0 \<or> tc_start tr \<le> tc_end tr) \<and> map_of (st_families st) (tc_family tr) \<noteq> None)
    \<and> (\<forall>f ft. map_of (st_families st) f = Some ft \<longrightarrow>
         (\<forall>i a. map_of (ft_active ft) i = Some a \<longleftrightarrow>
            open_trace st a \<and> tc_id (st_heap st ! a) = i \<and> tc_family (st_heap st ! a) = f)
       \<and> (\<forall>b < 8. length (trace_ring_do (ft_finished ft ! b)) \<le> 10
            \<and> (\<forall>a \<in> set (trace_ring_do (ft_finished ft ! b)). a \<in> done_traces f (st_heap st)
                 \<and> find_bucket (latency (st_heap st ! a)) = int b))
       \<and> length (trace_ring_do (ft_errors ft)) \<le> 10
       \<and> (\<forall>a \<in> set (trace_ring_do (ft_errors ft)). a \<in> done_traces f (st_heap st) \<and> tc_is_error (st_heap st ! a))
       \<and> h_total_q (ft_latencies ft) = of_nat (card (done_traces f (st_heap st))))"
proof -
  note inv = net_reachable_inv [OF assms]
  have fam: "(\<forall>i a. map_of (ft_active ft) i = Some a \<longleftrightarrow>
            open_trace st a \<and> tc_id (st_heap st ! a) = i \<and> tc_family (st_heap st ! a) = f)
       \<and> (\<forall>b < 8. length (trace_ring_do (ft_finished ft ! b)) \<le> 10
            \<and> (\<forall>a \<in> set (trace_ring_do (ft_finished ft ! b)). a \<in> done_traces f (st_heap st)
                 \<and> find_bucket (latency (st_heap st ! a)) = int b))
       \<and> length (trace_ring_do (ft_errors ft)) \<le> 10
       \<and> (\<forall>a \<in> set (trace_ring_do (ft_errors ft)). a \<in> done_traces f (st_heap st) \<and> tc_is_error (st_heap st ! a))
       \<and> h_total_q (ft_latencies ft) = of_nat (card (done_traces f (st_heap st)))"
    if "map_of (st_families st) f = Some ft" for f ft
  proof -
    have ok: "family_ok (st_heap st) f ft" using inv that by (simp add: store_inv_def)
    then have "\<forall>r \<in> set (ft_finished ft). length (trace_ring_do r) \<le> 10" "length (trace_ring_do (ft_errors ft)) \<le> 10"
      using trc.bounded by (auto simp: family_ok_def)
    moreover from this(1) ok have "length (trace_ring_do (ft_finished ft ! b)) \<le> 10" if "b < 8" for b
      using that by (simp add: family_ok_def)
    ultimately show ?thesis
      using ok by (auto simp: family_ok_def open_trace_def valid_def done_traces_def)
  qed
  have "\<forall>tr \<in> set (st_heap st). trace_ok tr \<and> map_of (st_families st) (tc_family tr) \<noteq> None" "distinct (map tc_id (st_heap st))"
    using inv by (simp_all add: store_inv_def)
  with fam show ?thesis by (simp add: trace_ok_def)
qed

text \<open>
  C15: Every operation on a trace that is not finished succeeds, in every state the store can reach:
  adding an event of any kind, creating a child, and finishing it at a time not before its start.
  Until then the trace is found by its id; finishing leaves it among the kept ones, and it is still
  found.
\<close>

theorem open_trace_usable:
  assumes "net_reachable st" and "open_trace st a"
  shows "find_in_families st (tc_id (st_heap st ! a)) ref = Some a
    \<and> (\<exists>st'. printf_trace now msg a st = Some st')
    \<and> (\<exists>st'. errorf_trace now msg a st = Some st')
    \<and> (\<exists>st'. link_traces now b msg a st = Some st')
    \<and> (can_create st now rnd family \<longrightarrow> (\<exists>c st'. new_child now rnd now2 family title a st = Some (c, st')))
    \<and> (tc_start (st_heap st ! a) \<le> now \<longrightarrow>
        (\<exists>st'. finish_trace now a st = Some st' \<and> net_reachable st' \<and> \<not> open_trace st' a \<and> kept st' a
           \<and> find_in_families st' (tc_id (st_heap st ! a)) ref = Some a))"
proof (intro conjI impI)
  note inv = net_reachable_inv [OF assms(1)]
  have a: "valid st a" using assms(2) by (simp add: open_trace_def)
  show "find_in_families st (tc_id (st_heap st ! a)) ref = Some a"
    using find_in_families_cases(2) [OF assms(1) a open_trace_kept [OF inv assms(2)]] .
  show "\<exists>st'. printf_trace now msg a st = Some st'" "\<exists>st'. link_traces now b msg a st = Some st'"
    using trace_append_total [OF inv assms(2)] by (simp_all add: printf_trace_def link_traces_def)
  have "open_trace (on_trace set_error a st) a"
    using assms(2) by (simp add: open_trace_def on_trace_def valid_def set_error_def)
  then show "\<exists>st'. errorf_trace now msg a st = Some st'"
    using trace_append_total [of "on_trace set_error a st" a] net_step_inv [OF net_step.errored [OF assms(2)] inv]
    by (simp add: errorf_trace_def printf_trace_def)
next
  assume "can_create st now rnd family"
  then show "\<exists>c st'. new_child now rnd now2 family title a st = Some (c, st')"
    using new_child_total [OF net_reachable_inv [OF assms(1)] assms(2)] by blast
next
  assume now: "tc_start (st_heap st ! a) \<le> now"
  note inv = net_reachable_inv [OF assms(1)]
  have a: "a < length (st_heap st)" using assms(2) by (simp add: open_trace_def valid_def)
  obtain st' ft' where st': "finish_trace now a st = Some st'" "store_inv st'"
      "st_heap st' = (st_heap st)[a := (st_heap st ! a)\<lparr>tc_end := now\<rparr>]"
      "map_of (st_families st') (tc_family (st_heap st ! a)) = Some ft'"
      "a \<in> set (trace_ring_do (ft_finished ft' ! nat (find_bucket (time_sub now (tc_start (st_heap st ! a))))))"
    using finish_trace_ok [OF inv assms(2) now] by blast
  have r: "net_reachable st'" using net_reachable_step [OF assms(1) net_step.finished [OF assms(2) now st'(1)]] .
  have pos: "now \<noteq> 0" using store_inv_trace(1) [OF inv, of a] a now by (auto simp: trace_ok_def valid_def)
  have "length (ft_finished ft') = 8" using st'(2,4) by (auto simp: store_inv_def family_ok_def)
  moreover have "nat (find_bucket (time_sub now (tc_start (st_heap st ! a)))) < 8"
    using find_bucket_range [of "time_sub now (tc_start (st_heap st ! a))"] time_sub_nonneg [OF now] by linarith
  ultimately have "keeps ft' a" using st'(5) by (auto simp: keeps_def)
  then have k: "kept st' a" using st'(3,4) a by (simp add: kept_def)
  have "find_in_families st' (tc_id (st_heap st' ! a)) ref = Some a"
    using find_in_families_cases(2) [OF r _ k] a st'(3) by (simp add: valid_def)
  then show "\<exists>st'. finish_trace now a st = Some st' \<and> net_reachable st' \<and> \<not> open_trace st' a \<and> kept st' a
           \<and> find_in_families st' (tc_id (st_heap st ! a)) ref = Some a"
    using st'(1,3) r k a pos by (auto simp: open_trace_def)
qed

section \<open>The properties at a concrete store\<close>

text \<open>A parent with a child, and later the child finished.\<close>

definition demo_start :: store where
  "demo_start = snd (new_trace 62135596800000000007 1 ''q'' ''t'' empty_store)"

definition demo_open :: store where
  "demo_open = snd (the (new_child 62135596800000000008 2 62135596800000000009 ''r'' ''u'' 0 demo_start))"

definition demo_done :: store where
  "demo_done = the (finish_trace 62135596800009000008 1 demo_open)"

lemmas demo_eval = demo_start_def demo_open_def demo_done_def new_trace_def new_child_def on_trace_def trace_append_def
  append_event_def child_event_def new_id_def unix_nano_def empty_store_def new_family_traces_def
  empty_histogram_def text_eval

lemma demo_reachable: "net_reachable demo_start" "net_reachable demo_open"
  and demo_open_trace: "open_trace demo_start 0" "open_trace demo_open 0" "open_trace demo_open 1"
proof -
  have s: "net_reachable demo_start"
    unfolding demo_start_def
    by (rule net_reachable_step [OF _ net_step.created]) (simp_all add: net_reachable_def can_create_def empty_store_def)
  have o: "open_trace demo_start 0" by (simp add: open_trace_def valid_def demo_eval)
  have c: "can_create demo_start 62135596800000000008 2 ''r''" by (simp add: can_create_def demo_eval)
  have "new_child 62135596800000000008 2 62135596800000000009 ''r'' ''u'' 0 demo_start = Some (1, demo_open)"
    by (simp add: demo_eval)
  from net_reachable_step [OF s net_step.child [OF c o this]] s
  show "net_reachable demo_start" "net_reachable demo_open" by auto
  show "open_trace demo_start 0" "open_trace demo_open 0" "open_trace demo_open 1"
    by (simp_all add: open_trace_def valid_def demo_eval)
qed

lemma demo_open_child: "st_heap demo_open ! Suc 0 = \<lparr>tc_id = ''r!8!2'', tc_family = ''r'', tc_title = ''u'',
    tc_parent = Some 0, tc_start = 62135596800000000008, tc_end = 0, tc_is_error = False, tc_max_events = 30,
    tc_cutoff = 10, tc_first_events = [], tc_last_events = None\<rparr>"
  by (simp add: demo_eval)

theorem find_in_families_exact_witness: "find_in_families demo_open ''r!8!2'' [] = Some 1"
  using find_in_families_exact [OF demo_reachable(2), of "''r!8!2''" "[]" 1]
    open_trace_kept [OF net_reachable_inv [OF demo_reachable(2)] demo_open_trace(3)] demo_open_trace(3)
  by (simp add: demo_open_child open_trace_def)

theorem store_well_formed_witness:
  "\<exists>ft. map_of (st_families demo_open) ''r'' = Some ft \<and> map_of (ft_active ft) ''r!8!2'' = Some 1"
proof -
  have "valid demo_open 1" using demo_open_trace(3) by (simp add: open_trace_def)
  then have "st_heap demo_open ! 1 \<in> set (st_heap demo_open)" by (simp add: valid_def)
  with store_well_formed [OF demo_reachable(2)] demo_open_child obtain ft where
      ft: "map_of (st_families demo_open) ''r'' = Some ft" by fastforce
  with store_well_formed [OF demo_reachable(2)] demo_open_trace(3) demo_open_child
  have "map_of (ft_active ft) ''r!8!2'' = Some 1" by fastforce
  with ft show ?thesis by blast
qed

lemma demo_can_create: "can_create demo_open 62135596800000000010 3 ''s''"
  by (simp add: can_create_def demo_eval)

theorem open_trace_usable_witness:
  "find_in_families demo_open ''r!8!2'' [] = Some 1
   \<and> (\<exists>c st'. new_child 62135596800000000010 3 62135596800000000011 ''s'' ''v'' 1 demo_open = Some (c, st'))
   \<and> (\<exists>st'. finish_trace 62135596800000000010 1 demo_open = Some st' \<and> net_reachable st' \<and> \<not> open_trace st' 1
         \<and> find_in_families st' ''r!8!2'' [] = Some 1)"
  using open_trace_usable [OF demo_reachable(2) demo_open_trace(3), where ref = "[]" and now = 62135596800000000010
      and rnd = 3 and family = "''s''" and ?now2.0 = 62135596800000000011 and title = "''v''"]
    demo_can_create
  by (auto simp: demo_open_child)

end
