(* ===== verification/Net_Context.thy ===== *)
theory Net_Context
  imports Net_Lookup
begin

text \<open>
  \<^verbatim>\<open>internal/nettrace/context.go\<close>: traces in a \<^verbatim>\<open>context.Context\<close>. A context is the list of the values
  attached to it, the latest first; keys of another type than \<^verbatim>\<open>ctxKeyT\<close> are \<open>OtherKey\<close>, and values
  that are not traces \<open>OtherValue\<close>.
\<close>

section \<open>Contexts\<close>

datatype ctx_key = CtxKeyT string | OtherKey nat

datatype ctx_value = TraceValue addr | OtherValue nat

type_synonym ctx = "(ctx_key \<times> ctx_value) list"

definition ctx_key :: ctx_key where
  "ctx_key = CtxKeyT ''blitiri.com.ar/go/nettrace''"

definition new_context :: "ctx \<Rightarrow> addr \<Rightarrow> ctx" where
  "new_context ctx tr = (ctx_key, TraceValue tr) # ctx"

definition from_context :: "ctx \<Rightarrow> addr option" where
  "from_context ctx =
     (case map_of ctx ctx_key of Some (TraceValue tr) \<Rightarrow> Some tr | _ \<Rightarrow> None)"

definition from_context_or_new ::
    "instant \<Rightarrow> u64 \<Rightarrow> ctx \<Rightarrow> string \<Rightarrow> string \<Rightarrow> store \<Rightarrow> (addr \<times> ctx) \<times> store" where
  "from_context_or_new now rnd ctx family title st =
     (case from_context ctx of
        Some tr \<Rightarrow> ((tr, ctx), st)
      | None \<Rightarrow> (let (tr, st) = new_trace now rnd family title st in ((tr, new_context ctx tr), st)))"

definition child_from_context ::
    "instant \<Rightarrow> u64 \<Rightarrow> instant \<Rightarrow> ctx \<Rightarrow> string \<Rightarrow> string \<Rightarrow> store \<Rightarrow> (addr \<times> store) option" where
  "child_from_context now rnd now2 ctx family title st =
     (case from_context ctx of
        Some parent \<Rightarrow> new_child now rnd now2 family title parent st
      | None \<Rightarrow> Some (new_trace now rnd family title st))"

section \<open>What the caller gets\<close>

lemma from_new_context [simp]: "from_context (new_context ctx tr) = Some tr"
  by (simp add: from_context_def new_context_def)

lemma from_context_other: "k \<noteq> ctx_key \<Longrightarrow> from_context ((k, v) # ctx) = from_context ctx"
  by (simp add: from_context_def)

text \<open>A new trace is open, and has no parent; a child has the parent it was made for.\<close>

lemma new_trace_open:
  "open_trace (snd (new_trace now rnd family title st)) (fst (new_trace now rnd family title st))
   \<and> tc_parent (st_heap (snd (new_trace now rnd family title st)) ! fst (new_trace now rnd family title st)) = None"
  by (simp add: new_trace_def Let_def open_trace_def valid_def)

lemma append_event_shown: "trace_ok tr \<Longrightarrow> append_event e tr = Some tr' \<Longrightarrow> e \<in> set (events tr')"
proof (cases "int (length (tc_first_events tr)) < tc_cutoff tr")
  case True
  assume "append_event e tr = Some tr'"
  with True show ?thesis by (auto simp: append_event_def events_def split: option.splits)
next
  case False
  assume ok: "trace_ok tr" and app: "append_event e tr = Some tr'"
  define r where "r = (case tc_last_events tr of None \<Rightarrow> new_evt_ring (nat (tc_max_events tr - tc_cutoff tr)) | Some r \<Rightarrow> r)"
  have wf: "evt_ring_wf (er_max r) r"
    using ok by (auto simp: r_def trace_ok_def new_evt_ring_def evt_ring_wf_def split: option.splits)
  obtain r' where r': "evt_ring_add ev_when e r = Some r'" "tr' = tr\<lparr>tc_last_events := Some r'\<rparr>"
    using app False by (auto simp: append_event_def Let_def r_def)
  have "e \<in> set (evt_ring_do r')" using evt.newest_kept [OF wf _ r'(1)] wf by (simp add: evt_ring_wf_def)
  then show ?thesis by (simp add: r'(2) events_def)
qed

lemma new_child_open:
  assumes "store_inv st" and "can_create st now rnd family" and "open_trace st a"
    and child: "new_child now rnd now2 family title a st = Some (c, st')"
  shows "open_trace st' c \<and> tc_parent (st_heap st' ! c) = Some a \<and> leads_to st' a c"
proof -
  let ?st1 = "snd (new_trace now rnd family title st)" and ?c = "length (st_heap st)"
  let ?st2 = "on_trace (\<lambda>tr. tr\<lparr>tc_parent := Some a\<rparr>) ?c ?st1"
  note n = new_trace_inv [OF assms(1,2), where title = title]
  have app: "trace_append (child_event now2 ?c) a ?st2 = Some st'" and c: "c = ?c"
    using child n(2) by (auto simp: new_child_def split: prod.splits)
  have a: "a < ?c" using assms(3) by (simp add: open_trace_def valid_def)
  have inv2: "store_inv ?st2" using new_child_parent_inv [OF assms(1,2)] .
  obtain tr where tr: "append_event (child_event now2 ?c) (st_heap ?st2 ! a) = Some tr"
      "st' = ?st2\<lparr>st_heap := (st_heap ?st2)[a := tr]\<rparr>"
    using app by (auto simp: trace_append_def)
  have len: "length (st_heap ?st2) = ?c + 1" using n(3) by (simp add: on_trace_def)
  have "trace_ok (st_heap ?st2 ! a)" using store_inv_trace(1) [OF inv2, of a] a len by (simp add: valid_def)
  from append_event_shown [OF this tr(1)] have "leads_to st' a c"
    using a len by (auto simp: leads_to_def tr(2) c intro!: bexI [of _ "child_event now2 ?c"]) (simp add: child_event_def)
  moreover have "st_heap st' ! c = (st_heap ?st1 ! ?c)\<lparr>tc_parent := Some a\<rparr>"
    using a n(3) by (simp add: tr(2) c on_trace_def)
  moreover have "tc_end (st_heap ?st1 ! ?c) = 0" using new_trace_open [of now rnd family title st] n(2) by (simp add: open_trace_def)
  ultimately show ?thesis using len by (simp add: open_trace_def valid_def tr(2) c)
qed

text \<open>
  A trace made from a context is open, and recorded in the store: with a trace in the context it
  is a child of that trace, which refers to it; without one it has no parent. A context always gives a
  trace, the one attached last, and attaches the one it makes.
\<close>

lemma child_from_context_correct:
  assumes "net_reachable st" and "can_create st now rnd family"
    and "\<And>a. from_context ctx = Some a \<Longrightarrow> open_trace st a"
  shows "(\<exists>c st'. child_from_context now rnd now2 ctx family title st = Some (c, st')
      \<and> net_reachable st' \<and> open_trace st' c \<and> tc_parent (st_heap st' ! c) = from_context ctx
      \<and> (\<forall>a. from_context ctx = Some a \<longrightarrow> leads_to st' a c))
    \<and> (\<exists>tr ctx' st'. from_context_or_new now rnd ctx family title st = ((tr, ctx'), st')
      \<and> net_reachable st' \<and> open_trace st' tr \<and> from_context ctx' = Some tr
      \<and> (\<forall>a. from_context ctx = Some a \<longrightarrow> tr = a \<and> ctx' = ctx \<and> st' = st))"
proof (cases "from_context ctx")
  case None
  have "net_reachable (snd (new_trace now rnd family title st))"
    using net_reachable_step [OF assms(1) net_step.created [OF assms(2)]] .
  with None new_trace_open [of now rnd family title st] show ?thesis
    by (auto simp: child_from_context_def from_context_or_new_def split: prod.split)
next
  case (Some a)
  have a: "open_trace st a" using assms(3) [OF Some] .
  obtain c st' where c: "new_child now rnd now2 family title a st = Some (c, st')"
    using new_child_total [OF net_reachable_inv [OF assms(1)] a assms(2)] by blast
  have "net_reachable st'" using net_reachable_step [OF assms(1) net_step.child [OF assms(2) a c]] .
  with Some c a assms(1) new_child_open [OF net_reachable_inv [OF assms(1)] assms(2) a c] show ?thesis
    by (auto simp: child_from_context_def from_context_or_new_def)
qed

lemma child_from_context_correct_example:
  "\<exists>c st'. child_from_context 62135596800000000010 3 62135596800000000011 (new_context [] 1) ''s'' ''v'' demo_open = Some (c, st')
     \<and> open_trace st' c \<and> tc_parent (st_heap st' ! c) = Some 1 \<and> leads_to st' 1 c"
  using child_from_context_correct [OF demo_reachable(2) demo_can_create, of "new_context [] 1" 62135596800000000011 "''v''"]
    demo_open_trace(3)
  by auto

end
