(* ===== verification/Trace_Sessions.thy ===== *)
theory Trace_Sessions
  imports Net_Lookup Dnss_Trace
begin

text \<open>
  The calls the servers make on traces (\<^verbatim>\<open>internal/trace\<close>), performed on the trace store
  (\<^verbatim>\<open>internal/nettrace\<close>). Each request has a trace of its own, and the calls of requests that are
  served at the same time come in any order. A session is the calls made on one trace.
\<close>

section \<open>What a session may do\<close>

datatype phase = Fresh | Running | Done

fun phase_op :: "trace_op \<Rightarrow> phase \<Rightarrow> phase option" where
  "phase_op (OpNew family title) p = (if p = Fresh \<and> CHR ''!'' \<notin> set family then Some Running else None)"
| "phase_op OpFinish p = (if p = Running then Some Done else None)"
| "phase_op op p = (if p = Running then Some Running else None)"

definition phase_after :: "trace_op list \<Rightarrow> phase option" where
  "phase_after ops = add_all phase_op ops Fresh"

section \<open>Performing calls\<close>

record call =
  cl_session :: nat
  cl_op :: trace_op
  cl_now :: instant
  cl_rnd :: u64

definition perform :: "call \<Rightarrow> (nat \<rightharpoonup> addr) \<times> store \<Rightarrow> ((nat \<rightharpoonup> addr) \<times> store) option" where
  "perform c = (\<lambda>(m, st).
     case cl_op c of
       OpNew family title \<Rightarrow>
         (let (a, st) = new_trace (cl_now c) (cl_rnd c) family title st in Some (m(cl_session c \<mapsto> a), st))
     | OpSetMaxEvents n \<Rightarrow> map_option (\<lambda>a. (m, on_trace (set_max_events n) a st)) (m (cl_session c))
     | OpSetError \<Rightarrow> map_option (\<lambda>a. (m, on_trace set_error a st)) (m (cl_session c))
     | OpPrintf msg \<Rightarrow> Option.bind (m (cl_session c)) (\<lambda>a. map_option (Pair m) (printf_trace (cl_now c) msg a st))
     | OpFinish \<Rightarrow> Option.bind (m (cl_session c)) (\<lambda>a. map_option (Pair m) (finish_trace (cl_now c) a st)))"

definition session :: "nat \<Rightarrow> call list \<Rightarrow> call list" where
  "session s calls = filter (\<lambda>c. cl_session c = s) calls"

text \<open>The ids of the traces that calls create.\<close>

fun call_id :: "call \<Rightarrow> string option" where
  "call_id c = (case cl_op c of OpNew family title \<Rightarrow> Some (new_id family (unix_nano (cl_now c)) (cl_rnd c)) | _ \<Rightarrow> None)"

definition new_ids :: "call list \<Rightarrow> string list" where
  "new_ids calls = List.map_filter call_id calls"

text \<open>
  What the store relies on: the clock does not run backwards, no id is drawn twice, and each session
  creates its trace before it uses it, and does not use it once it is finished.
\<close>

definition calls_ok :: "call list \<Rightarrow> bool" where
  "calls_ok calls \<longleftrightarrow> sorted (map cl_now calls) \<and> (\<forall>c \<in> set calls. 0 < cl_now c) \<and> distinct (new_ids calls)
     \<and> (\<forall>s. phase_after (map cl_op (session s calls)) \<noteq> None)"

section \<open>Lemmas on sequences of calls\<close>

lemma add_all_snoc: "add_all f (xs @ [x]) r = Option.bind (add_all f xs r) (f x)"
  by (induction xs arbitrary: r) (auto split: option.splits)

lemma image_set_update: "a < length xs \<Longrightarrow> f y = f (xs ! a) \<Longrightarrow> f ` set (xs[a := y]) \<subseteq> f ` set xs"
  using set_update_subset_insert [of xs a y] by (auto intro: image_eqI)

lemma session_snoc: "session s (calls @ [c]) = session s calls @ (if cl_session c = s then [c] else [])"
  by (simp add: session_def)

lemma phase_snoc: "phase_after (ops @ [op]) = Option.bind (phase_after ops) (phase_op op)"
  by (simp add: phase_after_def add_all_snoc)

lemma new_ids_snoc: "new_ids (calls @ [c]) = new_ids calls @ (case call_id c of None \<Rightarrow> [] | Some i \<Rightarrow> [i])"
  by (induction calls) (auto simp: new_ids_def List.map_filter_def split: option.splits)

lemma calls_ok_snoc:
  assumes "calls_ok (calls @ [c])"
  shows "calls_ok calls" and "\<forall>d \<in> set calls. cl_now d \<le> cl_now c" and "0 < cl_now c"
    and "call_id c = Some i \<Longrightarrow> i \<notin> set (new_ids calls)"
    and "\<exists>p p'. phase_after (map cl_op (session (cl_session c) calls)) = Some p \<and> phase_op (cl_op c) p = Some p'"
proof -
  have phases: "phase_after (map cl_op (session s calls)) \<noteq> None" for s
    using assms by (auto simp: calls_ok_def session_snoc phase_snoc bind_eq_Some_conv split: if_splits dest!: spec [of _ s])
  with assms show "calls_ok calls" by (auto simp: calls_ok_def sorted_append new_ids_snoc)
  show "\<forall>d \<in> set calls. cl_now d \<le> cl_now c" "0 < cl_now c" "call_id c = Some i \<Longrightarrow> i \<notin> set (new_ids calls)"
    using assms by (auto simp: calls_ok_def sorted_append new_ids_snoc)
  have "phase_after (map cl_op (session (cl_session c) (calls @ [c]))) \<noteq> None" using assms by (simp add: calls_ok_def)
  with phases [of "cl_session c"]
  show "\<exists>p p'. phase_after (map cl_op (session (cl_session c) calls)) = Some p \<and> phase_op (cl_op c) p = Some p'"
    by (auto simp: session_snoc phase_snoc)
qed

section \<open>A call on the store and on its trace\<close>

text \<open>What a call does to its trace, and the trace a session starts with.\<close>

fun trace_call :: "trace_op \<Rightarrow> instant \<Rightarrow> trace \<Rightarrow> trace option" where
  "trace_call (OpNew family title) now tr = None"
| "trace_call (OpSetMaxEvents n) now tr = Some (set_max_events n tr)"
| "trace_call OpSetError now tr = Some (set_error tr)"
| "trace_call (OpPrintf msg) now tr = append_event (log_event now msg) tr"
| "trace_call OpFinish now tr = Some (tr\<lparr>tc_end := now\<rparr>)"

definition fresh_trace :: "call \<Rightarrow> string \<Rightarrow> string \<Rightarrow> trace" where
  "fresh_trace c family title =
     \<lparr>tc_id = new_id family (unix_nano (cl_now c)) (cl_rnd c), tc_family = family, tc_title = title,
      tc_parent = None, tc_start = cl_now c, tc_end = 0, tc_is_error = False,
      tc_max_events = 30, tc_cutoff = 10, tc_first_events = [], tc_last_events = None\<rparr>"

lemma perform_new:
  assumes "cl_op c = OpNew family title"
  shows "\<exists>st'. perform c (m, st) = Some (m(cl_session c \<mapsto> length (st_heap st)), st')
    \<and> st' = snd (new_trace (cl_now c) (cl_rnd c) family title st)
    \<and> st_heap st' = st_heap st @ [fresh_trace c family title]"
  using assms by (simp add: perform_def new_trace_def fresh_trace_def Let_def)

lemma trace_call_core:
  assumes "trace_call op now tr = Some tr'"
  shows "tc_id tr' = tc_id tr" and "tc_start tr' = tc_start tr"
    and "tc_end tr' = (if op = OpFinish then now else tc_end tr)"
  using assms by (cases op; auto simp: set_max_events_def set_error_def append_event_def Let_def split: if_splits)+

text \<open>A call other than the first one works on an open trace, and is a step of the store.\<close>

lemma perform_open:
  assumes "net_reachable st" and "m (cl_session c) = Some a" and "open_trace st a"
    and "tc_start (st_heap st ! a) \<le> cl_now c" and "phase_op (cl_op c) Running = Some p"
  shows "\<exists>st' tr. perform c (m, st) = Some (m, st') \<and> net_step st st'
    \<and> trace_call (cl_op c) (cl_now c) (st_heap st ! a) = Some tr \<and> st_heap st' = (st_heap st)[a := tr]"
proof -
  note inv = net_reachable_inv [OF assms(1)]
  show ?thesis
  proof (cases "cl_op c")
    case (OpNew family title)
    with assms(5) show ?thesis by simp
  next
    case (OpSetMaxEvents n)
    with assms(2) net_step.resized [OF assms(3), of n] show ?thesis by (simp add: perform_def on_trace_def)
  next
    case OpSetError
    with assms(2) net_step.errored [OF assms(3)] show ?thesis by (simp add: perform_def on_trace_def)
  next
    case (OpPrintf msg)
    obtain st' where st': "trace_append (log_event (cl_now c) msg) a st = Some st'"
      using trace_append_total [OF inv assms(3)] by blast
    then have "net_step st st'" using net_step.logged [OF assms(3)] by (simp add: printf_trace_def)
    with OpPrintf assms(2) st' show ?thesis by (auto simp: perform_def printf_trace_def trace_append_def)
  next
    case OpFinish
    obtain st' where st': "finish_trace (cl_now c) a st = Some st'"
        "st_heap st' = (st_heap st)[a := (st_heap st ! a)\<lparr>tc_end := cl_now c\<rparr>]"
      using finish_trace_ok [OF inv assms(3,4)] by blast
    with net_step.finished [OF assms(3,4) st'(1)] OpFinish assms(2) show ?thesis by (simp add: perform_def)
  qed
qed

section \<open>Any interleaving of sessions\<close>

text \<open>The trace that the calls of one session leave, without the store and the other sessions.\<close>

fun session_trace :: "call list \<Rightarrow> trace option" where
  "session_trace [] = None"
| "session_trace (c # cs) =
     (case cl_op c of
        OpNew family title \<Rightarrow> add_all (\<lambda>c. trace_call (cl_op c) (cl_now c)) cs (fresh_trace c family title)
      | _ \<Rightarrow> None)"

lemma session_trace_snoc:
  "cs \<noteq> [] \<Longrightarrow> session_trace (cs @ [c]) = Option.bind (session_trace cs) (trace_call (cl_op c) (cl_now c))"
  by (cases cs) (auto simp: add_all_snoc split: trace_op.splits)

definition session_at :: "phase option \<Rightarrow> addr option \<Rightarrow> store \<Rightarrow> bool" where
  "session_at p ma st \<longleftrightarrow>
     (case p of
        None \<Rightarrow> False
      | Some Fresh \<Rightarrow> ma = None
      | Some Running \<Rightarrow> (\<exists>a. ma = Some a \<and> open_trace st a)
      | Some Done \<Rightarrow> (\<exists>a. ma = Some a \<and> valid st a \<and> \<not> open_trace st a))"

definition sessions_inv :: "call list \<Rightarrow> (nat \<rightharpoonup> addr) \<Rightarrow> store \<Rightarrow> bool" where
  "sessions_inv calls m st \<longleftrightarrow> net_reachable st
     \<and> (\<forall>s. session_at (phase_after (map cl_op (session s calls))) (m s) st)
     \<and> inj_on m (dom m)
     \<and> tc_id ` set (st_heap st) \<subseteq> set (new_ids calls)
     \<and> tc_start ` set (st_heap st) \<subseteq> cl_now ` set calls
     \<and> (\<forall>s a. m s = Some a \<longrightarrow> session_trace (session s calls) = Some (st_heap st ! a))"

lemma session_at_valid: "session_at p (Some a) st \<Longrightarrow> valid st a"
  by (auto simp: session_at_def open_trace_def split: option.splits phase.splits)

lemma session_at_same:
  assumes "session_at p ma st" and "length (st_heap st) \<le> length (st_heap st')"
    and "\<And>a. ma = Some a \<Longrightarrow> st_heap st' ! a = st_heap st ! a"
  shows "session_at p ma st'"
  using assms by (auto simp: session_at_def open_trace_def valid_def split: option.splits phase.splits)

lemma phase_fresh:
  assumes "phase_after (map cl_op calls) = Some Fresh"
  shows "calls = []"
proof (rule ccontr)
  assume "calls \<noteq> []"
  then obtain ds d where ds: "calls = ds @ [d]" using rev_exhaust by blast
  from assms show False
    unfolding ds by (cases "cl_op d"; cases "phase_after (map cl_op ds)") (auto simp: phase_snoc split: if_splits)
qed

lemma sessions_inv_create:
  assumes inv: "sessions_inv calls m st" and ok: "calls_ok (calls @ [c])" and op: "cl_op c = OpNew family title"
  shows "\<exists>m' st'. perform c (m, st) = Some (m', st') \<and> sessions_inv (calls @ [c]) m' st'"
proof -
  obtain p p' where p: "phase_after (map cl_op (session (cl_session c) calls)) = Some p" "phase_op (cl_op c) p = Some p'"
    using calls_ok_snoc(5) [OF ok] by blast
  then have fresh: "p = Fresh" "p' = Running" and bang: "CHR ''!'' \<notin> set family" using op by (auto split: if_splits)
  have none: "m (cl_session c) = None"
    using inv p(1) fresh(1) by (auto simp: sessions_inv_def session_at_def dest!: spec [of _ "cl_session c"])
  have none_calls: "session (cl_session c) calls = []" using phase_fresh p(1) fresh(1) by simp
  obtain st' where st': "perform c (m, st) = Some (m(cl_session c \<mapsto> length (st_heap st)), st')"
      "st' = snd (new_trace (cl_now c) (cl_rnd c) family title st)" "st_heap st' = st_heap st @ [fresh_trace c family title]"
    using perform_new [OF op] by blast
  have i: "call_id c = Some (new_id family (unix_nano (cl_now c)) (cl_rnd c))" using op by simp
  have "can_create st (cl_now c) (cl_rnd c) family"
    using inv calls_ok_snoc(3,4) [OF ok] i bang by (auto simp: can_create_def sessions_inv_def)
  then have reach: "net_reachable st'"
    using net_reachable_step [OF _ net_step.created, of st] inv st'(2) by (auto simp: sessions_inv_def)
  have new: "session_at (Some Running) (Some (length (st_heap st))) st'"
    using st'(3) by (simp add: session_at_def open_trace_def valid_def fresh_trace_def)
  have old: "m s = Some a \<Longrightarrow> a < length (st_heap st)" for s a
    using inv session_at_valid by (metis sessions_inv_def valid_def)
  have "sessions_inv (calls @ [c]) (m(cl_session c \<mapsto> length (st_heap st))) st'"
    unfolding sessions_inv_def
  proof (intro conjI allI impI)
    fix s
    show "session_at (phase_after (map cl_op (session s (calls @ [c])))) ((m(cl_session c \<mapsto> length (st_heap st))) s) st'"
    proof (cases "s = cl_session c")
      case True
      with p fresh new show ?thesis by (simp add: session_snoc phase_snoc)
    next
      case False
      have "session_at (phase_after (map cl_op (session s calls))) (m s) st" using inv by (simp add: sessions_inv_def)
      then have "session_at (phase_after (map cl_op (session s calls))) (m s) st'"
        by (rule session_at_same) (use old in \<open>auto simp: st'(3) nth_append\<close>)
      with False show ?thesis by (simp add: session_snoc)
    qed
  next
    show "inj_on (m(cl_session c \<mapsto> length (st_heap st))) (dom (m(cl_session c \<mapsto> length (st_heap st))))"
      using inv old by (fastforce simp: sessions_inv_def inj_on_def dom_def split: if_splits)
  next
    fix s a
    assume a: "(m(cl_session c \<mapsto> length (st_heap st))) s = Some a"
    show "session_trace (session s (calls @ [c])) = Some (st_heap st' ! a)"
    proof (cases "s = cl_session c")
      case True
      with a op none_calls st'(3) show ?thesis by (auto simp: session_snoc)
    next
      case False
      with a inv old [of s a] st'(3) show ?thesis by (simp add: session_snoc sessions_inv_def nth_append)
    qed
  qed (use inv reach i st'(3) op in \<open>auto simp: sessions_inv_def new_ids_snoc fresh_trace_def\<close>)
  with st'(1) show ?thesis by blast
qed

lemma sessions_inv_use:
  assumes inv: "sessions_inv calls m st" and ok: "calls_ok (calls @ [c])" and op: "\<nexists>family title. cl_op c = OpNew family title"
  shows "\<exists>st'. perform c (m, st) = Some (m, st') \<and> sessions_inv (calls @ [c]) m st'"
proof -
  obtain p p' where p: "phase_after (map cl_op (session (cl_session c) calls)) = Some p" "phase_op (cl_op c) p = Some p'"
    using calls_ok_snoc(5) [OF ok] by blast
  with op have running: "p = Running" by (cases "cl_op c") (auto split: if_splits)
  have at: "session_at (Some Running) (m (cl_session c)) st" using inv p(1) running by (metis sessions_inv_def)
  then obtain a where a: "m (cl_session c) = Some a" "open_trace st a" by (auto simp: session_at_def)
  then have len: "a < length (st_heap st)" by (simp add: open_trace_def valid_def)
  have "tc_start (st_heap st ! a) \<in> cl_now ` set calls" using inv len by (auto simp: sessions_inv_def)
  then have start: "tc_start (st_heap st ! a) \<le> cl_now c" using calls_ok_snoc(2) [OF ok] by auto
  have reach: "net_reachable st" using inv by (simp add: sessions_inv_def)
  obtain st' tr where st': "perform c (m, st) = Some (m, st')" "net_step st st'"
      "trace_call (cl_op c) (cl_now c) (st_heap st ! a) = Some tr" "st_heap st' = (st_heap st)[a := tr]"
    using perform_open [where m = m and c = c, OF reach a start] p(2) running by blast
  note core = trace_call_core [OF st'(3)]
  have other: "m s = Some b \<Longrightarrow> s \<noteq> cl_session c \<Longrightarrow> b \<noteq> a" for s b
    using inv a(1) by (auto simp: sessions_inv_def inj_on_def dom_def)
  have "sessions_inv (calls @ [c]) m st'"
    unfolding sessions_inv_def
  proof (intro conjI allI impI)
    show "net_reachable st'" using net_reachable_step [OF reach st'(2)] .
  next
    fix s
    show "session_at (phase_after (map cl_op (session s (calls @ [c])))) (m s) st'"
    proof (cases "s = cl_session c")
      case True
      have "0 < cl_now c" using calls_ok_snoc(3) [OF ok] .
      with True p a running op core(3) len st'(4) show ?thesis
        by (cases "cl_op c") (auto simp: session_snoc phase_snoc session_at_def open_trace_def valid_def split: if_splits)
    next
      case False
      have "session_at (phase_after (map cl_op (session s calls))) (m s) st" using inv by (simp add: sessions_inv_def)
      then have "session_at (phase_after (map cl_op (session s calls))) (m s) st'"
        by (rule session_at_same) (auto simp: st'(4) dest!: other [OF _ False])
      with False show ?thesis by (simp add: session_snoc)
    qed
  next
    fix s b
    assume b: "m s = Some b"
    show "session_trace (session s (calls @ [c])) = Some (st_heap st' ! b)"
    proof (cases "s = cl_session c")
      case True
      have t: "session_trace (session s calls) = Some (st_heap st ! b)" using inv b by (simp add: sessions_inv_def)
      then have "session s calls \<noteq> []" by auto
      with True b a(1) t st'(3,4) len show ?thesis by (simp add: session_snoc session_trace_snoc)
    next
      case False
      with b inv other [OF b False] st'(4) show ?thesis by (simp add: session_snoc sessions_inv_def)
    qed
  next
    show "tc_id ` set (st_heap st') \<subseteq> set (new_ids (calls @ [c]))"
      using image_set_update [where f = tc_id, OF len core(1)] inv st'(4)
      by (auto simp: sessions_inv_def new_ids_snoc)
  next
    show "tc_start ` set (st_heap st') \<subseteq> cl_now ` set (calls @ [c])"
      using subset_trans [OF image_set_update [where f = tc_start, OF len core(2)], of "cl_now ` set calls"] inv st'(4)
      by (simp add: sessions_inv_def subset_insertI2)
  qed (use inv in \<open>simp add: sessions_inv_def\<close>)
  with st'(1) show ?thesis by blast
qed

lemma sessions_inv_all:
  "calls_ok calls \<Longrightarrow> \<exists>m st. add_all perform calls (Map.empty, empty_store) = Some (m, st) \<and> sessions_inv calls m st"
proof (induction calls rule: rev_induct)
  case Nil
  have "sessions_inv [] Map.empty empty_store"
    by (simp add: sessions_inv_def net_reachable_def session_at_def phase_after_def session_def empty_store_def)
  then show ?case by simp
next
  case (snoc c calls)
  obtain m st where st: "add_all perform calls (Map.empty, empty_store) = Some (m, st)" "sessions_inv calls m st"
    using snoc.IH calls_ok_snoc(1) [OF snoc.prems] by blast
  show ?case
  proof (cases "\<exists>family title. cl_op c = OpNew family title")
    case True
    with sessions_inv_create [OF st(2) snoc.prems] st(1) show ?thesis by (auto simp: add_all_snoc)
  next
    case False
    with sessions_inv_use [OF st(2) snoc.prems False] st(1) show ?thesis by (auto simp: add_all_snoc)
  qed
qed

section \<open>What the store shows\<close>

text \<open>The messages of a session, as the events of its trace.\<close>

definition session_events :: "call list \<Rightarrow> event list" where
  "session_events cs =
     List.map_filter (\<lambda>c. case cl_op c of OpPrintf msg \<Rightarrow> Some (log_event (cl_now c) msg) | _ \<Rightarrow> None) cs"

lemma session_events_when: "e \<in> set (session_events cs) \<Longrightarrow> \<exists>b \<in> set cs. ev_when e = cl_now b"
proof (induction cs)
  case Nil
  then show ?case by (simp add: session_events_def List.map_filter_def)
next
  case (Cons c cs)
  then show ?case by (cases "cl_op c") (auto simp: session_events_def List.map_filter_def log_event_def)
qed

text \<open>
  A session as \<^verbatim>\<open>trace.New\<close> starts it: the trace is created, and its maximum set to 30; it is not set again.
\<close>

fun wrapped :: "call list \<Rightarrow> bool" where
  "wrapped (c # d # cs) \<longleftrightarrow> (\<exists>family title. cl_op c = OpNew family title) \<and> cl_op d = OpSetMaxEvents 30
     \<and> (\<forall>e \<in> set cs. case cl_op e of OpNew family title \<Rightarrow> False | OpSetMaxEvents n \<Rightarrow> False | _ \<Rightarrow> True)"
| "wrapped cs = False"

lemma append_event_commutes:
  "append_event e (tr\<lparr>tc_is_error := b, tc_end := t\<rparr>) = map_option (\<lambda>tr. tr\<lparr>tc_is_error := b, tc_end := t\<rparr>) (append_event e tr)"
  by (cases "tc_last_events tr") (auto simp: append_event_def Let_def option.map_comp comp_def intro!: arg_cong [where f = "\<lambda>f. map_option f _"])

lemma events_error: "events (tr\<lparr>tc_is_error := b\<rparr>) = events tr"
  by (cases "tc_last_events tr") (simp_all add: events_def)

lemma calls_add_events:
  assumes "\<forall>e \<in> set cs. case cl_op e of OpNew family title \<Rightarrow> False | OpSetMaxEvents n \<Rightarrow> False | _ \<Rightarrow> True"
    and "add_all (\<lambda>c. trace_call (cl_op c) (cl_now c)) cs (tr\<lparr>tc_is_error := b, tc_end := t\<rparr>) = Some tr'"
    and "add_all append_event (session_events cs) tr = Some tr1"
  shows "\<exists>t'. tr' = tr1\<lparr>tc_is_error := b \<or> OpSetError \<in> cl_op ` set cs, tc_end := t'\<rparr>"
  using assms
proof (induction cs arbitrary: tr b t)
  case Nil
  then show ?case by (auto simp: session_events_def List.map_filter_def)
next
  case (Cons c cs)
  show ?case
  proof (cases "cl_op c")
    case (OpPrintf msg)
    with Cons.prems(2,3) obtain tr2 where "append_event (log_event (cl_now c) msg) tr = Some tr2"
        "add_all append_event (session_events cs) tr2 = Some tr1"
        "add_all (\<lambda>c. trace_call (cl_op c) (cl_now c)) cs (tr2\<lparr>tc_is_error := b, tc_end := t\<rparr>) = Some tr'"
      by (auto simp: session_events_def List.map_filter_def append_event_commutes split: option.splits)
    with Cons.IH [where tr = tr2 and b = b and t = t] Cons.prems(1) OpPrintf show ?thesis by auto
  next
    case OpSetError
    have e: "set_error (tr\<lparr>tc_is_error := b, tc_end := t\<rparr>) = tr\<lparr>tc_is_error := True, tc_end := t\<rparr>" by (simp add: set_error_def)
    from Cons.prems OpSetError Cons.IH [where tr = tr and b = True and t = t] show ?thesis
      by (auto simp: session_events_def List.map_filter_def e)
  next
    case OpFinish
    from Cons.prems OpFinish Cons.IH [where tr = tr and b = b and t = "cl_now c"] show ?thesis
      by (auto simp: session_events_def List.map_filter_def)
  qed (use Cons.prems in auto)
qed

text \<open>
  C9: Requests served at the same time do not disturb each other's traces. From the start of the process,
  and whatever the order in which the calls of their sessions come, every call succeeds, the store
  stays within the states its properties are about, and each trace is the one its own calls leave,
  as if there were no other session; a trace still open is found by its id.
\<close>

theorem sessions_apart:
  assumes "calls_ok calls"
  shows "\<exists>m st. add_all perform calls (Map.empty, empty_store) = Some (m, st) \<and> net_reachable st
    \<and> (\<forall>s. case phase_after (map cl_op (session s calls)) of
           None \<Rightarrow> False
         | Some Fresh \<Rightarrow> m s = None
         | Some Running \<Rightarrow> (\<exists>a. m s = Some a \<and> session_trace (session s calls) = Some (st_heap st ! a)
             \<and> open_trace st a \<and> find_in_families st (tc_id (st_heap st ! a)) ref = Some a)
         | Some Done \<Rightarrow> (\<exists>a. m s = Some a \<and> session_trace (session s calls) = Some (st_heap st ! a)
             \<and> valid st a \<and> \<not> open_trace st a))"
proof -
  obtain m st where st: "add_all perform calls (Map.empty, empty_store) = Some (m, st)" "sessions_inv calls m st"
    using sessions_inv_all [OF assms] by blast
  then have r: "net_reachable st" by (simp add: sessions_inv_def)
  have found: "find_in_families st (tc_id (st_heap st ! a)) ref = Some a" if "open_trace st a" for a
    using that find_in_families_cases(2) [OF r _ open_trace_kept [OF net_reachable_inv [OF r] that]]
    by (simp add: open_trace_def)
  have at: "session_at (phase_after (map cl_op (session s calls))) (m s) st
      \<and> (\<forall>a. m s = Some a \<longrightarrow> session_trace (session s calls) = Some (st_heap st ! a))" for s
    using st(2) by (simp add: sessions_inv_def)
  have "case phase_after (map cl_op (session s calls)) of
           None \<Rightarrow> False
         | Some Fresh \<Rightarrow> m s = None
         | Some Running \<Rightarrow> (\<exists>a. m s = Some a \<and> session_trace (session s calls) = Some (st_heap st ! a)
             \<and> open_trace st a \<and> find_in_families st (tc_id (st_heap st ! a)) ref = Some a)
         | Some Done \<Rightarrow> (\<exists>a. m s = Some a \<and> session_trace (session s calls) = Some (st_heap st ! a)
             \<and> valid st a \<and> \<not> open_trace st a)" for s
    using found at [of s] by (auto simp: session_at_def split: option.splits phase.splits)
  with st(1) r show ?thesis by blast
qed

text \<open>A session that has begun has a trace, and its events have times.\<close>

lemma session_mapped:
  assumes "sessions_inv calls m st" and "session s calls \<noteq> []"
  shows "m s \<noteq> None"
proof
  assume "m s = None"
  moreover have "session_at (phase_after (map cl_op (session s calls))) (m s) st" using assms(1) by (simp add: sessions_inv_def)
  ultimately have "phase_after (map cl_op (session s calls)) = Some Fresh"
    by (auto simp: session_at_def split: option.splits phase.splits)
  with phase_fresh assms(2) show False by blast
qed

lemma session_events_pos:
  assumes "calls_ok calls"
  shows "\<forall>e \<in> set (session_events (session s calls)). ev_when e \<noteq> 0"
proof
  fix e
  assume "e \<in> set (session_events (session s calls))"
  then obtain b where "b \<in> set (session s calls)" "ev_when e = cl_now b" using session_events_when by blast
  moreover have "set (session s calls) \<subseteq> set calls" by (auto simp: session_def)
  ultimately show "ev_when e \<noteq> 0" using assms by (auto simp: calls_ok_def dest!: bspec [of _ _ b])
qed

text \<open>
  C10: What is shown of a request is what was said of it. The trace of a session of \<^verbatim>\<open>internal/trace\<close>, among
  any others, shows all its messages when there are at most 30, and beyond that the first 10, a mark
  with the time of the first one dropped, and the last 20, each at its time; and it is an error
  exactly when the session reported one.
\<close>

theorem session_shown:
  assumes "calls_ok calls" and "wrapped (session s calls)"
  shows "\<exists>m st a. add_all perform calls (Map.empty, empty_store) = Some (m, st) \<and> m s = Some a
    \<and> (let es = session_events (session s calls)
       in events (st_heap st ! a) = (if length es \<le> 30 then es
            else take 10 es @ drop_event (ev_when (es ! 10)) # lastn 20 es))
    \<and> (tc_is_error (st_heap st ! a) \<longleftrightarrow> OpSetError \<in> cl_op ` set (session s calls))"
proof -
  obtain m st where st: "add_all perform calls (Map.empty, empty_store) = Some (m, st)" "sessions_inv calls m st"
    using sessions_inv_all [OF assms(1)] by blast
  obtain c d cs family title where cs: "session s calls = c # d # cs" "cl_op c = OpNew family title"
      "cl_op d = OpSetMaxEvents 30"
      "\<forall>e \<in> set cs. case cl_op e of OpNew family title \<Rightarrow> False | OpSetMaxEvents n \<Rightarrow> False | _ \<Rightarrow> True"
    using assms(2) by (cases "session s calls" rule: wrapped.cases) auto
  obtain a where a: "m s = Some a" using session_mapped [OF st(2), of s] cs(1) by auto
  let ?tr = "set_max_events 30 (fresh_trace c family title)"
  let ?es = "session_events cs"
  have es: "session_events (session s calls) = ?es" by (simp add: cs(1-3) session_events_def List.map_filter_def)
  have "session_trace (session s calls) = Some (st_heap st ! a)" using st(2) a by (simp add: sessions_inv_def)
  then have run: "add_all (\<lambda>c. trace_call (cl_op c) (cl_now c)) cs ?tr = Some (st_heap st ! a)"
    by (simp add: cs(1-3))
  have pos: "\<forall>e \<in> set ?es. ev_when e \<noteq> 0" using session_events_pos [OF assms(1), of s] es by simp
  have "trace_holds 30 10 [] ?tr" by (simp add: trace_holds_def set_max_events_def fresh_trace_def)
  then obtain tr1 where tr1: "add_all append_event ?es ?tr = Some tr1" "trace_holds 30 10 ?es tr1"
    using append_all_holds [of 30 10 "[]" ?tr ?es] pos by auto
  have "add_all (\<lambda>c. trace_call (cl_op c) (cl_now c)) cs (?tr\<lparr>tc_is_error := False, tc_end := 0\<rparr>) = Some (st_heap st ! a)"
    using run by (simp add: fresh_trace_def set_max_events_def)
  from calls_add_events [OF cs(4) this tr1(1)] obtain t where
      "st_heap st ! a = tr1\<lparr>tc_is_error := OpSetError \<in> cl_op ` set cs, tc_end := t\<rparr>" by auto
  moreover have "events tr1 = (if length ?es \<le> 30 then ?es else take 10 ?es @ drop_event (ev_when (?es ! 10)) # lastn 20 ?es)"
    using events_holds [OF tr1(2)] pos by simp
  moreover have "OpSetError \<in> cl_op ` set (session s calls) \<longleftrightarrow> OpSetError \<in> cl_op ` set cs" by (auto simp: cs(1-3))
  ultimately show ?thesis using st(1) a by (auto simp: es events_error Let_def)
qed

section \<open>Two requests at once\<close>

definition demo_call :: "nat \<Rightarrow> trace_op \<Rightarrow> int \<Rightarrow> call" where
  "demo_call s op t = \<lparr>cl_session = s, cl_op = op, cl_now = 62135596800000000000 + t, cl_rnd = of_nat s\<rparr>"

definition demo_calls :: "call list" where
  "demo_calls =
     [demo_call 2 (OpNew ''h'' ''a'') 1, demo_call 3 (OpNew ''h'' ''b'') 1, demo_call 2 (OpSetMaxEvents 30) 2,
      demo_call 3 (OpSetMaxEvents 30) 2, demo_call 2 (OpPrintf ''x'') 3, demo_call 3 OpSetError 4,
      demo_call 3 (OpPrintf ''y'') 5, demo_call 2 OpFinish 6, demo_call 3 (OpPrintf ''z'') 7]"

lemma demo_sessions:
  "session 2 demo_calls = [demo_call 2 (OpNew ''h'' ''a'') 1, demo_call 2 (OpSetMaxEvents 30) 2,
     demo_call 2 (OpPrintf ''x'') 3, demo_call 2 OpFinish 6]"
  "session 3 demo_calls = [demo_call 3 (OpNew ''h'' ''b'') 1, demo_call 3 (OpSetMaxEvents 30) 2, demo_call 3 OpSetError 4,
     demo_call 3 (OpPrintf ''y'') 5, demo_call 3 (OpPrintf ''z'') 7]"
  "s \<noteq> 2 \<Longrightarrow> s \<noteq> 3 \<Longrightarrow> session s demo_calls = []"
  by (simp_all add: session_def demo_calls_def demo_call_def)

lemma demo_phases:
  "phase_after (map cl_op (session s demo_calls)) = (if s = 2 then Some Done else if s = 3 then Some Running else Some Fresh)"
  by (cases "s = 2"; cases "s = 3") (simp_all add: demo_sessions phase_after_def demo_call_def)

lemma demo_ok: "calls_ok demo_calls"
proof -
  have "new_ids demo_calls = [''h!1!2'', ''h!1!3'']"
    by (simp add: new_ids_def demo_calls_def demo_call_def List.map_filter_def new_id_def unix_nano_def text_eval)
  then show ?thesis unfolding calls_ok_def demo_phases by (simp add: demo_calls_def demo_call_def)
qed

theorem sessions_apart_witness:
  "\<exists>m st a. add_all perform demo_calls (Map.empty, empty_store) = Some (m, st) \<and> m 3 = Some a
    \<and> open_trace st a \<and> find_in_families st (tc_id (st_heap st ! a)) [] = Some a"
proof -
  obtain m st where st: "add_all perform demo_calls (Map.empty, empty_store) = Some (m, st)"
      "case phase_after (map cl_op (session 3 demo_calls)) of
           None \<Rightarrow> False
         | Some Fresh \<Rightarrow> m 3 = None
         | Some Running \<Rightarrow> (\<exists>a. m 3 = Some a \<and> session_trace (session 3 demo_calls) = Some (st_heap st ! a)
             \<and> open_trace st a \<and> find_in_families st (tc_id (st_heap st ! a)) [] = Some a)
         | Some Done \<Rightarrow> (\<exists>a. m 3 = Some a \<and> session_trace (session 3 demo_calls) = Some (st_heap st ! a)
             \<and> valid st a \<and> \<not> open_trace st a)"
    using sessions_apart [OF demo_ok, of "[]"] by blast
  then show ?thesis unfolding demo_phases by auto
qed

theorem session_shown_witness:
  "\<exists>m st a. add_all perform demo_calls (Map.empty, empty_store) = Some (m, st) \<and> m 3 = Some a
    \<and> map ev_msg (events (st_heap st ! a)) = [''y'', ''z''] \<and> tc_is_error (st_heap st ! a)"
proof -
  have w: "wrapped (session 3 demo_calls)" by (simp add: demo_sessions demo_call_def)
  have e: "session_events (session 3 demo_calls) =
      [log_event 62135596800000000005 ''y'', log_event 62135596800000000007 ''z'']"
    by (simp add: demo_sessions demo_call_def session_events_def List.map_filter_def)
  have o: "OpSetError \<in> cl_op ` set (session 3 demo_calls)" by (simp add: demo_sessions demo_call_def)
  from session_shown [OF demo_ok w] e o show ?thesis by (auto simp: Let_def log_event_def)
qed

end
