(* ===== verification/Dnss_Program_Properties.thy ===== *)
theory Dnss_Program_Properties
  imports Dnss_Program
begin

text \<open>
  The program from its flags on: what it starts, when it ends with a message, and that what it
  serves is safe, with the cache and without.
\<close>

section \<open>The server without the cache\<close>

interpretation dnss_plain: dns_frontend "https_query L N v" "https_tick N" https_ready L v srv
  for L N v srv
  by (intro dns_frontend.intro https_quiet.quiet_resolver_axioms)

section \<open>Initialised resolvers\<close>

definition fresh_conf :: "string \<Rightarrow> string \<Rightarrow> string \<Rightarrow> resolver_conf \<Rightarrow> bool" where
  "fresh_conf upstream caFile fallback r \<longleftrightarrow>
     r = Plain (new_doh upstream caFile fallback) \<or> r = Cached (new_caching_resolver (new_doh upstream caFile fallback))"

fun ready_conf :: "resolver_conf \<Rightarrow> bool" where
  "ready_conf (Plain s) = https_ready s"
| "ready_conf (Cached c) = caching_inv default_cfg https_ready c"

lemma init_resolver_ready:
  assumes "fresh_conf upstream caFile fallback r"
  shows "\<exists>err r'. init_resolver F N r = Some (err, r')
    \<and> (err = None \<longleftrightarrow> caFile = [] \<or> (\<exists>pem. read_file F caFile = Inr pem \<and> append_certs F pem))
    \<and> (err = None \<longrightarrow> ready_conf r')"
proof -
  obtain err s where s: "https_init F N (new_doh upstream caFile fallback) = Some (err, s)"
      "err = None \<longleftrightarrow> caFile = [] \<or> (\<exists>pem. read_file F caFile = Inr pem \<and> append_certs F pem)"
    using https_init_cases [of F N upstream caFile fallback] by auto
  have ready: "err = None \<Longrightarrow> https_ready s" using s(1) https_init_ready by blast
  from assms s ready show ?thesis
    by (auto simp: fresh_conf_def init_resolver_def caching_init_def new_caching_resolver_def caching_inv_def accounted_def)
qed

section \<open>Serving\<close>

fun is_px_query :: "proxy_event \<Rightarrow> bool" where
  "is_px_query (PxQuery E r) = True"
| "is_px_query _ = False"

lemma cached_queries: "is_query \<circ> cached_event = is_px_query"
proof
  show "(is_query \<circ> cached_event) e = is_px_query e" for e by (cases e) simp_all
qed

lemma plain_queries: "length (filter is_query (List.map_filter plain_event es)) = length (filter is_px_query es)"
proof (induction es)
  case Nil
  then show ?case by (simp add: List.map_filter_def)
next
  case (Cons e es)
  then show ?case by (cases e) (simp_all add: List.map_filter_def)
qed

lemma balance_empty: "routes_balance (dn_world (new_dns_state s tap)) = 0"
  by (simp add: routes_balance_def new_dns_state_def empty_world_def count_def counter_def empty_stats_def)

lemma serve_total:
  assumes "ready_conf r"
  shows "\<exists>written w. serve L v N p r es = Some (written, w) \<and> routes_balance w = 0
    \<and> length written = length (filter is_px_query es)"
proof (cases r)
  case (Plain s)
  let ?st = "new_dns_state s (dp_tap p)"
  have "https_ready (dn_resolver ?st)" using assms Plain by (simp add: new_dns_state_def)
  from dnss_plain.server_run_total [OF this, where L = L and N = N and v = v and srv = "dp_server p"
      and es = "List.map_filter plain_event es"]
  show ?thesis using Plain by (auto simp: serve_def balance_empty plain_queries) (simp add: new_dns_state_def)
next
  case (Cached c)
  let ?st = "new_dns_state c (dp_tap p)"
  have "caching_inv default_cfg https_ready (dn_resolver ?st)" using assms Cached by (simp add: new_dns_state_def)
  from dnss.server_run_total [OF this, where L = L and N = N and v = v and srv = "dp_server p"
      and es = "map cached_event es"]
  show ?thesis using Cached by (auto simp: serve_def balance_empty cached_queries) (simp add: new_dns_state_def)
qed

section \<open>Starting\<close>

lemma dns_to_https_cases:
  obtains (url) err where "parse_url (https_upstream fl) = Inl err"
      "dns_to_https L parse_url fl = Inl (''-https_upstream is not a valid URL: '' @ err)"
  | (domains) err where "domain_map_from_string L (dns_server_for_domain fl) = Inl err"
      "dns_to_https L parse_url fl = Inl (''-dns_server_for_domain is not valid: '' @ err)"
  | (proxy) upstream overrides p where "parse_url (https_upstream fl) = Inr upstream"
      "domain_map_from_string L (dns_server_for_domain fl) = Inr overrides" "dns_to_https L parse_url fl = Inr p"
      "dp_addr p = dns_listen_addr fl"
      "dp_server p = \<lparr>ds_unq_upstream = dns_unqualified_upstream fl, ds_server_overrides = overrides\<rparr>"
      "dp_resolver p = (let doh = new_doh upstream (https_client_cafile fl) (fallback_upstream fl)
        in if enable_cache fl then Cached (new_caching_resolver doh) else Plain doh)"
      "dp_tap p = (if dnstap_destination fl = [] then None
        else Some ((new_writer (dnstap_destination fl))\<lparr>wr_started := True\<rparr>))"
proof (cases "parse_url (https_upstream fl)")
  case (Inl err)
  then show ?thesis by (intro url) (simp_all add: dns_to_https_def)
next
  case up: (Inr upstream)
  show ?thesis
  proof (cases "domain_map_from_string L (dns_server_for_domain fl)")
    case (Inl err)
    with up show ?thesis by (intro domains) (simp_all add: dns_to_https_def Let_def)
  next
    case (Inr overrides)
    then obtain p where p: "dns_to_https L parse_url fl = Inr p" using up by (simp add: dns_to_https_def Let_def)
    with up Inr show ?thesis
      by (intro proxy [of upstream overrides p])
        (auto simp: dns_to_https_def new_dns_server_def set_dnstap_def start_def Let_def)
  qed
qed

lemma dns_to_https_fresh:
  "dns_to_https L parse_url fl = Inr p \<Longrightarrow> dp_addr p = dns_listen_addr fl
    \<and> (\<exists>upstream. fresh_conf upstream (https_client_cafile fl) (fallback_upstream fl) (dp_resolver p))"
  by (cases rule: dns_to_https_cases [of parse_url fl L]; cases "enable_cache fl") (auto simp: fresh_conf_def Let_def)

lemma dns_service:
  "SvcDns p \<in> set (fst (main_start L parse_url fl)) \<longleftrightarrow> enable_dns_to_https fl \<and> dns_to_https L parse_url fl = Inr p"
  by (cases "dns_to_https L parse_url fl") (auto simp: main_start_def Let_def)

lemma https_service:
  "SvcHttps p \<in> set (fst (main_start L parse_url fl)) \<longleftrightarrow>
     enable_https_to_dns fl \<and> p = https_to_dns fl \<and> snd (main_start L parse_url fl) = None"
  by (cases "dns_to_https L parse_url fl") (auto simp: main_start_def Let_def)

lemma fatal_start:
  "snd (main_start L parse_url fl) = None \<longleftrightarrow>
     (enable_dns_to_https fl \<or> enable_https_to_dns fl)
     \<and> (enable_dns_to_https fl \<longrightarrow> (\<exists>p. dns_to_https L parse_url fl = Inr p))"
  by (cases "dns_to_https L parse_url fl") (auto simp: main_start_def Let_def)

text \<open>What the program is to serve under its flags: each setting of a proxy from the flag that is for it.\<close>

definition doh_settings :: "(string \<Rightarrow> string + string) \<Rightarrow> flags \<Rightarrow> https \<Rightarrow> bool" where
  "doh_settings parse_url fl doh \<longleftrightarrow> parse_url (https_upstream fl) = Inr (hr_upstream doh)
     \<and> hr_ca_file doh = https_client_cafile fl
     \<and> hr_fallback_resolver doh = (if fallback_upstream fl = [] then None else Some (fallback_upstream fl))"

definition tap_settings :: "string \<Rightarrow> writer \<Rightarrow> bool" where
  "tap_settings dest w \<longleftrightarrow> wr_started w \<and> wr_ch w = []
     \<and> (\<forall>a. dest = ''tcp://'' @ a \<longrightarrow> wr_network w = ''tcp'' \<and> wr_addr w = a)
     \<and> (\<forall>a. dest = ''unix://'' @ a \<longrightarrow> wr_network w = ''unix'' \<and> wr_addr w = a)
     \<and> (\<forall>a. dest = ''unix:'' @ a \<and> \<not> has_prefix a ''//'' \<longrightarrow> wr_network w = ''unix'' \<and> wr_addr w = a)
     \<and> (\<not> has_prefix dest ''tcp://'' \<and> \<not> has_prefix dest ''unix:'' \<longrightarrow> wr_network w = ''unix'' \<and> wr_addr w = dest)"

definition dns_settings :: "dns_lib \<Rightarrow> (string \<Rightarrow> string + string) \<Rightarrow> flags \<Rightarrow> dns_proxy \<Rightarrow> bool" where
  "dns_settings L parse_url fl p \<longleftrightarrow> dp_addr p = dns_listen_addr fl
     \<and> ds_unq_upstream (dp_server p) = dns_unqualified_upstream fl
     \<and> domain_map_from_string L (dns_server_for_domain fl) = Inr (ds_server_overrides (dp_server p))
     \<and> (case dp_resolver p of
          Plain doh \<Rightarrow> \<not> enable_cache fl \<and> doh_settings parse_url fl doh
        | Cached c \<Rightarrow> enable_cache fl \<and> cr_answer c = [] \<and> doh_settings parse_url fl (cr_back c))
     \<and> (case dp_tap p of
          None \<Rightarrow> dnstap_destination fl = []
        | Some w \<Rightarrow> dnstap_destination fl \<noteq> [] \<and> tap_settings (dnstap_destination fl) w)"

definition https_settings :: "flags \<Rightarrow> https_proxy \<Rightarrow> bool" where
  "https_settings fl p \<longleftrightarrow> hp_upstream p = dns_upstream fl
     \<and> hl_addr (http_listen_and_serve p) = https_server_addr fl
     \<and> hl_tls (http_listen_and_serve p) = (if insecure_http_server fl then None else Some (https_cert fl, https_key fl))"

text \<open>The message the program ends with instead of serving.\<close>

definition start_error :: "dns_lib \<Rightarrow> (string \<Rightarrow> string + string) \<Rightarrow> flags \<Rightarrow> string option" where
  "start_error L parse_url fl =
     (if \<not> enable_dns_to_https fl then (if enable_https_to_dns fl then None else Some [])
      else case (parse_url (https_upstream fl), domain_map_from_string L (dns_server_for_domain fl)) of
             (Inl err, _) \<Rightarrow> Some (''-https_upstream is not a valid URL: '' @ err)
           | (Inr url, Inl err) \<Rightarrow> Some (''-dns_server_for_domain is not valid: '' @ err)
           | (Inr url, Inr overrides) \<Rightarrow> None)"

lemma start_tap_settings: "tap_settings dest (fst (start (new_writer dest)))"
  by (auto simp: tap_settings_def start_def new_writer_def parse_destination_def has_prefix_iff trim_prefix_def)

lemma dns_to_https_settings:
  assumes "dns_to_https L parse_url fl = Inr p"
  shows "dns_settings L parse_url fl p"
  using assms
proof (cases rule: dns_to_https_cases [of parse_url fl L])
  case (proxy upstream overrides p')
  with assms start_tap_settings [of "dnstap_destination fl"] show ?thesis
    by (auto simp: dns_settings_def doh_settings_def new_doh_def new_caching_resolver_def start_def Let_def)
qed simp_all

lemma https_to_dns_settings: "https_settings fl (https_to_dns fl)"
  by (simp add: https_settings_def https_to_dns_def http_listen_and_serve_def)

lemma main_start_error: "snd (main_start L parse_url fl) = start_error L parse_url fl"
  by (cases "parse_url (https_upstream fl)"; cases "domain_map_from_string L (dns_server_for_domain fl)")
    (simp_all add: main_start_def start_error_def dns_to_https_def Let_def)

lemma other_services:
  "SvcMonitoring a \<in> set (fst (main_start L parse_url fl)) \<longleftrightarrow> a = monitoring_listen_addr fl \<and> a \<noteq> []"
  "SvcReport d \<in> set (fst (main_start L parse_url fl)) \<longleftrightarrow> d = stats_interval fl"
  "SvcReportTopDomains d n \<in> set (fst (main_start L parse_url fl)) \<longleftrightarrow>
     d = top_domains_stats_interval fl \<and> n = top_domains_stats_count fl"
  by (cases "dns_to_https L parse_url fl"; auto simp: main_start_def Let_def)+

text \<open>
  C16: The program serves exactly when a mode is enabled and, for the proxy from DNS to HTTPS, the URL
  and the map of domains are valid; otherwise it ends with the message for what is wrong. When it
  serves, it serves the modes enabled, and each setting is that of its own flag: the addresses and
  upstreams of both proxies, the cache, the overrides and the destination of dnstap, and the
  certificate and key with which the HTTPS server listens unless it is to be insecure. The monitoring
  server and the reports are as their flags say, too.
\<close>

theorem startup_outcome:
  "snd (main_start L parse_url fl) = start_error L parse_url fl
   \<and> (snd (main_start L parse_url fl) = None \<longrightarrow>
      ((\<exists>p. SvcDns p \<in> set (fst (main_start L parse_url fl))) \<longleftrightarrow> enable_dns_to_https fl)
      \<and> ((\<exists>p. SvcHttps p \<in> set (fst (main_start L parse_url fl))) \<longleftrightarrow> enable_https_to_dns fl))
   \<and> (\<forall>svc \<in> set (fst (main_start L parse_url fl)).
       case svc of
         SvcMonitoring a \<Rightarrow> a = monitoring_listen_addr fl
       | SvcReport d \<Rightarrow> d = stats_interval fl
       | SvcReportTopDomains d n \<Rightarrow> d = top_domains_stats_interval fl \<and> n = top_domains_stats_count fl
       | SvcDns p \<Rightarrow> dns_settings L parse_url fl p
       | SvcHttps p \<Rightarrow> https_settings fl p)
   \<and> (SvcMonitoring (monitoring_listen_addr fl) \<in> set (fst (main_start L parse_url fl)) \<longleftrightarrow> monitoring_listen_addr fl \<noteq> [])
   \<and> SvcReport (stats_interval fl) \<in> set (fst (main_start L parse_url fl))
   \<and> SvcReportTopDomains (top_domains_stats_interval fl) (top_domains_stats_count fl) \<in> set (fst (main_start L parse_url fl))"
proof (intro conjI)
  show "snd (main_start L parse_url fl) = start_error L parse_url fl" by (rule main_start_error)
  show "snd (main_start L parse_url fl) = None \<longrightarrow>
      ((\<exists>p. SvcDns p \<in> set (fst (main_start L parse_url fl))) \<longleftrightarrow> enable_dns_to_https fl)
      \<and> ((\<exists>p. SvcHttps p \<in> set (fst (main_start L parse_url fl))) \<longleftrightarrow> enable_https_to_dns fl)"
    by (auto simp: dns_service https_service fatal_start)
  show "\<forall>svc \<in> set (fst (main_start L parse_url fl)).
       case svc of
         SvcMonitoring a \<Rightarrow> a = monitoring_listen_addr fl
       | SvcReport d \<Rightarrow> d = stats_interval fl
       | SvcReportTopDomains d n \<Rightarrow> d = top_domains_stats_interval fl \<and> n = top_domains_stats_count fl
       | SvcDns p \<Rightarrow> dns_settings L parse_url fl p
       | SvcHttps p \<Rightarrow> https_settings fl p"
    by (auto simp: other_services dns_service https_service dns_to_https_settings https_to_dns_settings split: service.split)
qed (simp_all add: other_services)

text \<open>
  C1: The proxy from DNS to HTTPS that the program starts is safe. Its initialisation does not panic,
  and it serves unless the CA file cannot be used or \<^verbatim>\<open>systemd\<close> passes no socket. While it serves, with
  or without the cache, no sequence of queries and maintenance, with any outcome of the network,
  makes it panic; it writes one reply for each query, and the queries it counted are those it
  counted on the four routes.
\<close>

theorem program_dns_safe:
  assumes "SvcDns p \<in> set (fst (main_start L parse_url fl))"
  shows "\<exists>res. listen_and_serve F N files p = Some res
    \<and> ((https_client_cafile fl = [] \<or> (\<exists>pem. read_file F (https_client_cafile fl) = Inr pem \<and> append_certs F pem))
        \<and> dns_listen_addr fl \<noteq> ''systemd'' \<longrightarrow> \<not> isl res)
    \<and> (\<forall>ls r. res = Inr (ls, r) \<longrightarrow> ls \<noteq> [] \<and>
        (\<forall>v es. \<exists>written w. serve L v N p r es = Some (written, w)
           \<and> length written = length (filter is_px_query es)
           \<and> count w ''dnsserver_queries_total'' =
              count w ''dnsserver_queries_invalid_question_count'' + count w ''dnsserver_queries_override''
              + count w ''dnsserver_queries_unqualified_upstream'' + count w ''dnsserver_queries_resolver''))"
proof -
  obtain upstream where p: "dp_addr p = dns_listen_addr fl"
      "fresh_conf upstream (https_client_cafile fl) (fallback_upstream fl) (dp_resolver p)"
    using assms dns_to_https_fresh [of L parse_url fl p] by (auto simp: dns_service)
  obtain err r' where r': "init_resolver F N (dp_resolver p) = Some (err, r')"
      "err = None \<longleftrightarrow> https_client_cafile fl = [] \<or> (\<exists>pem. read_file F (https_client_cafile fl) = Inr pem \<and> append_certs F pem)"
      "err = None \<longrightarrow> ready_conf r'"
    using init_resolver_ready [OF p(2), of F N] by blast
  have served: "\<exists>written w. serve L v N p r' es = Some (written, w)
      \<and> length written = length (filter is_px_query es)
      \<and> count w ''dnsserver_queries_total'' =
         count w ''dnsserver_queries_invalid_question_count'' + count w ''dnsserver_queries_override''
         + count w ''dnsserver_queries_unqualified_upstream'' + count w ''dnsserver_queries_resolver''"
    if "err = None" for v es
    using serve_total [of r' L v N p es] r'(3) that by (auto simp: routes_balance_def)
  show ?thesis
  proof (cases err)
    case (Some e)
    with r' show ?thesis by (auto simp: listen_and_serve_def)
  next
    case None
    show ?thesis
    proof (cases "dp_addr p = ''systemd''")
      case False
      with None r'(1) p(1) served [OF None] show ?thesis
        by (auto simp: listen_and_serve_def classic_serve_def)
    next
      case True
      show ?thesis
      proof (cases "systemd_serve files")
        case (Inl e)
        with True None r'(1) p(1) show ?thesis by (simp add: listen_and_serve_def)
      next
        case (Inr ls)
        have "ls \<noteq> []" using Inr by (auto simp: systemd_serve_def Let_def split: sum.splits prod.splits if_splits)
        with Inr True None r'(1) p(1) served [OF None] show ?thesis by (simp add: listen_and_serve_def)
      qed
    qed
  qed
qed

section \<open>The properties on concrete flags\<close>

definition ex_flags :: flags where
  "ex_flags = default_flags\<lparr>enable_dns_to_https := True, dns_server_for_domain := ''a.:1.1.1.1:53''\<rparr>"

lemma ex_flags_parse: "domain_map_from_string plain_lib (dns_server_for_domain ex_flags) = Inr [(''a.'', ''1.1.1.1:53'')]"
  by (simp add: ex_flags_def domain_map_from_string_def dm_set_def plain_lib_def plain_canonical_def text_eval)

definition both_flags :: flags where
  "both_flags = ex_flags\<lparr>enable_https_to_dns := True, https_cert := ''cert'', https_key := ''key'',
     dnstap_destination := ''tcp://h:1''\<rparr>"

theorem startup_outcome_witness:
  "\<exists>p w q. SvcDns p \<in> set (fst (main_start plain_lib Inr both_flags)) \<and> (\<exists>c. dp_resolver p = Cached c)
     \<and> ds_server_overrides (dp_server p) = [(''a.'', ''1.1.1.1:53'')]
     \<and> dp_tap p = Some w \<and> wr_network w = ''tcp'' \<and> wr_addr w = ''h:1''
     \<and> SvcHttps q \<in> set (fst (main_start plain_lib Inr both_flags)) \<and> hp_upstream q = ''8.8.8.8:53''
     \<and> hl_tls (http_listen_and_serve q) = Some (''cert'', ''key'')"
proof -
  have f: "enable_dns_to_https both_flags" "enable_https_to_dns both_flags" "enable_cache both_flags"
      "dns_server_for_domain both_flags = dns_server_for_domain ex_flags" "dnstap_destination both_flags = ''tcp://'' @ ''h:1''"
      "\<not> insecure_http_server both_flags" "https_cert both_flags = ''cert''" "https_key both_flags = ''key''"
      "dns_upstream both_flags = ''8.8.8.8:53''"
    by (simp_all add: both_flags_def ex_flags_def default_flags_def)
  let ?svcs = "set (fst (main_start plain_lib Inr both_flags))"
  note start = startup_outcome [of plain_lib Inr both_flags]
  have "start_error plain_lib Inr both_flags = None" by (simp add: start_error_def f ex_flags_parse)
  then have "snd (main_start plain_lib Inr both_flags) = None" unfolding start [THEN conjunct1] .
  with start [THEN conjunct2, THEN conjunct1] f(1,2) obtain p q where p: "SvcDns p \<in> ?svcs" and q: "SvcHttps q \<in> ?svcs"
    by blast
  note settings = start [THEN conjunct2, THEN conjunct2, THEN conjunct1]
  have set: "dns_settings plain_lib Inr both_flags p" "https_settings both_flags q"
    using bspec [OF settings p] bspec [OF settings q] by simp_all
  obtain w where w: "dp_tap p = Some w" "tap_settings (''tcp://'' @ ''h:1'') w"
    using set(1) f(5) by (auto simp: dns_settings_def split: option.splits)
  from w(2) have "wr_network w = ''tcp'' \<and> wr_addr w = ''h:1''" unfolding tap_settings_def by blast
  moreover have "\<exists>c. dp_resolver p = Cached c" using set(1) f(3) by (auto simp: dns_settings_def split: resolver_conf.splits)
  moreover have "ds_server_overrides (dp_server p) = [(''a.'', ''1.1.1.1:53'')]"
    using set(1) f(4) ex_flags_parse by (simp add: dns_settings_def)
  moreover have "hp_upstream q = ''8.8.8.8:53'' \<and> hl_tls (http_listen_and_serve q) = Some (''cert'', ''key'')"
    using set(2) f by (simp add: https_settings_def)
  ultimately show ?thesis using p q w(1) by blast
qed

theorem program_dns_safe_witness:
  "\<exists>p ls r written w. SvcDns p \<in> set (fst (main_start plain_lib Inr ex_flags))
     \<and> listen_and_serve ex_files ex_net (Inr []) p = Some (Inr (ls, r))
     \<and> serve plain_lib 0 ex_net p r [PxQuery ex_env ex_ask, PxCollect] = Some (written, w) \<and> length written = 1"
proof -
  have f: "enable_dns_to_https ex_flags" "https_client_cafile ex_flags = []" "dns_listen_addr ex_flags \<noteq> ''systemd''"
    by (simp_all add: ex_flags_def default_flags_def)
  obtain p where p: "SvcDns p \<in> set (fst (main_start plain_lib Inr ex_flags))"
    using f ex_flags_parse by (auto simp: dns_service dns_to_https_def Let_def)
  from program_dns_safe [OF p, of ex_files ex_net "Inr []"] f obtain out where
      out: "listen_and_serve ex_files ex_net (Inr []) p = Some out" "\<not> isl out"
      and served: "\<And>ls r v es. out = Inr (ls, r) \<Longrightarrow>
        \<exists>written w. serve plain_lib v ex_net p r es = Some (written, w) \<and> length written = length (filter is_px_query es)"
    by blast
  obtain ls r where r: "out = Inr (ls, r)" using out(2) by (cases out) auto
  from served [OF r, of 0 "[PxQuery ex_env ex_ask, PxCollect]"] out(1) r p show ?thesis by auto
qed

end
