(* ===== verification/Trace_Discipline.thy ===== *)
theory Trace_Discipline
  imports Trace_Sessions Dnss_Program_Properties Http_Server_Properties
begin

text \<open>
  The servers keep to the contract of the trace store: for each request the calls on its trace are a
  session, which \<^verbatim>\<open>trace.New\<close> starts and \<^verbatim>\<open>Finish\<close> ends, with messages and errors between. The resolvers
  only add messages to the trace of the request, and have traces of their own.
\<close>

section \<open>Sessions\<close>

fun remark :: "trace_op \<Rightarrow> bool" where
  "remark (OpPrintf msg) = True"
| "remark OpSetError = True"
| "remark op = False"

definition request_session :: "string \<Rightarrow> trace_op list \<Rightarrow> bool" where
  "request_session family ops \<longleftrightarrow>
     (\<exists>title mid. ops = OpNew family title # OpSetMaxEvents 30 # mid @ [OpFinish] \<and> list_all remark mid)"

lemma phase_remarks: "list_all remark ops \<Longrightarrow> add_all phase_op (ops @ rest) Running = add_all phase_op rest Running"
proof (induction ops)
  case (Cons op ops)
  then show ?case by (cases op) simp_all
qed simp

lemma request_session_done: "request_session family ops \<Longrightarrow> CHR ''!'' \<notin> set family \<Longrightarrow> phase_after ops = Some Done"
  by (auto simp: request_session_def phase_after_def phase_remarks)

lemma request_session_wrapped:
  assumes "request_session family (map cl_op cs)"
  shows "wrapped cs"
proof -
  obtain title mid where m: "map cl_op cs = OpNew family title # OpSetMaxEvents 30 # mid @ [OpFinish]" "list_all remark mid"
    using assms by (auto simp: request_session_def)
  then obtain c d es where cs: "cs = c # d # es" "cl_op c = OpNew family title" "cl_op d = OpSetMaxEvents 30"
      "map cl_op es = mid @ [OpFinish]" by (auto simp: map_eq_Cons_conv)
  have "cl_op e = OpFinish \<or> remark (cl_op e)" if "e \<in> set es" for e
  proof -
    have "cl_op e \<in> set (map cl_op es)" using that by simp
    with cs(4) m(2) show ?thesis by (auto simp: list_all_iff)
  qed
  then have "case cl_op e of OpNew family title \<Rightarrow> False | OpSetMaxEvents n \<Rightarrow> False | _ \<Rightarrow> True" if "e \<in> set es" for e
    using that by (cases "cl_op e") fastforce+
  with cs(2,3) show ?thesis unfolding cs(1) by simp
qed

section \<open>Remarks on a trace\<close>

definition remarks :: "world \<Rightarrow> world \<Rightarrow> bool" where
  "remarks w w' \<longleftrightarrow> (\<exists>ops. w_trace w' = w_trace w @ ops \<and> list_all remark ops)"

definition sessions :: "string list \<Rightarrow> world \<Rightarrow> world \<Rightarrow> bool" where
  "sessions families w w' \<longleftrightarrow> (\<exists>ss. w_trace w' = w_trace w @ concat ss \<and> list_all2 request_session families ss)"

named_theorems remarks_intros \<open>what only adds remarks to a trace\<close>

lemma remarks_refl [remarks_intros]: "remarks w w"
  by (simp add: remarks_def)

lemma remarks_trans: "remarks w1 w2 \<Longrightarrow> remarks w2 w3 \<Longrightarrow> remarks w1 w3"
  by (auto simp: remarks_def)

lemma remarks_emit: "remarks w w' \<Longrightarrow> list_all remark ops \<Longrightarrow> remarks w (emit ops w')"
  by (auto simp: remarks_def emit_def)

lemma remarks_calls [remarks_intros]:
  "remarks w w' \<Longrightarrow> remarks w (inc n w')" "remarks w w' \<Longrightarrow> remarks w (record_domain d w')"
  "remarks w w' \<Longrightarrow> remarks w (trace_printf s w')" "remarks w w' \<Longrightarrow> remarks w (trace_lprintf s w')"
  "remarks w w' \<Longrightarrow> remarks w (trace_errorf s w')" "remarks w w' \<Longrightarrow> remarks w (trace_error s w')"
  "remarks w w' \<Longrightarrow> remarks w (trace_question L v qs w')"
  by (simp_all add: remarks_emit trace_printf_def trace_lprintf_def trace_errorf_def trace_error_def trace_question_def)
    (simp_all add: remarks_def)

lemma remarks_fold [remarks_intros]: "remarks w w' \<Longrightarrow> remarks w (fold (\<lambda>r. trace_lprintf (f r)) rs w')"
  by (induction rs arbitrary: w') (auto intro!: remarks_intros)

lemma remarks_answer [remarks_intros]: "remarks w w' \<Longrightarrow> remarks w (trace_answer L v m w')"
  by (auto simp: trace_answer_def intro!: remarks_intros)

lemma sessions_nil: "w_trace w' = w_trace w \<Longrightarrow> sessions [] w w'"
  by (simp add: sessions_def)

lemma sessions_trans: "sessions fs w1 w2 \<Longrightarrow> sessions gs w2 w3 \<Longrightarrow> sessions (fs @ gs) w1 w3"
proof -
  assume "sessions fs w1 w2" "sessions gs w2 w3"
  then obtain ss ts where "w_trace w2 = w_trace w1 @ concat ss" "list_all2 request_session fs ss"
      "w_trace w3 = w_trace w2 @ concat ts" "list_all2 request_session gs ts" by (auto simp: sessions_def)
  then show ?thesis unfolding sessions_def by (intro exI [of _ "ss @ ts"]) (simp add: list_all2_appendI)
qed

lemma sessions_one:
  assumes "w_trace w1 = w_trace w" and "remarks (trace_new family title w1) w2"
  shows "sessions [family] w (trace_finish w2)"
proof -
  obtain ops where ops: "w_trace w2 = w_trace w @ OpNew family title # OpSetMaxEvents 30 # ops" "list_all remark ops"
    using assms by (auto simp: remarks_def trace_new_def emit_def)
  then show ?thesis unfolding sessions_def
    by (intro exI [of _ "[OpNew family title # OpSetMaxEvents 30 # ops @ [OpFinish]]"])
      (auto simp: trace_finish_def emit_def request_session_def)
qed

section \<open>The resolvers\<close>

locale traced_resolver =
  fixes query :: "'s query_fn" and tick :: "('s, 'e) tick_fn" and tick_families :: "'e \<Rightarrow> string list"
  assumes query_remarks: "query r s w = Some (res, s', w') \<Longrightarrow> remarks w w'"
    and tick_sessions: "tick e s w = Some (s', w') \<Longrightarrow> sessions (tick_families e) w w'"
begin

lemma caching_query_remarks: "caching_query L cfg query r c w = Some (res, c', w') \<Longrightarrow> remarks w w'"
proof (cases "length (m_question r) = 1")
  case False
  then show "caching_query L cfg query r c w = Some (res, c', w') \<Longrightarrow> ?thesis"
    by (auto simp: caching_query_bypass dest!: query_remarks intro: remarks_trans [OF remarks_calls(3) [OF remarks_refl]])
next
  case True
  then obtain q where q: "m_question r = [q]" by (auto simp: length_Suc_conv)
  assume c: "caching_query L cfg query r c w = Some (res, c', w')"
  show ?thesis
  proof (cases "map_of (cr_answer c) q")
    case (Some ans)
    with c show ?thesis by (auto simp: caching_query_hit [OF q] intro!: remarks_intros)
  next
    case None
    have am: "remarks w1 (snd (snd (after_miss L cfg q res1 c1 w1)))" for res1 and c1 :: "'s caching" and w1
      by (auto simp: after_miss_def Let_def intro!: remarks_intros split: sum.splits option.splits)
    obtain res1 s1 w1 where q1: "query r (cr_back c) (trace_printf ''cache miss'' w) = Some (res1, s1, w1)"
        and am1: "after_miss L cfg q res1
          (c\<lparr>cr_total := cr_total c + 1, cr_misses := cr_misses c + 1, cr_back := s1\<rparr>) w1 = (res, c', w')"
      using c by (auto simp: caching_query_miss [OF q None])
    have "remarks w1 w'" using am [of w1 res1] am1 by (metis snd_conv)
    then show ?thesis using query_remarks [OF q1] by (blast intro: remarks_trans remarks_intros)
  qed
qed

lemma caching_tick_sessions:
  assumes "caching_tick cfg tick e c w = Some (c', w')"
  shows "sessions (case e of None \<Rightarrow> [''dnsserver.Cache''] | Some e \<Rightarrow> tick_families e) w w'"
proof (cases e)
  case None
  with assms show ?thesis
    by (auto simp: caching_tick_def gc_pass_def Let_def intro!: sessions_one remarks_intros split: option.splits)
next
  case (Some b)
  with assms show ?thesis by (auto simp: caching_tick_def bind_eq_Some_conv dest: tick_sessions)
qed

end

locale traced_cache = traced_resolver query tick tick_families
  for query :: "'s query_fn" and tick :: "('s, 'e) tick_fn" and tick_families :: "'e \<Rightarrow> string list" +
  fixes L :: dns_lib and cfg :: cache_cfg

sublocale traced_cache \<subseteq> traced_caching: traced_resolver
    "caching_query L cfg query" "caching_tick cfg tick"
    "\<lambda>e. case e of None \<Rightarrow> [''dnsserver.Cache''] | Some e \<Rightarrow> tick_families e"
  by unfold_locales (auto intro: caching_query_remarks caching_tick_sessions)

lemma parse_response_remarks [remarks_intros]: "remarks w w' \<Longrightarrow> remarks w (snd (parse_response L hr w'))"
  by (auto simp: parse_response_def Let_def intro!: remarks_intros split: sum.split)

lemma https_query_remarks:
  assumes "https_query L N v req s w = Some (res, s', w')"
  shows "remarks w w'"
proof (cases "pack_msg L req")
  case (Inl err)
  with assms show ?thesis by (auto simp: https_query_def Let_def intro!: remarks_intros)
next
  case (Inr packed)
  with assms obtain c where c: "hr_client s = Some c"
    by (auto simp: https_query_def Let_def bind_eq_Some_conv)
  show ?thesis
  proof (cases "net_post N (hr_calls s) c (hr_upstream s) ''application/dns-message'' packed")
    case (Inl err)
    with \<open>pack_msg L req = Inr packed\<close> c assms show ?thesis
      by (auto simp: https_query_def Let_def bind_eq_Some_conv intro!: remarks_intros)
  next
    case (Inr hr)
    with \<open>pack_msg L req = Inr packed\<close> c assms show ?thesis
      by (auto simp: https_query_def Let_def bind_eq_Some_conv case_prod_beta intro!: remarks_intros)
  qed
qed

lemma https_tick_sessions: "https_tick N e s w = Some (s', w') \<Longrightarrow> sessions [] w w'"
  by (auto simp: https_tick_def bind_eq_Some_conv intro: sessions_nil)

interpretation https_traced: traced_cache "https_query L N v" "https_tick N" "\<lambda>e. []" L default_cfg for L N v
  by unfold_locales (auto intro: https_query_remarks https_tick_sessions)

section \<open>The DNS server\<close>

lemma receive_trace: "\<exists>title w1. w_trace w1 = w_trace (dn_world st)
    \<and> remarks (trace_new ''dnsserver.Handler'' title w1) (dn_world (receive L v E r st))"
  by (intro exI [of _ "addr_network (re_remote E) @ '' '' @ addr_string (re_remote E)"]
        exI [of _ "inc (''dnsserver_queries_transport_'' @ addr_network (re_remote E)) (inc ''dnsserver_queries_total'' (dn_world st))"])
    (auto simp: receive_def Let_def intro!: remarks_intros)

lemma write_reply_remarks [remarks_intros]:
  "remarks w (dn_world st) \<Longrightarrow> remarks w (dn_world (write_reply L E r m st))"
  by (auto simp: write_reply_def write_msg_def Let_def intro!: remarks_intros)

lemma fold_printf_remarks [remarks_intros]:
  "remarks w (dn_world st) \<Longrightarrow> remarks w (dn_world (fold (\<lambda>x. on_world (trace_printf x)) xs st))"
proof (induction xs arbitrary: st)
  case (Cons x xs)
  from Cons.IH [of "st_printf x st"] Cons.prems show ?case by (simp add: remarks_calls)
qed simp

lemma forward_remarks [remarks_intros]:
  "remarks w (dn_world st) \<Longrightarrow> remarks w (dn_world (forward L v E server xs c ctr r st))"
  by (auto simp: forward_def Let_def intro!: remarks_intros split: sum.split)

lemma count_question_remarks [remarks_intros]:
  "remarks w (dn_world st) \<Longrightarrow> remarks w (dn_world (count_question q st))"
  by (auto simp: count_question_def Let_def intro!: remarks_intros)

context traced_resolver begin

lemma ask_resolver_remarks:
  assumes "ask_resolver L v query E r st = Some st'" and "remarks w (dn_world st)"
  shows "remarks w (dn_world st')"
proof -
  obtain res s w1 where q: "query (r\<lparr>m_id := re_new_id E\<rparr>) (dn_resolver st) (inc ''dnsserver_queries_resolver'' (dn_world st)) = Some (res, s, w1)"
    using assms(1) by (auto simp: ask_resolver_def Let_def bind_eq_Some_conv)
  have "remarks w w1" using query_remarks [OF q] assms(2) by (blast intro: remarks_trans remarks_intros)
  with assms(1) q show ?thesis
    by (cases res) (auto simp: ask_resolver_def Let_def intro!: remarks_intros)
qed

lemma handler_sessions:
  assumes "handler L v srv query E r st = Some st'"
  shows "sessions [''dnsserver.Handler''] (dn_world st) (dn_world st')"
proof -
  obtain title w1 where w1: "w_trace w1 = w_trace (dn_world st)"
      "remarks (trace_new ''dnsserver.Handler'' title w1) (dn_world (receive L v E r st))" (is "remarks ?w _")
    using receive_trace [of st L v E r] by blast
  obtain st2 where st2: "st' = on_world trace_finish st2" "remarks ?w (dn_world st2)"
  proof (cases "length (m_question r) = 1")
    case False
    define st2 where "st2 = handle_failed L E r (st_inc ''dnsserver_replies_rcode_2''
      (st_inc ''dnsserver_queries_invalid_question_count'' (st_printf ''len(Q) != 1, failing'' (receive L v E r st))))"
    have "remarks ?w (dn_world st2)" using w1(2) by (auto simp: st2_def intro!: remarks_intros)
    moreover have "st' = on_world trace_finish st2" using assms False unfolding st2_def by (simp add: handler_def Let_def)
    ultimately show ?thesis using that by blast
  next
    case True
    obtain a ok where gms: "get_most_specific L (ds_server_overrides srv) (q_name (hd (m_question r))) = (a, ok)"
      by (cases "get_most_specific L (ds_server_overrides srv) (q_name (hd (m_question r)))")
    have c: "remarks ?w (dn_world (count_question (hd (m_question r)) (receive L v E r st)))"
      using w1(2) by (rule count_question_remarks)
    let ?st = "count_question (hd (m_question r)) (receive L v E r st)"
    consider (ov) ok | (unq) "\<not> ok" "ds_unq_upstream srv \<noteq> [] \<and> count_label L (q_name (hd (m_question r))) \<le> 1"
      | (res) "\<not> ok" "\<not> (ds_unq_upstream srv \<noteq> [] \<and> count_label L (q_name (hd (m_question r))) \<le> 1)"
      by blast
    then show ?thesis
    proof cases
      case ov
      define st1 where "st1 = st_printf (''override found: '' @ quote a) (st_inc ''dnsserver_queries_override'' ?st)"
      have "remarks ?w (dn_world st1)" using c by (auto simp: st1_def intro!: remarks_intros)
      moreover have "st' = on_world trace_finish (forward L v E a [] ''override server returned error: ''
          ''dnsserver_errors_override'' r st1)"
        using ov True gms assms unfolding st1_def by (simp add: handler_def Let_def)
      ultimately show ?thesis using that forward_remarks by blast
    next
      case unq
      define st1 where "st1 = st_inc ''dnsserver_queries_unqualified_upstream'' ?st"
      have "remarks ?w (dn_world st1)" using c by (auto simp: st1_def intro!: remarks_intros)
      moreover have "st' = on_world trace_finish (forward L v E (ds_unq_upstream srv) [''used unqualified upstream'']
          ''unqualified upstream error: '' ''dnsserver_errors_unqualified_upstream'' r st1)"
        using unq True gms assms unfolding st1_def by (simp add: handler_def Let_def)
      ultimately show ?thesis using that forward_remarks by blast
    next
      case res
      then obtain st2 where "ask_resolver L v query E r ?st = Some st2" "st' = on_world trace_finish st2"
        using True gms assms by (auto simp: handler_def Let_def)
      with ask_resolver_remarks [OF _ c] that show ?thesis by blast
    qed
  qed
  from sessions_one [OF w1(1) st2(2)] st2(1) show ?thesis by simp
qed

end

text \<open>The families of the traces that the events of a server finish, in order.\<close>

fun event_families :: "('e \<Rightarrow> string list) \<Rightarrow> 'e server_event \<Rightarrow> string list" where
  "event_families tf (SrvQuery E r) = [''dnsserver.Handler'']"
| "event_families tf (SrvTick e) = tf e"

context traced_resolver begin

lemma server_run_sessions:
  "server_run L v srv query tick es st = Some st' \<Longrightarrow>
     sessions (concat (map (event_families tick_families) es)) (dn_world st) (dn_world st')"
proof (induction es arbitrary: st)
  case Nil
  then show ?case by (simp add: sessions_nil)
next
  case (Cons e es)
  then obtain st1 where st1: "server_step L v srv query tick e st = Some st1" "server_run L v srv query tick es st1 = Some st'"
    by (auto split: option.splits)
  have "sessions (event_families tick_families e) (dn_world st) (dn_world st1)"
    using st1(1) by (cases e) (auto simp: handler_sessions dest: tick_sessions)
  from sessions_trans [OF this Cons.IH [OF st1(2)]] show ?case by simp
qed

end

fun is_cached :: "resolver_conf \<Rightarrow> bool" where
  "is_cached (Plain s) = False"
| "is_cached (Cached c) = True"

fun px_families :: "bool \<Rightarrow> proxy_event \<Rightarrow> string list" where
  "px_families cached (PxQuery E r) = [''dnsserver.Handler'']"
| "px_families cached PxCollect = (if cached then [''dnsserver.Cache''] else [])"
| "px_families cached (PxTick t) = []"

lemma cached_families:
  "event_families (\<lambda>e. case e of None \<Rightarrow> [''dnsserver.Cache''] | Some e \<Rightarrow> []) (cached_event e) = px_families True e"
  by (cases e) simp_all

lemma plain_families:
  "concat (map (event_families (\<lambda>e. [])) (List.map_filter plain_event es)) = concat (map (px_families False) es)"
proof (induction es)
  case (Cons e es)
  then show ?case by (cases e) (simp_all add: List.map_filter_def)
qed (simp add: List.map_filter_def)

lemma serve_sessions:
  assumes "serve L v N p r es = Some (written, w)"
  shows "sessions (concat (map (px_families (is_cached r)) es)) empty_world w"
proof (cases r)
  case (Plain s)
  with assms obtain st where "server_run L v (dp_server p) (https_query L N v) (https_tick N) (List.map_filter plain_event es)
      (new_dns_state s (dp_tap p)) = Some st" "w = dn_world st" by (auto simp: serve_def)
  with https_traced.server_run_sessions Plain show ?thesis by (fastforce simp: plain_families new_dns_state_def)
next
  case (Cached c)
  with assms obtain st where "server_run L v (dp_server p) (caching_query L default_cfg (https_query L N v))
      (caching_tick default_cfg (https_tick N)) (map cached_event es) (new_dns_state c (dp_tap p)) = Some st"
      "w = dn_world st" by (auto simp: serve_def)
  with https_traced.traced_caching.server_run_sessions Cached show ?thesis
    by (fastforce simp: cached_families new_dns_state_def comp_def)
qed

section \<open>The HTTPS server\<close>

lemma http_remarks [remarks_intros]:
  "remarks w (hs_world st) \<Longrightarrow> remarks w (hs_world (http_error err status st))"
  "remarks w (hs_world st) \<Longrightarrow> remarks w (hs_world (write_dns_response E packed st))"
  "remarks w (hs_world st) \<Longrightarrow> remarks w (hs_world (no_upstream_response st))"
  "remarks w (hs_world st) \<Longrightarrow> remarks w (hs_world (exchange_failed xerr st))"
  "remarks w (hs_world st) \<Longrightarrow> remarks w (hs_world (bad_request ctr err st))"
  "remarks w (hs_world st) \<Longrightarrow> remarks w (hs_world (unknown_request st))"
  by (auto simp: http_error_def send_def on_hs_world_def write_dns_response_def no_upstream_response_def exchange_failed_def
      dns_exchange_http_error_def bad_request_def unknown_request_def Let_def intro!: remarks_intros)

lemma on_hs_world_remarks [remarks_intros]:
  "remarks w (f (hs_world st)) \<Longrightarrow> remarks w (hs_world (on_hs_world f st))"
  by (simp add: on_hs_world_def)

lemma respond_remarks [remarks_intros]:
  "remarks w (hs_world st) \<Longrightarrow> remarks w (hs_world (doh_respond L v E r res st))"
  "remarks w (hs_world st) \<Longrightarrow> remarks w (hs_world (json_respond L E res st))"
  by (auto simp: doh_respond_def json_respond_def send_def on_hs_world_def Let_def intro!: remarks_intros
      split: sum.split option.split)

lemma exchange_remarks:
  "exchange E r addr st = Some (res, st') \<Longrightarrow> remarks w (hs_world st) \<Longrightarrow> remarks w (hs_world st')"
  by (auto simp: exchange_def Let_def intro!: remarks_intros split: sum.splits option.splits if_splits)

lemma resolve_doh_remarks:
  "resolve_doh L v E upstream dnsQuery st = Some st' \<Longrightarrow> remarks w (hs_world st) \<Longrightarrow> remarks w (hs_world st')"
  by (auto simp: resolve_doh_def Let_def bind_eq_Some_conv intro!: remarks_intros
      split: sum.splits if_splits elim!: exchange_remarks)

lemma resolve_json_remarks:
  "resolve_json L v E upstream req st = Some st' \<Longrightarrow> remarks w (hs_world st) \<Longrightarrow> remarks w (hs_world st')"
  by (auto simp: resolve_json_def Let_def bind_eq_Some_conv intro!: remarks_intros
      split: sum.splits if_splits elim!: exchange_remarks)

lemma resolve_sessions:
  assumes "resolve L v E upstream req st = Some st'"
  shows "sessions [''httpserver''] (hs_world st) (hs_world st')"
proof -
  define w1 where "w1 = inc (''httpserver_requests_method_'' @ rq_method req) (inc ''httpserver_requests_total'' (hs_world st))"
  let ?w = "trace_new ''httpserver'' ''/resolve'' w1"
  define st1 where "st1 = hs_printf (''method:'' @ rq_method req) (hs_printf (''from:'' @ rq_remote_addr req)
     (on_hs_world (trace_new ''httpserver'' ''/resolve'') (hs_inc (''httpserver_requests_method_'' @ rq_method req)
       (hs_inc ''httpserver_requests_total'' st))))"
  have st1: "remarks ?w (hs_world st1)" by (auto simp: st1_def w1_def on_hs_world_def intro!: remarks_intros)
  let ?body =
    "if rq_method req = ''GET'' \<and> form_value req ''dns'' \<noteq> [] then
       (case b64_decode (form_value req ''dns'') of
          Inl err \<Rightarrow> Some (bad_request ''httpserver_errors_decode_get'' err (hs_inc ''httpserver_doh_get'' (hs_printf ''DoH:GET'' st1)))
        | Inr dnsQuery \<Rightarrow> resolve_doh L v E upstream dnsQuery (hs_inc ''httpserver_doh_get'' (hs_printf ''DoH:GET'' st1)))
     else if rq_method req = ''GET'' \<and> form_value req ''name'' \<noteq> [] then
       resolve_json L v E upstream req (hs_inc ''httpserver_json_get'' (hs_printf ''JSON:GET'' st1))
     else if rq_method req = ''POST'' then
       (case parse_media_type (rq_content_type req) of
          Inl err \<Rightarrow> Some (bad_request ''httpserver_errors_content_type'' err st1)
        | Inr ct \<Rightarrow>
            if ct = ''application/dns-message'' then
              (case read_limited 4092 (rq_body req) (rq_read_error req) of
                 Inl err \<Rightarrow> Some (bad_request ''httpserver_errors_read_body'' err
                   (hs_inc ''httpserver_doh_post'' (hs_printf ''DoH:POST'' st1)))
               | Inr dnsQuery \<Rightarrow> resolve_doh L v E upstream dnsQuery
                   (hs_inc ''httpserver_doh_post'' (hs_printf ''DoH:POST'' st1)))
            else Some (unknown_request st1))
     else Some (unknown_request st1)"
  have "map_option (on_hs_world trace_finish) ?body = Some st'"
    using assms unfolding resolve_def Let_def st1_def .
  then obtain st2 where st2: "?body = Some st2" "st' = on_hs_world trace_finish st2" by blast
  have "remarks ?w (hs_world (hs_inc ctr (hs_printf txt1 st1)))" for ctr txt1
    using st1 by (auto simp: on_hs_world_def intro!: remarks_intros)
  with st2(1) st1 have "remarks ?w (hs_world st2)"
    by (auto split: if_splits sum.splits intro!: http_remarks elim!: resolve_doh_remarks resolve_json_remarks)
  from sessions_one [OF _ this, of "hs_world st"] st2(2) show ?thesis by (simp add: w1_def on_hs_world_def)
qed

section \<open>The traces of the HTTPS resolver\<close>

text \<open>One for each client it has had: all but the last one are finished.\<close>

definition own_traces_ok :: "https \<Rightarrow> bool" where
  "own_traces_ok s \<longleftrightarrow>
     (\<exists>old title mid. hr_traces s = old @ [OpNew ''httpresolver.Client'' title # OpSetMaxEvents 30 # mid]
        \<and> list_all (request_session ''httpresolver.Client'') old \<and> list_all remark mid)"

lemma own_trace_remarks:
  "own_trace ops s = Some s' \<Longrightarrow> own_traces_ok s \<Longrightarrow> list_all remark ops \<Longrightarrow> own_traces_ok s'"
  by (auto simp: own_traces_ok_def own_trace_def split: if_splits)

lemma set_client_error_own:
  "set_client_error err now s = Some s' \<Longrightarrow> own_traces_ok s \<Longrightarrow> own_traces_ok s'"
  by (auto simp: set_client_error_def Let_def elim!: own_trace_remarks split: option.splits)
    (auto simp: own_traces_ok_def)

lemma new_own_trace_ok:
  assumes "own_traces_ok s" and "own_trace (ops @ [OpFinish]) s = Some s'" and "list_all remark ops"
  shows "own_traces_ok (new_own_trace s')"
proof -
  obtain old title mid where s: "hr_traces s = old @ [OpNew ''httpresolver.Client'' title # OpSetMaxEvents 30 # mid]"
      "list_all (request_session ''httpresolver.Client'') old" "list_all remark mid"
    using assms(1) by (auto simp: own_traces_ok_def)
  then have "hr_traces s' = old @ [OpNew ''httpresolver.Client'' title # OpSetMaxEvents 30 # (mid @ ops) @ [OpFinish]]"
    using assms(2) by (auto simp: own_trace_def)
  moreover have "request_session ''httpresolver.Client'' (OpNew ''httpresolver.Client'' title # OpSetMaxEvents 30 # (mid @ ops) @ [OpFinish])"
    unfolding request_session_def using s(3) assms(3) by (intro exI [of _ title] exI [of _ "mid @ ops"]) simp
  ultimately show ?thesis
    using s(2) by (auto simp: own_traces_ok_def new_own_trace_def trace_new_def emit_def empty_world_def)
qed

lemma https_own_query:
  assumes "https_query L N v req s w = Some (res, s', w')" and "own_traces_ok s"
  shows "own_traces_ok s'"
proof (cases "pack_msg L req")
  case (Inl err)
  with assms show ?thesis by (auto simp: https_query_def Let_def)
next
  case (Inr packed)
  with assms(1) obtain c where c: "hr_client s = Some c"
    by (auto simp: https_query_def Let_def bind_eq_Some_conv)
  have "\<exists>err. set_client_error err (net_now N (hr_calls s)) (s\<lparr>hr_calls := hr_calls s + 1\<rparr>) = Some s'"
  proof (cases "net_post N (hr_calls s) c (hr_upstream s) ''application/dns-message'' packed")
    case (Inl err)
    with Inr c assms(1) show ?thesis by (intro exI [of _ "Some err"]) (auto simp: https_query_def Let_def bind_eq_Some_conv)
  next
    case (Inr hr)
    with \<open>pack_msg L req = Inr packed\<close> c assms(1) show ?thesis
      by (intro exI [of _ None]) (auto simp: https_query_def Let_def bind_eq_Some_conv case_prod_beta)
  qed
  then obtain err where "set_client_error err (net_now N (hr_calls s)) (s\<lparr>hr_calls := hr_calls s + 1\<rparr>) = Some s'" ..
  then show ?thesis by (rule set_client_error_own) (use assms(2) in \<open>simp add: own_traces_ok_def\<close>)
qed

lemma maybe_rotate_own:
  assumes "maybe_rotate_client N now now2 s = Some s'" and "own_traces_ok s"
  shows "own_traces_ok s'"
proof (cases "is_zero_time (hr_first_err s) \<or> \<not> time_sub now (hr_first_err s) > 10 * second")
  case True
  with assms show ?thesis by (auto simp: maybe_rotate_client_def split: if_splits)
next
  case False
  let ?ops = "w_trace (trace_errorf (''Rotating client after '' @ show_duration (time_sub now2 (hr_first_err s))
                 @ '' of errors: '' @ show_client N (hr_client s)) empty_world)"
  obtain s1 s2 client where s1: "own_trace (?ops @ [OpFinish]) s = Some s1"
      and s2: "new_client (new_own_trace s1) = (Inr client, s2)"
        "own_trace [OpPrintf (''Rotated client: '' @ show_client N (Some client))]
          (s2\<lparr>hr_client := Some client, hr_first_err := 0\<rparr>) = Some s'"
    using assms(1) False
    by (auto simp: maybe_rotate_client_def bind_eq_Some_conv trace_finish_def emit_def new_client_def Let_def)
  have "list_all remark ?ops" by (simp add: trace_errorf_def emit_def empty_world_def)
  from new_own_trace_ok [OF assms(2) s1 this] s2(1) have "own_traces_ok (s2\<lparr>hr_client := Some client, hr_first_err := 0\<rparr>)"
    by (auto simp: new_client_def own_traces_ok_def)
  from own_trace_remarks [OF s2(2) this] show ?thesis by simp
qed

lemma https_init_own: "https_init F N (new_doh upstream caFile fallback) = Some (None, s) \<Longrightarrow> own_traces_ok s"
  by (auto simp: https_init_def new_doh_def new_client_def own_trace_def new_own_trace_def trace_new_def emit_def
      empty_world_def own_traces_ok_def Let_def split: sum.splits if_splits)

lemma https_run_own:
  "resolver_run (https_query L N v) (https_tick N) es (s, w) = Some (s', w') \<Longrightarrow> own_traces_ok s \<Longrightarrow> own_traces_ok s'"
proof (induction es arbitrary: s w)
  case (Cons e es)
  then obtain s1 w1 where s1: "resolver_step (https_query L N v) (https_tick N) e (s, w) = Some (s1, w1)"
      "resolver_run (https_query L N v) (https_tick N) es (s1, w1) = Some (s', w')"
    by (auto split: option.splits)
  have "own_traces_ok s1"
    using s1(1) Cons.prems(2)
    by (cases e) (auto simp: https_tick_def bind_eq_Some_conv elim: https_own_query maybe_rotate_own)
  from Cons.IH [OF s1(2) this] show ?case .
qed simp

section \<open>The contract is kept\<close>

lemma px_families_plain: "f \<in> set (concat (map (px_families c) es)) \<Longrightarrow> CHR ''!'' \<notin> set f"
proof -
  assume "f \<in> set (concat (map (px_families c) es))"
  then obtain e where "f \<in> set (px_families c e)" by auto
  then show ?thesis by (cases e) (auto split: if_splits)
qed

lemma request_sessions_done:
  assumes "list_all2 request_session fs ss" and "\<And>f. f \<in> set fs \<Longrightarrow> CHR ''!'' \<notin> set f" and "s \<in> set ss"
  shows "phase_after s = Some Done"
proof -
  obtain i where i: "i < length ss" "s = ss ! i" using assms(3) by (auto simp: in_set_conv_nth)
  then have "request_session (fs ! i) s" "fs ! i \<in> set fs"
    using assms(1) by (simp_all add: list_all2_conv_all_nth)
  with assms(2) show ?thesis by (blast intro: request_session_done)
qed

text \<open>
  C11: The program keeps to the contract of its trace store. Whatever queries, maintenance and network
  outcomes a serving DNS proxy sees, the calls it makes on traces are one whole session for each query
  and each pass of the cache's maintenance, in order: a trace is created, gets messages and errors,
  and is finished once. Each request to the HTTPS server is one whole session. Of the traces of the
  HTTPS resolver's clients all but the last one are whole.
\<close>

theorem traces_whole:
  "(serve L v N p r es = Some (written, w) \<longrightarrow>
      (\<exists>ss. w_trace w = concat ss \<and> list_all2 request_session (concat (map (px_families (is_cached r)) es)) ss
         \<and> (\<forall>s \<in> set ss. phase_after s = Some Done)))
   \<and> (resolve L v E upstream req st = Some st' \<longrightarrow>
      (\<exists>s. w_trace (hs_world st') = w_trace (hs_world st) @ s \<and> request_session ''httpserver'' s
         \<and> phase_after s = Some Done))
   \<and> (https_init F N (new_doh url caFile fallback) = Some (None, h)
        \<and> resolver_run (https_query L N v) (https_tick N) evs (h, w0) = Some (h', w1) \<longrightarrow>
      own_traces_ok h')"
proof (intro conjI impI)
  assume "serve L v N p r es = Some (written, w)"
  from serve_sessions [OF this] obtain ss where ss: "w_trace w = concat ss"
      "list_all2 request_session (concat (map (px_families (is_cached r)) es)) ss"
    by (auto simp: sessions_def empty_world_def)
  have "phase_after s = Some Done" if "s \<in> set ss" for s
    using request_sessions_done [OF ss(2) _ that] px_families_plain by blast
  with ss show "\<exists>ss. w_trace w = concat ss \<and> list_all2 request_session (concat (map (px_families (is_cached r)) es)) ss
      \<and> (\<forall>s \<in> set ss. phase_after s = Some Done)" by blast
next
  assume "resolve L v E upstream req st = Some st'"
  from resolve_sessions [OF this] obtain s where "w_trace (hs_world st') = w_trace (hs_world st) @ s" "request_session ''httpserver'' s"
    by (auto simp: sessions_def list_all2_Cons1)
  moreover from this(2) have "phase_after s = Some Done" by (rule request_session_done) simp
  ultimately show "\<exists>s. w_trace (hs_world st') = w_trace (hs_world st) @ s \<and> request_session ''httpserver'' s
      \<and> phase_after s = Some Done" by blast
next
  assume "https_init F N (new_doh url caFile fallback) = Some (None, h)
    \<and> resolver_run (https_query L N v) (https_tick N) evs (h, w0) = Some (h', w1)"
  then show "own_traces_ok h'" using https_init_own https_run_own by blast
qed

theorem traces_whole_witness:
  "\<exists>written w ss. serve plain_lib 0 ex_net \<lparr>dp_addr = ''a'', dp_server = ex_srv, dp_resolver = Plain ex_https, dp_tap = None\<rparr>
       (Plain ex_https) [PxQuery ex_env ex_ask, PxQuery ex_env ex_ask] = Some (written, w)
     \<and> w_trace w = concat ss \<and> length ss = 2 \<and> (\<forall>s \<in> set ss. phase_after s = Some Done)"
proof -
  let ?p = "\<lparr>dp_addr = ''a'', dp_server = ex_srv, dp_resolver = Plain ex_https, dp_tap = None\<rparr>"
  let ?es = "[PxQuery ex_env ex_ask, PxQuery ex_env ex_ask]"
  obtain written w where r: "serve plain_lib 0 ex_net ?p (Plain ex_https) ?es = Some (written, w)"
    using serve_total [of "Plain ex_https" plain_lib 0 ex_net ?p ?es] ex_https_ready(1) by auto
  from traces_whole [THEN conjunct1, THEN mp, OF r] obtain ss where
      "w_trace w = concat ss" "list_all2 request_session [''dnsserver.Handler'', ''dnsserver.Handler''] ss"
      "\<forall>s \<in> set ss. phase_after s = Some Done" by auto
  moreover from this(2) have "length ss = 2" by (auto dest: list_all2_lengthD)
  ultimately show ?thesis using r by blast
qed

end
