(* ===== verification/Net_Style.thy ===== *)
theory Net_Style
  imports Go_Text
begin

text \<open>
  The style sheet of the trace pages (\<^verbatim>\<open>style.css\<close> in \<^verbatim>\<open>internal/nettrace/http.go\<close>), as rules; and its text,
  up to white space and to the comments, which \<^verbatim>\<open>html/template\<close> removes. Shown: every variable that is used is
  declared, in the light scheme and in the dark one.
\<close>

section \<open>The style sheet\<close>

datatype css =
    Rule string "(string \<times> string) list"
  | Media string "css list"

definition light_colors :: "(string \<times> string) list" where
  "light_colors =
    [(''--text-color'', ''black''), (''--bg-color'', ''#fffff7''), (''--zebra-bg-color'', ''#eeeee7''),
     (''--muted-color'', ''#444''), (''--xmuted-color'', ''#a1a1a1''), (''--link-color'', ''#39c''),
     (''--link-hover'', ''#069''), (''--underline-color'', ''grey''), (''--error-color'', ''red''),
     (''--nested-d01-c00'', ''#ffebee''), (''--nested-d01-c01'', ''#ede7f6''),
     (''--nested-d01-c02'', ''#e3f2fd''), (''--nested-d01-c03'', ''#e8f5e9''),
     (''--nested-d01-c04'', ''#fff8e1''), (''--nested-d01-c05'', ''#efebe9''),
     (''--nested-d02-c00'', ''#f0dcdf''), (''--nested-d02-c01'', ''#ded8e7''),
     (''--nested-d02-c02'', ''#d4e3ee''), (''--nested-d02-c03'', ''#d9e6da''),
     (''--nested-d02-c04'', ''#f0e9d2''), (''--nested-d02-c05'', ''#e0dcda''),
     (''--nested-d03-c00'', ''#e1cdd0''), (''--nested-d03-c01'', ''#cfc9d8''),
     (''--nested-d03-c02'', ''#c5d4df''), (''--nested-d03-c03'', ''#cad7cb''),
     (''--nested-d03-c04'', ''#e1dac3''), (''--nested-d03-c05'', ''#d1cdcb'')]"

definition dark_colors :: "(string \<times> string) list" where
  "dark_colors =
    [(''--text-color'', ''rgba(255, 255, 255, 0.90)''), (''--bg-color'', ''#121212''),
     (''--zebra-bg-color'', ''#222222''), (''--muted-color'', ''#aaaaaa''),
     (''--xmuted-color'', ''#a1a1a1''), (''--link-color'', ''#44b4ec''), (''--link-hover'', ''#7fc9ee''),
     (''--underline-color'', ''grey''), (''--error-color'', ''#dd4747''),
     (''--nested-d01-c00'', ''#220212''), (''--nested-d01-c01'', ''#1c1c22''),
     (''--nested-d01-c02'', ''#001e20''), (''--nested-d01-c03'', ''#0f0301''),
     (''--nested-d01-c04'', ''#201d06''), (''--nested-d01-c05'', ''#00192b''),
     (''--nested-d02-c00'', ''#311121''), (''--nested-d02-c01'', ''#2b2b31''),
     (''--nested-d02-c02'', ''#0f2d2f''), (''--nested-d02-c03'', ''#1e1210''),
     (''--nested-d02-c04'', ''#2f2c15''), (''--nested-d02-c05'', ''#0f283a''),
     (''--nested-d03-c00'', ''#402030''), (''--nested-d03-c01'', ''#3a3a40''),
     (''--nested-d03-c02'', ''#1e3c3e''), (''--nested-d03-c03'', ''#2d211f''),
     (''--nested-d03-c04'', ''#3e3b24''), (''--nested-d03-c05'', ''#1e3749'')]"

definition style_sheet :: "css list" where
  "style_sheet =
    [Rule '':root'' light_colors,
     Media ''(prefers-color-scheme: dark)'' [Rule '':root'' dark_colors],
     Rule ''body'' [(''font-family'', ''sans-serif''), (''color'', ''var(--text-color)''), (''background'', ''var(--bg-color)'')],
     Rule ''p.error'' [(''color'', ''var(--error-color)''), (''font-size'', ''large'')],
     Rule ''a'' [(''color'', ''var(--link-color)''), (''text-decoration'', ''none'')],
     Rule ''a:hover'' [(''color'', ''var(--link-hover)'')],
     Rule ''.family a'' [(''color'', ''var(--text-color)'')],
     Rule ''u'' [(''text-decoration-color'', ''var(--underline-color)'')],
     Rule ''table.index'' [(''border-collapse'', ''collapse'')],
     Rule ''table.index tr:nth-child(odd)'' [(''background-color'', ''var(--zebra-bg-color)'')],
     Rule ''table.index td'' [(''padding'', ''0.25em 0.5em'')],
     Rule ''table.index td.bucket'' [(''min-width'', ''2em''), (''text-align'', ''center'')],
     Rule ''table.index td.active'' [(''min-width'', ''5em''), (''text-align'', ''right'')],
     Rule ''table.index a'' [(''text-decoration'', ''none'')],
     Rule ''a.muted'' [(''color'', ''var(--muted-color)'')],
     Rule ''table.trace'' [(''font-family'', ''monospace''), (''border-collapse'', ''collapse'')],
     Rule ''table.trace thead'' [(''border-bottom'', ''1px solid var(--text-color)'')],
     Rule ''table.trace th'' [(''text-align'', ''left''), (''padding'', ''0.1em 1em'')],
     Rule ''table.trace tr.title'' [(''font-weight'', ''bold'')],
     Rule ''table.trace td'' [(''padding'', ''0.1em 1em'')],
     Rule ''table.trace td.when'' [(''text-align'', ''right'')],
     Rule ''table.trace td.duration'' [(''text-align'', ''right''), (''white-space'', ''pre'')],
     Rule ''table.trace td.msg'' [(''white-space'', ''pre-wrap'')],
     Rule ''span.depth'' [(''color'', ''var(--xmuted-color)'')],
     Rule ''div.emoji'' [(''max-height'', ''1.3em''), (''overflow'', ''hidden'')],
     Rule ''table.latencies'' [(''text-align'', ''right'')],
     Rule ''table.latencies td'' [(''padding'', ''0 0.3em'')],
     Rule ''table.latencies th'' [(''text-align'', ''center'')],
     Rule ''meter'' [(''width'', ''15em'')]]"

primrec css_text :: "css \<Rightarrow> string" where
  "css_text (Rule sel decls) =
     sel @ '' { '' @ concat (map (\<lambda>(name, val). name @ '': '' @ val @ ''; '') decls) @ ''} ''"
| "css_text (Media query rules) = ''@media '' @ query @ '' { '' @ concat (map css_text rules) @ ''} ''"

definition style_css :: string where
  "style_css = concat (map css_text style_sheet)"

section \<open>Variables\<close>

fun var_refs :: "string \<Rightarrow> string list" where
  "var_refs [] = []"
| "var_refs (c # s) =
     (if has_prefix (c # s) ''var('' then takeWhile (\<lambda>x. x \<noteq> CHR '')'') (drop 4 (c # s)) # var_refs s else var_refs s)"

primrec css_vars :: "css \<Rightarrow> string list" where
  "css_vars (Rule sel decls) = concat (map (\<lambda>d. var_refs (snd d)) decls)"
| "css_vars (Media query rules) = concat (map css_vars rules)"

definition sheet_vars :: "string list" where
  "sheet_vars = concat (map css_vars style_sheet)"

text \<open>Every variable the rules use is declared, and the two schemes declare the same ones, each once.\<close>

lemma scheme_names: "map fst dark_colors = map fst light_colors"
  by (simp add: light_colors_def dark_colors_def)

lemma sheet_vars_declared: "list_all (\<lambda>v. v \<in> set (map fst light_colors)) sheet_vars"
  by code_simp

end
