(* ===== verification/Net_Pages.thy ===== *)
theory Net_Pages
  imports Net_Trace Net_Style Http_Server
begin

text \<open>
  \<^verbatim>\<open>internal/nettrace/http.go\<close>: what the page of the traces shows. \<open>render_page\<close> is \<^verbatim>\<open>RenderTraces\<close> up to
  the template: from the form and the store to a status and the data for the template, or a panic
  (\<open>None\<close>); \<open>render_traces\<close> adds the execution of the template, which is a parameter. The form is the
  one of \<open>Http_Server\<close>. The templates themselves are in \<open>Net_Templates\<close> and \<open>Net_Style\<close>.
\<close>

section \<open>All events of a trace and of those it refers to\<close>

record trace_and_event =
  te_trace :: addr
  te_event :: event
  te_depth :: nat

type_synonym gathered = "trace_and_event list \<times> string set"

text \<open>
  \<^verbatim>\<open>appendAllEvents\<close>: the events so far and the ids seen. The recursion goes into traces not seen
  yet, so the number of traces bounds its depth; \<open>None\<close> is running out of this fuel.
\<close>

primrec append_all_events :: "nat \<Rightarrow> trace list \<Rightarrow> nat \<Rightarrow> addr \<Rightarrow> gathered \<Rightarrow> gathered option" where
  "append_all_events 0 heap depth tr g = (if tc_id (heap ! tr) \<in> snd g then Some g else None)"
| "append_all_events (Suc fuel) heap depth tr g =
     (if tc_id (heap ! tr) \<in> snd g then Some g
      else let trevts = events (heap ! tr);
               evts = fst g @ map (\<lambda>e. \<lparr>te_trace = tr, te_event = e, te_depth = depth\<rparr>) trevts;
               sub_traces = List.map_filter ev_ref trevts
           in add_all (append_all_events fuel heap (depth + 1)) sub_traces (evts, insert (tc_id (heap ! tr)) (snd g)))"

definition before :: "trace_and_event \<Rightarrow> trace_and_event \<Rightarrow> bool" where
  "before x y \<longleftrightarrow> ev_when (te_event x) < ev_when (te_event y)"

definition all_events :: "trace list \<Rightarrow> addr \<Rightarrow> trace_and_event list option" where
  "all_events heap tr =
     map_option (\<lambda>g. go_sort before (fst g)) (append_all_events (length heap) heap 0 tr ([], {}))"

section \<open>The page\<close>

record page =
  pg_families :: "(string, family_traces) gomap"
  pg_family :: string
  pg_bucket :: int
  pg_bucket_str :: string
  pg_allgt :: bool
  pg_traces :: "addr list"
  pg_latencies :: "hist_snapshot option"
  pg_trace :: "addr option"
  pg_all_events :: "trace_and_event list"
  pg_error :: string

definition copy_families :: "store \<Rightarrow> (string, family_traces) gomap" where
  "copy_families st = st_families st"

definition first_page :: "http_request \<Rightarrow> store \<Rightarrow> page" where
  "first_page req st =
     (let all = form_value req ''all'' in
      \<lparr>pg_families = copy_families st, pg_family = [], pg_bucket = 0, pg_bucket_str = [],
       pg_allgt = (if all \<noteq> [] then (case parse_bool all of None \<Rightarrow> False | Some b \<Rightarrow> b) else True),
       pg_traces = [], pg_latencies = None, pg_trace = None, pg_all_events = [], pg_error = []\<rparr>)"

text \<open>\<^verbatim>\<open>goto render\<close> with a status and an error, or on to the next part.\<close>

type_synonym page_step = "(int \<times> page) + page"

definition page_error :: "int \<Rightarrow> string \<Rightarrow> page \<Rightarrow> page_step" where
  "page_error status err pg = Inl (status, pg\<lparr>pg_error := err\<rparr>)"

definition bucket_str :: "int \<Rightarrow> string" where
  "bucket_str i =
     (if i = -2 then ''errors'' else if i = -1 then ''active'' else show_duration (buckets ! nat i))"

definition bucket_part :: "http_request \<Rightarrow> store \<Rightarrow> family_traces \<Rightarrow> page \<Rightarrow> page_step option" where
  "bucket_part req st ft pg =
     (let bs = form_value req ''b'' in
      if bs = [] then Some (Inr pg)
      else case atoi bs of
             None \<Rightarrow> Some (page_error 400 ''Invalid bucket (not a number)'' pg)
           | Some i \<Rightarrow>
               if i < -2 \<or> i \<ge> int n_buckets then Some (page_error 400 ''Invalid bucket number'' pg)
               else map_option (\<lambda>trs. Inr (pg\<lparr>pg_bucket := i, pg_traces := trs, pg_bucket_str := bucket_str i\<rparr>))
                      (traces_for (st_heap st) i (pg_allgt pg) ft))"

definition family_part :: "http_request \<Rightarrow> store \<Rightarrow> page \<Rightarrow> page_step option" where
  "family_part req st pg =
     (let fam = form_value req ''fam'' in
      if fam = [] then Some (Inr pg)
      else case map_of (pg_families pg) fam of
             None \<Rightarrow> Some (page_error 404 ''Unknown family'' (pg\<lparr>pg_family := []\<rparr>))
           | Some ft \<Rightarrow> bucket_part req st ft (pg\<lparr>pg_family := fam\<rparr>))"

definition latency_part :: "http_request \<Rightarrow> page \<Rightarrow> page option" where
  "latency_part req pg =
     (if pg_family pg \<noteq> [] \<and> form_value req ''lat'' \<noteq> []
      then map_option (\<lambda>ft. pg\<lparr>pg_latencies := Some (latencies ft)\<rparr>) (map_of (pg_families pg) (pg_family pg))
      else Some pg)"

definition trace_part :: "http_request \<Rightarrow> store \<Rightarrow> page \<Rightarrow> page_step option" where
  "trace_part req st pg =
     (let traceID = form_value req ''trace'' in
      if traceID = [] then Some (Inr pg)
      else case find_in_families st traceID (form_value req ''ref'') of
             None \<Rightarrow> Some (page_error 404 ''Trace not found'' pg)
           | Some tr \<Rightarrow>
               map_option (\<lambda>evts. Inr (pg\<lparr>pg_trace := Some tr, pg_family := tc_family (st_heap st ! tr),
                                        pg_all_events := evts\<rparr>))
                 (all_events (st_heap st) tr))"

definition rendered :: "page_step \<Rightarrow> int \<times> page" where
  "rendered s = (case s of Inl r \<Rightarrow> r | Inr pg \<Rightarrow> (200, pg))"

definition render_page :: "http_request \<Rightarrow> store \<Rightarrow> (int \<times> page) option" where
  "render_page req st =
     (case family_part req st (first_page req st) of
        None \<Rightarrow> None
      | Some (Inl r) \<Rightarrow> Some r
      | Some (Inr pg) \<Rightarrow>
          (case latency_part req pg of
             None \<Rightarrow> None
           | Some pg \<Rightarrow> map_option rendered (trace_part req st pg)))"

text \<open>The template gives the body, or an error, on which the handler panics.\<close>

definition render_traces :: "(store \<Rightarrow> page \<Rightarrow> string + bytes) \<Rightarrow> http_request \<Rightarrow> store \<Rightarrow> (int \<times> bytes) option" where
  "render_traces exec req st =
     (case render_page req st of
        None \<Rightarrow> None
      | Some (status, pg) \<Rightarrow> (case exec st pg of Inl err \<Rightarrow> None | Inr body \<Rightarrow> Some (status, body)))"

section \<open>Functions of the template\<close>

text \<open>\<^verbatim>\<open>Duration.Round\<close>: half away from zero, saturating.\<close>

definition duration_round :: "duration \<Rightarrow> duration \<Rightarrow> duration" where
  "duration_round d m =
     (if m \<le> 0 then d
      else let r = \<bar>d\<bar> mod m in
        if d < 0 then (if 2 * r < m then d + r else max min_duration (d - m + r))
        else (if 2 * r < m then d - r else min max_duration (d + m - r)))"

definition round_duration :: "duration \<Rightarrow> duration" where
  "round_duration d = duration_round d millisecond"

text \<open>\<^verbatim>\<open>Duration.Seconds\<close>, and how the pages show seconds.\<close>

definition duration_seconds :: "duration \<Rightarrow> rat" where
  "duration_seconds d =
     (let sec = sgn d * (\<bar>d\<bar> div second); nsec = sgn d * (\<bar>d\<bar> mod second)
      in float64 (float64 (of_int sec) + float64 (float64 (of_int nsec) / 1000000000)))"

definition strip_zeros :: "duration \<Rightarrow> string" where
  "strip_zeros d =
     (if d < second
      then '' .'' @ pad_left 6 (show_int (truncate_rat (float64 (modf_frac (duration_seconds d) * 1000000))))
      else format_fixed 6 (duration_seconds d))"

definition round_seconds :: "duration \<Rightarrow> string" where
  "round_seconds d = format_fixed 6 (duration_seconds d)"

text \<open>\<^verbatim>\<open>crc32.ChecksumIEEE\<close>, bit by bit.\<close>

definition crc_bit :: "u32 \<Rightarrow> u32" where
  "crc_bit c = (if bit c 0 then xor (drop_bit 1 c) 0xEDB88320 else drop_bit 1 c)"

definition crc_byte :: "u32 \<Rightarrow> u8 \<Rightarrow> u32" where
  "crc_byte c b = (crc_bit ^^ 8) (xor c (ucast b))"

definition crc32 :: "bytes \<Rightarrow> u32" where
  "crc32 bs = not (foldl crc_byte (not 0) bs)"

text \<open>\<^verbatim>\<open>%02d\<close>.\<close>

definition pad2 :: "nat \<Rightarrow> string" where
  "pad2 n = (if n < 10 then ''0'' @ show_nat n else show_nat n)"

definition colorize :: "nat \<Rightarrow> string \<Rightarrow> string" where
  "colorize depth i =
     (if depth = 0 then ''rgba(var(--text-color))''
      else let depth = (if depth > 3 then 3 else depth);
               colori = crc32 (reply_bytes i) mod 6
           in ''var(--nested-d'' @ pad2 depth @ ''-c'' @ pad2 (unat colori) @ '')'')"

text \<open>UTF-8, and the middle dot with a space.\<close>

definition utf8 :: "nat \<Rightarrow> string" where
  "utf8 r = map char_of
     (if r < 0x80 then [r]
      else if r < 0x800 then [0xC0 + r div 0x40, 0x80 + r mod 0x40]
      else if r < 0x10000 then [0xE0 + r div 0x1000, 0x80 + r div 0x40 mod 0x40, 0x80 + r mod 0x40]
      else [0xF0 + r div 0x40000, 0x80 + r div 0x1000 mod 0x40, 0x80 + r div 0x40 mod 0x40, 0x80 + r mod 0x40])"

definition dot :: string where
  "dot = utf8 0xB7 @ '' ''"

definition depthspan :: "nat \<Rightarrow> string" where
  "depthspan depth =
     ''<span class=\"depth\">'' @
     (if depth = 0 then []
      else if depth = 1 then dot
      else if depth = 2 then dot @ dot
      else if depth = 3 then dot @ dot @ dot
      else if depth = 4 then dot @ dot @ dot @ dot
      else dot @ ''('' @ show_nat depth @ '') '' @ dot) @
     ''</span>''"

definition shorttitle :: "trace \<Rightarrow> string" where
  "shorttitle tr =
     (let all = tc_family tr @ '' - '' @ tc_title tr in
      if length all > 20 then ''...'' @ drop (length all - 17) all else all)"

definition emojids :: "nat list" where
  "emojids = [
   0x1F600, 0x1F923, 0x1F607, 0x1F970, 0x1F927, 0x1F608, 0x1F921, 0x1F47B,
   0x1F47D, 0x1F916, 0x1F44B, 0x270A, 0x1F9B4, 0x1F445, 0x1F412, 0x1F415,
   0x1F98A, 0x1F431, 0x1F42F, 0x1F40E, 0x1F404, 0x1F437, 0x1F411, 0x1F410,
   0x1F42A, 0x1F992, 0x1F418, 0x1F400, 0x1F987, 0x1F413, 0x1F986, 0x1F99A,
   0x1F99C, 0x1F422, 0x1F40D, 0x1F996, 0x1F40B, 0x1F41F, 0x1F988, 0x1F419,
   0x1F98B, 0x1F41C, 0x1F41D, 0x1FAB2, 0x1F33B, 0x1F332, 0x1F349, 0x1F34C,
   0x1F34D, 0x1F34E, 0x1F351, 0x1F955, 0x1F344, 0x1F9C0, 0x1F366, 0x1F370,
   0x1F9C9, 0x1F682, 0x1F697, 0x1F69C, 0x1F6F5, 0x1F6B2, 0x1F6FC, 0x1FA82,
   0x1F680, 0x1F31E, 0x1F308, 0x1F30A, 0x26BD]"

definition traceemoji :: "string \<Rightarrow> string" where
  "traceemoji i = utf8 (emojids ! unat (crc32 (reply_bytes i) mod of_nat (length emojids)))"

end
