(* ===== verification/Net_Durations.thy ===== *)
theory Net_Durations
  imports Net_Pages
begin

text \<open>
  How exact the pages of \<^verbatim>\<open>internal/nettrace/http.go\<close> show durations, which go through \<^verbatim>\<open>float64\<close>: the
  number of microseconds that \<open>round_seconds\<close> shows is the nearest one, and that of \<open>strip_zeros\<close> is the
  one below, or one less where the rounding falls short of it.
\<close>

section \<open>Seconds\<close>

lemma float64_error: "\<bar>float64 x - x\<bar> \<le> \<bar>x\<bar> / 9007199254740992"
  using round_float_error [of 53 x] by simp

lemma float64_int: "\<bar>n\<bar> < 9007199254740992 \<Longrightarrow> float64 (of_int n) = of_int n"
  using round_float_int [of n 53] by simp

text \<open>The error of \<^verbatim>\<open>Seconds\<close>, for durations of up to 11 days.\<close>

lemma duration_seconds_error:
  assumes "0 \<le> d" and "d \<le> 1000000 * second"
  shows "\<bar>duration_seconds d - of_int d / 1000000000\<bar> \<le> 1 / 8000000000" and "0 \<le> duration_seconds d"
    and "d < second \<Longrightarrow> \<bar>duration_seconds d - of_int d / 1000000000\<bar> \<le> 1 / 1000000000000000"
proof -
  define s where "s = d div second"
  define n where "n = d mod second"
  have s: "0 \<le> s" "s \<le> 1000000"
    using assms zdiv_mono1 [OF assms(2), of second] by (simp_all add: s_def pos_imp_zdiv_nonneg_iff)
  have n: "0 \<le> n" "n < second" by (simp_all add: n_def)
  have dsn: "d = second * s + n" by (simp add: s_def n_def)
  define x where "x = float64 (of_int n / 1000000000)"
  have sec: "duration_seconds d = float64 (of_int s + x)"
    using assms s n by (cases "d = 0") (simp_all add: duration_seconds_def Let_def x_def s_def n_def sgn_if float64_int)
  have fs: "0 \<le> (of_int s :: rat)" "(of_int s :: rat) \<le> 1000000" using s by simp_all
  have fn: "0 \<le> (of_int n :: rat) / 1000000000" "(of_int n :: rat) / 1000000000 \<le> 1" using n by simp_all
  have dr: "(of_int d :: rat) / 1000000000 = of_int s + of_int n / 1000000000" by (simp add: dsn add_divide_distrib)
  have x: "\<bar>x - of_int n / 1000000000\<bar> \<le> 1 / 9007199254740992" "0 \<le> x"
    using float64_error [of "of_int n / 1000000000"] fn round_float_nonneg [OF fn(1), of 53] by (simp_all add: x_def)
  show "0 \<le> duration_seconds d" using round_float_nonneg [of "of_int s + x" 53] fs x(2) by (simp add: sec)
  have e: "\<bar>duration_seconds d - (of_int s + x)\<bar> \<le> (of_int s + x) / 9007199254740992"
    using float64_error [of "of_int s + x"] fs x(2) by (simp add: sec)
  show "\<bar>duration_seconds d - of_int d / 1000000000\<bar> \<le> 1 / 8000000000"
    using e x fs fn unfolding dr abs_le_iff add_divide_distrib by (intro conjI; linarith)
  show "\<bar>duration_seconds d - of_int d / 1000000000\<bar> \<le> 1 / 1000000000000000" if "d < second"
  proof -
    have "s = 0" using that assms(1) by (simp add: s_def)
    then have "(of_int s :: rat) = 0" by simp
    with e x fn show ?thesis unfolding dr abs_le_iff add_divide_distrib by (intro conjI; linarith)
  qed
qed

section \<open>What is shown\<close>

text \<open>The microseconds \<open>strip_zeros\<close> shows of a duration below a second.\<close>

definition shown_micros :: "duration \<Rightarrow> int" where
  "shown_micros d = truncate_rat (float64 (modf_frac (duration_seconds d) * 1000000))"

lemma round_seconds_micros:
  assumes "0 \<le> d" and "d \<le> 1000000 * second"
  shows "\<bar>1000 * int (fixed_point 6 (duration_seconds d)) - d\<bar> \<le> 500"
proof -
  define s where "s = duration_seconds d"
  define k where "k = round_even (s * 1000000)"
  have s: "0 \<le> s" "\<bar>s - of_int d / 1000000000\<bar> \<le> 1 / 8000000000" using duration_seconds_error [OF assms] by (simp_all add: s_def)
  have "round_even 0 \<le> k" unfolding k_def using s(1) by (intro round_even_mono) simp
  then have "0 \<le> k" by (simp add: round_even_def)
  then have k: "int (fixed_point 6 s) = k" using s(1) by (simp add: fixed_point_def k_def)
  have "\<bar>of_int k - s * 1000000\<bar> \<le> 1 / 2" unfolding k_def by (rule round_even_near)
  with s have "\<bar>of_int (1000 * k - d)\<bar> < (501 :: rat)" unfolding of_int_diff of_int_mult of_int_numeral by linarith
  then have "\<bar>1000 * k - d\<bar> < 501" by (metis of_int_abs of_int_less_iff of_int_numeral)
  with k show ?thesis by (simp add: s_def)
qed

lemma truncate_rat_nonneg: "0 \<le> x \<Longrightarrow> truncate_rat x = \<lfloor>x\<rfloor>"
  by (simp add: truncate_rat_def)

lemma strip_zeros_micros:
  assumes "0 \<le> d" and "d < second"
  shows "d div 1000 - 1 \<le> shown_micros d" and "shown_micros d \<le> d div 1000"
proof -
  define s where "s = duration_seconds d"
  have "d \<le> 1000000 * second" using assms by simp
  from duration_seconds_error [OF assms(1) this] assms(2)
  have s: "0 \<le> s" "\<bar>s - of_int d / 1000000000\<bar> \<le> 1 / 1000000000000000" by (simp_all add: s_def)
  have d: "(of_int d :: rat) \<le> 999999999" using assms(2) by simp
  have "s < 1" using s d by linarith
  then have "modf_frac s = s" using s(1) by (simp add: modf_frac_def truncate_rat_nonneg floor_eq_iff)
  then have micros: "shown_micros d = truncate_rat (float64 (s * 1000000))" by (simp add: shown_micros_def s_def)
  define y where "y = float64 (s * 1000000)"
  have y: "0 \<le> y" "\<bar>y - s * 1000000\<bar> \<le> s * 1000000 / 9007199254740992"
    using round_float_nonneg [of "s * 1000000" 53] float64_error [of "s * 1000000"] s(1) by (simp_all add: y_def)
  have near: "\<bar>y - of_int d / 1000\<bar> < 1 / 1000" using y(2) s d \<open>s < 1\<close> by linarith
  define m where "m = d div 1000"
  have "1000 * m \<le> d" "d \<le> 1000 * m + 999" by (simp_all add: m_def)
  then have "(of_int (1000 * m) :: rat) \<le> of_int d" "(of_int d :: rat) \<le> of_int (1000 * m + 999)" by (simp_all only: of_int_le_iff)
  with near have "of_int m - 1 < y" "y < of_int m + 1" unfolding of_int_add of_int_mult of_int_numeral by linarith+
  then have "m - 1 \<le> \<lfloor>y\<rfloor>" "\<lfloor>y\<rfloor> \<le> m" by (simp_all add: le_floor_iff floor_le_iff)
  then show "d div 1000 - 1 \<le> shown_micros d" "shown_micros d \<le> d div 1000"
    using micros truncate_rat_nonneg [OF y(1)] by (simp_all add: m_def y_def)
qed

end
