(* ===== verification/Dnss_Monitoring.thy ===== *)
theory Dnss_Monitoring
  imports Prelude Go_Text
begin

text \<open>
  \<^verbatim>\<open>monitoring.go\<close>: the version of the program, and the lists of flags of the monitoring page. The build
  information, \<^verbatim>\<open>time.Parse\<close> (with the zero time for an error) and \<^verbatim>\<open>Time.Format\<close> are parameters.
\<close>

section \<open>The version\<close>

record build =
  bi_dirty :: bool
  bi_rev :: string
  bi_time :: string

text \<open>A step of the loop over the build settings, and \<^verbatim>\<open>init\<close>; without build information it panics.\<close>

definition build_setting :: "string \<times> string \<Rightarrow> build \<Rightarrow> build" where
  "build_setting s b =
     (if fst s = ''vcs.modified'' then (if snd s = ''true'' then b\<lparr>bi_dirty := True\<rparr> else b)
      else if fst s = ''vcs.time'' then b\<lparr>bi_time := snd s\<rparr>
      else if fst s = ''vcs.revision'' then b\<lparr>bi_rev := snd s\<rparr>
      else b)"

definition init_version ::
    "(string \<Rightarrow> instant) \<Rightarrow> (instant \<Rightarrow> string) \<Rightarrow> (string \<times> string) list option \<Rightarrow> (string \<times> instant) option" where
  "init_version parse_time format_date bi =
     (case bi of
        None \<Rightarrow> None
      | Some settings \<Rightarrow>
          (let b = fold build_setting settings \<lparr>bi_dirty = False, bi_rev = [], bi_time = []\<rparr>;
               sourceDate = parse_time (bi_time b);
               version = format_date sourceDate;
               version = (if bi_rev b \<noteq> [] then version @ ''-'' @ take 9 (bi_rev b) else version);
               version = (if bi_dirty b then version @ ''-dirty'' else version)
           in Some (version, sourceDate)))"

section \<open>The flags\<close>

text \<open>
  A flag of the \<^verbatim>\<open>flag\<close> package, and whether it has been set. \<^verbatim>\<open>VisitAll\<close> visits all of them by name, and
  \<^verbatim>\<open>Visit\<close> those that have been set: the list holds them by name.
\<close>

record go_flag =
  gf_name :: string
  gf_value :: string
  gf_set :: bool

definition flag_text :: "go_flag \<Rightarrow> string" where
  "flag_text f = ''-'' @ gf_name f @ ''='' @ gf_value f"

definition visit_set :: "go_flag \<Rightarrow> string list \<times> string set \<Rightarrow> string list \<times> string set" where
  "visit_set f = (\<lambda>(set_flags, visited). (set_flags @ [flag_text f], insert (gf_name f) visited))"

definition visit_unset :: "string set \<Rightarrow> go_flag \<Rightarrow> string list \<Rightarrow> string list" where
  "visit_unset visited f unset = (if gf_name f \<in> visited then unset else unset @ [flag_text f])"

definition flags_lists :: "go_flag list \<Rightarrow> string list \<times> string list" where
  "flags_lists fs =
     (let (set_flags, visited) = fold visit_set (filter gf_set fs) ([], {});
          unset = fold (visit_unset visited) fs []
      in (set_flags, unset))"

section \<open>What they show\<close>

lemma fold_visit_set: "fold visit_set fs (xs, vs) = (xs @ map flag_text fs, vs \<union> gf_name ` set fs)"
  by (induction fs arbitrary: xs vs) (auto simp: visit_set_def)

lemma fold_visit_unset:
  "fold (visit_unset vs) fs xs = xs @ map flag_text (filter (\<lambda>f. gf_name f \<notin> vs) fs)"
  by (induction fs arbitrary: xs) (auto simp: visit_unset_def)

text \<open>
  The monitoring page lists every flag once: those that have been set, and then the others, each by
  name.
\<close>

lemma flags_lists_partition:
  assumes "distinct (map gf_name fs)"
  shows "flags_lists fs = (map flag_text (filter gf_set fs), map flag_text (filter (\<lambda>f. \<not> gf_set f) fs))"
proof -
  have "gf_name f \<notin> gf_name ` set (filter gf_set fs) \<longleftrightarrow> \<not> gf_set f" if "f \<in> set fs" for f
    using assms that by (auto simp: distinct_map inj_on_def)
  then have "filter (\<lambda>f. gf_name f \<notin> gf_name ` set (filter gf_set fs)) fs = filter (\<lambda>f. \<not> gf_set f) fs"
    by (intro filter_cong) auto
  then show ?thesis by (simp add: flags_lists_def fold_visit_set fold_visit_unset)
qed

text \<open>
  The version names the revision by at most nine characters, and says when the build has changes
  that are not committed.
\<close>

lemma init_version_total: "(\<exists>v. init_version pt fd bi = Some v) \<longleftrightarrow> bi \<noteq> None"
  by (auto simp: init_version_def Let_def split: option.split)

end
