(* ===== verification/Monitoring_Page.thy ===== *)
theory Monitoring_Page
  imports Dnss_Monitoring Net_Pages
begin

text \<open>
  The index page of the monitoring server (\<^verbatim>\<open>htmlIndex\<close> of \<^verbatim>\<open>monitoring.go\<close>) as the text that is sent, with
  the escaping \<^verbatim>\<open>html/template\<close> gives to the values. \<^verbatim>\<open>Time.Format\<close> is a parameter. Shown: whatever the
  flags, the environment and the name of the host are, the links of the page are those of the
  template.
\<close>

section \<open>Escaping\<close>

text \<open>The bytes that are not sent as they are; a zero byte becomes U+FFFD.\<close>

definition escape_char :: "char \<Rightarrow> string" where
  "escape_char c =
     (if c = CHR 0x00 then [CHR 0xEF, CHR 0xBF, CHR 0xBD]
      else if c = CHR 0x22 then ''&#34;''
      else if c = CHR ''&'' then ''&amp;''
      else if c = CHR 0x27 then ''&#39;''
      else if c = CHR ''+'' then ''&#43;''
      else if c = CHR ''<'' then ''&lt;''
      else if c = CHR ''>'' then ''&gt;''
      else [c])"

definition escape_html :: "string \<Rightarrow> string" where
  "escape_html s = concat (map escape_char s)"

section \<open>The page\<close>

record index_data =
  ix_hostname :: string
  ix_version :: string
  ix_go_version :: string
  ix_source_date :: instant
  ix_start_time :: instant
  ix_args :: "string list"
  ix_env :: "string list"
  ix_flags_set :: "string list"
  ix_flags_unset :: "string list"

text \<open>
  The data \<^verbatim>\<open>debugRoot\<close> collects: the host's name (empty for an error), the version and date of \<^verbatim>\<open>init\<close>, the
  version of Go, the clock, the arguments, the environment and the flags.
\<close>

definition index_data_of ::
    "string \<Rightarrow> string \<times> instant \<Rightarrow> string \<Rightarrow> instant \<Rightarrow> string list \<Rightarrow> string list \<Rightarrow> go_flag list \<Rightarrow> index_data" where
  "index_data_of hostname version go_version now args env fs =
     (let (fSet, fUnset) = flags_lists fs in
      \<lparr>ix_hostname = hostname, ix_version = fst version, ix_go_version = go_version,
       ix_source_date = snd version, ix_start_time = now, ix_args = args, ix_env = env,
       ix_flags_set = fSet, ix_flags_unset = fUnset\<rparr>)"

definition round_to_second :: "duration \<Rightarrow> duration" where
  "round_to_second d = duration_round d second"

definition text_lines :: "string list \<Rightarrow> string" where
  "text_lines ls = concat (map (\<lambda>l. l @ [CHR 0x0A]) ls)"

definition index_head :: string where
  "index_head = text_lines
     [''</title>'',
      ''<style type=\"text/css\">'',
      ''  body {'',
      ''    font-family: sans-serif;'',
      ''  }'',
      ''  @media (prefers-color-scheme: dark) {'',
      ''    body {'',
      ''      background: #121212;'',
      ''      color: #c9d1d9;'',
      ''    }'',
      ''    a { color: #44b4ec; }'',
      ''  }'',
      ''</style>'',
      ''</head>'',
      '''',
      ''<body>'']"

definition index_nav :: string where
  "index_nav = text_lines
     [''</i><br>'',
      ''  <p>'',
      '''',
      ''  <ul>'',
      ''    <li><a href=\"/debug/traces\">traces</a>'',
      ''    <li><a href=\"/debug/dnsserver/cache/dump\">cache dump</a>'',
      ''    <li><a href=\"/debug/pprof\">pprof</a>'',
      ''        <small><a href=\"https://golang.org/pkg/net/http/pprof/\">'',
      ''          (ref)</a></small>'',
      ''      <ul>'',
      ''        <li><a href=\"/debug/pprof/goroutine?debug=1\">goroutines</a>'',
      ''      </ul>'',
      ''    <li><a href=\"/debug/flags\">flags</a>'',
      ''    <li><a href=\"/debug/vars\">public variables</a>'',
      ''  </ul>'',
      '''',
      ''  <details>'',
      ''  <summary>flags</summary>'',
      ''  <ul>'']"

definition index_env :: string where
  "index_env = text_lines
     ['''',
      ''  </ul>'',
      ''  </details>'',
      ''  <p>'',
      '''',
      ''  <details>'',
      ''  <summary>env</summary>'']"

text \<open>A \<^verbatim>\<open>range\<close> over values, and the page as its pieces.\<close>

definition range_list :: "string \<Rightarrow> string list \<Rightarrow> string \<Rightarrow> string list" where
  "range_list a vs b = concat (map (\<lambda>v. [a, escape_html v, b]) vs)"

definition index_pieces :: "(string \<Rightarrow> instant \<Rightarrow> string) \<Rightarrow> instant \<Rightarrow> index_data \<Rightarrow> string list" where
  "index_pieces format now d =
     [text_lines [''<!DOCTYPE html>'', ''<html>'', '''', ''<head>'',
        ''<meta name=\"viewport\" content=\"width=device-width, initial-scale=1\">''],
      ''<title>dnss @'', escape_html (ix_hostname d), index_head,
      ''  <h1>dnss @'', escape_html (ix_hostname d), text_lines [''</h1>'', ''''],
      ''  version '', escape_html (ix_version d), text_lines [''<br>''],
      ''  source date '', escape_html (format ''2006-01-02 15:04:05 -0700'' (ix_source_date d)), text_lines [''<br>''],
      ''  built with: '', escape_html (ix_go_version d), text_lines [''<p>'', ''''],
      ''  started '', escape_html (format ''Mon, 2006-01-02 15:04:05 -0700'' (ix_start_time d)), text_lines [''<br>''],
      ''  up for '', escape_html (show_duration (round_to_second (time_sub now (ix_start_time d)))), text_lines [''<br>''],
      ''  os hostname <i>'', escape_html (ix_hostname d), index_nav]
     @ [''    ''] @ range_list ''<li><tt>'' (ix_flags_set d) ''</tt>''
     @ [text_lines [''''], ''    ''] @ range_list ''<li><i><tt>'' (ix_flags_unset d) ''</tt></i>''
     @ [index_env, ''  <ul> ''] @ range_list ''<li><tt>'' (ix_env d) ''</tt>''
     @ [text_lines ['' </ul>'', ''  </details>'', '''', ''</body>'', ''</html>'']]"

definition index_page :: "(string \<Rightarrow> instant \<Rightarrow> string) \<Rightarrow> instant \<Rightarrow> index_data \<Rightarrow> string" where
  "index_page format now d = concat (index_pieces format now d)"

section \<open>The links of a page\<close>

definition anchor :: string where
  "anchor = ''<a href='' @ [CHR 0x22]"

definition address_at :: "string \<Rightarrow> string" where
  "address_at s = takeWhile (\<lambda>c. c \<noteq> CHR 0x22) (drop (length anchor) s)"

fun hrefs :: "string \<Rightarrow> string list" where
  "hrefs [] = []"
| "hrefs (c # s) = (if has_prefix (c # s) anchor then address_at (c # s) # hrefs s else hrefs s)"

text \<open>Text in which no anchor goes on past the end.\<close>

fun anchors_closed :: "string \<Rightarrow> bool" where
  "anchors_closed [] = True"
| "anchors_closed (c # s) =
     ((if has_prefix (c # s) anchor then CHR 0x22 \<in> set (drop (length anchor) (c # s)) else \<not> has_prefix anchor (c # s))
      \<and> anchors_closed s)"

lemma takeWhile_append_in: "x \<in> set xs \<Longrightarrow> \<not> P x \<Longrightarrow> takeWhile P (xs @ ys) = takeWhile P xs"
  by (rule takeWhile_append1)

lemma has_prefix_append: "\<not> has_prefix p s \<Longrightarrow> has_prefix (s @ t) p = has_prefix s p"
  unfolding has_prefix_iff by (auto simp: append_eq_append_conv2)

lemma has_prefix_longer:
  assumes "has_prefix s p"
  shows "has_prefix (s @ t) p" and "drop (length p) (s @ t) = drop (length p) s @ t"
  using assms by (auto simp: has_prefix_iff)

lemma hrefs_append: "anchors_closed s \<Longrightarrow> hrefs (s @ t) = hrefs s @ hrefs t"
proof (induction s)
  case Nil
  then show ?case by simp
next
  case (Cons c s)
  show ?case
  proof (cases "has_prefix (c # s) anchor")
    case True
    then have "CHR 0x22 \<in> set (drop (length anchor) (c # s))" using Cons.prems by simp
    from takeWhile_append_in [OF this, of "\<lambda>c. c \<noteq> CHR 0x22" t] have "address_at ((c # s) @ t) = address_at (c # s)"
      unfolding address_at_def has_prefix_longer(2) [OF True] by simp
    with has_prefix_longer(1) [OF True, of t] True Cons show ?thesis by simp
  next
    case False
    with Cons.prems have "\<not> has_prefix ((c # s) @ t) anchor" using has_prefix_append [of anchor "c # s" t] by simp
    with False Cons show ?thesis by simp
  qed
qed

lemma anchors_closed_append: "anchors_closed s \<Longrightarrow> anchors_closed t \<Longrightarrow> anchors_closed (s @ t)"
proof (induction s)
  case Nil
  then show ?case by simp
next
  case (Cons c s)
  show ?case
  proof (cases "has_prefix (c # s) anchor")
    case True
    with has_prefix_longer [OF True, of t] Cons show ?thesis by (simp del: drop_append)
  next
    case False
    with Cons.prems have "\<not> has_prefix ((c # s) @ t) anchor" "\<not> has_prefix anchor ((c # s) @ t)"
      using has_prefix_append [of anchor "c # s" t] has_prefix_iff [of anchor] by auto
    with False Cons show ?thesis by simp
  qed
qed

lemma hrefs_concat: "list_all anchors_closed ss \<Longrightarrow> hrefs (concat ss) = concat (map hrefs ss)"
  by (induction ss) (simp_all add: hrefs_append)

lemma hrefs_no_tag: "CHR ''<'' \<notin> set s \<Longrightarrow> hrefs s = [] \<and> anchors_closed s"
  by (induction s) (auto simp: anchor_def has_prefix_def)

lemma escape_html_no_tag: "CHR ''<'' \<notin> set (escape_html s)"
  by (auto simp: escape_html_def escape_char_def split: if_splits)

lemma hrefs_escaped [simp]: "hrefs (escape_html s) = []" "anchors_closed (escape_html s)"
  using hrefs_no_tag [OF escape_html_no_tag] by auto

lemma range_list_hrefs:
  assumes "hrefs b = []" "anchors_closed b" "hrefs a = []" "anchors_closed a"
  shows "concat (map hrefs (range_list b vs a)) = []" and "list_all anchors_closed (range_list b vs a)"
  using assms by (induction vs) (simp_all add: range_list_def)

section \<open>The links of the index page\<close>

lemma has_prefix_rec:
  "has_prefix s []" "\<not> has_prefix [] (d # p)" "has_prefix (c # s) (d # p) \<longleftrightarrow> c = d \<and> has_prefix s p"
  by (auto simp: has_prefix_def)

lemmas scan_simps = has_prefix_rec anchor_def address_at_def hrefs.simps anchors_closed.simps

lemma text_lines_links:
  "list_all anchors_closed ls \<Longrightarrow> anchors_closed (text_lines ls) \<and> hrefs (text_lines ls) = concat (map hrefs ls)"
proof (induction ls)
  case Nil
  then show ?case by (simp add: text_lines_def)
next
  case (Cons l ls)
  have nl: "anchors_closed [CHR 0x0A]" "hrefs [CHR 0x0A] = []" by (simp_all add: scan_simps)
  have "text_lines (l # ls) = l @ [CHR 0x0A] @ text_lines ls" by (simp add: text_lines_def)
  moreover have "hrefs (l @ [CHR 0x0A] @ text_lines ls) = hrefs l @ hrefs (text_lines ls)"
    using Cons.prems nl by (simp add: hrefs_append del: append.simps)
  ultimately show ?case using Cons nl by (simp add: anchors_closed_append del: append.simps)
qed

lemma index_static:
  "anchors_closed index_head" "hrefs index_head = []"
  unfolding index_head_def by (subst text_lines_links; simp add: scan_simps)+

lemma index_env_static:
  "anchors_closed index_env" "hrefs index_env = []"
  unfolding index_env_def by (subst text_lines_links; simp add: scan_simps)+

lemma index_nav_links:
  "anchors_closed index_nav"
  "hrefs index_nav = [''/debug/traces'', ''/debug/dnsserver/cache/dump'', ''/debug/pprof'',
     ''https://golang.org/pkg/net/http/pprof/'', ''/debug/pprof/goroutine?debug=1'', ''/debug/flags'', ''/debug/vars'']"
  unfolding index_nav_def by (subst text_lines_links; simp add: scan_simps)+

lemma hrefs_range:
  "list_all anchors_closed (range_list ''<li><tt>'' vs ''</tt>'')" "concat (map hrefs (range_list ''<li><tt>'' vs ''</tt>'')) = []"
  "list_all anchors_closed (range_list ''<li><i><tt>'' vs ''</tt></i>'')"
  "concat (map hrefs (range_list ''<li><i><tt>'' vs ''</tt></i>'')) = []"
  by (rule range_list_hrefs; simp add: scan_simps)+

text \<open>Whatever the values on the page are, its links are those of the template, in its order.\<close>

lemma index_page_links:
  "hrefs (index_page format now d) = [''/debug/traces'', ''/debug/dnsserver/cache/dump'', ''/debug/pprof'',
     ''https://golang.org/pkg/net/http/pprof/'', ''/debug/pprof/goroutine?debug=1'', ''/debug/flags'', ''/debug/vars'']"
proof -
  have lines: "hrefs (text_lines ls) = concat (map hrefs ls)" "anchors_closed (text_lines ls)" if "list_all anchors_closed ls" for ls
    using text_lines_links [OF that] by auto
  have texts: "hrefs (text_lines [''<!DOCTYPE html>'', ''<html>'', '''', ''<head>'',
        ''<meta name=\"viewport\" content=\"width=device-width, initial-scale=1\">'']) = []"
      "hrefs (text_lines [''</h1>'', '''']) = []" "hrefs (text_lines [''<br>'']) = []" "hrefs (text_lines [''<p>'', '''']) = []"
      "hrefs (text_lines ['''']) = []" "hrefs (text_lines ['' </ul>'', ''  </details>'', '''', ''</body>'', ''</html>'']) = []"
    by (subst lines(1); simp add: scan_simps)+
  have words: "hrefs ''  <h1>dnss @'' = []" "hrefs ''  version '' = []" "hrefs ''  source date '' = []"
      "hrefs ''<title>dnss @'' = []" "hrefs ''  built with: '' = []" "hrefs ''  started '' = []" "hrefs ''  up for '' = []"
      "hrefs ''  os hostname <i>'' = []" "hrefs ''    '' = []" "hrefs ''  <ul> '' = []"
    by (simp_all add: scan_simps)
  have "list_all anchors_closed (index_pieces format now d)"
    unfolding index_pieces_def by (simp add: lines(2) hrefs_range index_static index_env_static index_nav_links scan_simps)
  moreover have "concat (map hrefs (index_pieces format now d)) = hrefs index_nav"
    unfolding index_pieces_def
    by (simp only: map_append list.map concat_append concat.simps texts words hrefs_range hrefs_escaped index_static
        index_env_static append_Nil append_Nil2)
  ultimately show ?thesis unfolding index_page_def by (simp add: hrefs_concat index_nav_links)
qed

end
