(* ===== verification/Net_Templates.thy ===== *)
theory Net_Templates
  imports Net_Pages
begin

text \<open>
  The templates of \<^verbatim>\<open>internal/nettrace/http.go\<close>: from the data of the page to its HTML. \<open>Raw\<close> is markup of
  the template, up to the white space that HTML does not show; \<open>Txt\<close> is a value, which
  \<^verbatim>\<open>html/template\<close> escapes; and \<open>Link\<close> is an \<^verbatim>\<open>a\<close> element with the parameters of its address, whether it
  has the class \<^verbatim>\<open>muted\<close>, and its content. \<open>None\<close> is an error of the execution, which a reference
  to a trace that is not there would be. \<^verbatim>\<open>Time.Format\<close> and the shortest text of a \<^verbatim>\<open>float32\<close> (\<open>%v\<close>) are in
  \<open>tmpl_funcs\<close>, and \<open>now\<close> is the clock, for the durations of the active traces.
\<close>

datatype html =
    Raw string
  | Txt string
  | Link "(string \<times> string) list" bool "html list"

record tmpl_funcs =
  tf_format :: "string \<Rightarrow> instant \<Rightarrow> string"
  tf_shortest :: "rat \<Rightarrow> string"

definition show_bool :: "bool \<Rightarrow> string" where
  "show_bool b = (if b then ''true'' else ''false'')"

definition html_if :: "bool \<Rightarrow> html list \<Rightarrow> html list" where
  "html_if c h = (if c then h else [])"

text \<open>A reference in a template: an error when there is none.\<close>

definition deref :: "addr option \<Rightarrow> (addr \<Rightarrow> html list) \<Rightarrow> html list option" where
  "deref r f = map_option f r"

text \<open>The concatenation of a \<^verbatim>\<open>range\<close> whose bodies may fail.\<close>

fun concat_opt :: "'a list option list \<Rightarrow> 'a list option" where
  "concat_opt [] = Some []"
| "concat_opt (x # xs) =
     (case x of
        None \<Rightarrow> None
      | Some h \<Rightarrow> map_option (\<lambda>t. h @ t) (concat_opt xs))"

section \<open>Latencies\<close>

definition latency_row :: "tmpl_funcs \<Rightarrow> string \<Rightarrow> hist_line \<Rightarrow> html list" where
  "latency_row F family l =
     [Raw ''<tr><td>'',
      Link [(''fam'', family), (''b'', show_nat (ln_bucket_idx l))] (ln_count l = 0) [Raw ''&ge;'', Txt (show_duration (ln_start l))],
      Raw ''</td><td>'', Txt (show_nat (unat (ln_count l))),
      Raw ''</td><td>'', Txt (pad_left 5 (format_fixed 2 (ln_percent l))),
      Raw ''%</td><td><meter max=\"100\" value=\"'', Txt (tf_shortest F (ln_percent l)), Raw ''\">'',
      Txt (format_fixed 2 (ln_percent l)), Raw ''%</meter><td>'',
      Txt (pad_left 5 (format_fixed 2 (ln_cum_pct l))), Raw ''%</td></tr>'']"

text \<open>\<^verbatim>\<open>range\<close> goes over a map by its keys.\<close>

definition latency_tmpl :: "tmpl_funcs \<Rightarrow> string \<Rightarrow> hist_snapshot \<Rightarrow> html list" where
  "latency_tmpl F family s =
     [Raw ''<table class=\"latencies\"><tr><td>Count: '', Txt (show_nat (unat (sn_count s))),
      Raw ''</td><td>Avg: '', Txt (show_duration (round_duration (sn_avg s))),
      Raw ''</td><td>Min: '', Txt (show_duration (round_duration (sn_min s))),
      Raw ''</td><td>Max: '', Txt (show_duration (round_duration (sn_max s))),
      Raw ''</td></tr></table><p>'',
      Raw ''<table class=\"latencies\"><tr><th>Bucket</th><th>Count</th><th>%</th><th></th><th>Cumulative</th></tr>'']
     @ concat (map (latency_row F family \<circ> snd) (go_sort (\<lambda>x y. fst x < fst y) (sn_counts s)))
     @ [Raw ''</table>'']"

section \<open>A trace with all its events\<close>

definition title_attr :: "tmpl_funcs \<Rightarrow> trace \<Rightarrow> html list" where
  "title_attr F tr =
     [Txt (tc_family tr), Raw '' - '', Txt (tc_title tr), Raw '' @ '',
      Txt (tf_format F ''2006-01-02 15:04:05.999999'' (tc_start tr))]"

definition recursive_msg :: "trace list \<Rightarrow> trace_and_event \<Rightarrow> html list option" where
  "recursive_msg heap te =
     (let e = te_event te;
          ref_of = (\<lambda>r. [(''trace'', tc_id (heap ! r)), (''ref'', tc_id (heap ! te_trace te))])
      in case ev_type e of
           EvtLog \<Rightarrow> Some [Txt (ev_msg e)]
         | EvtChild \<Rightarrow> deref (ev_ref e) (\<lambda>r. [Raw ''new child: '',
             Link (ref_of r) False [Txt (tc_family (heap ! r)), Raw '' - '', Txt (tc_title (heap ! r))]])
         | EvtLink \<Rightarrow> deref (ev_ref e) (\<lambda>r. [Link (ref_of r) False [Txt (ev_msg e)]])
         | EvtDrop \<Rightarrow> Some [Raw ''<b><i>[ events dropped ]</i></b>''])"

definition recursive_row :: "tmpl_funcs \<Rightarrow> trace list \<Rightarrow> instant \<Rightarrow> trace_and_event \<Rightarrow> html list option" where
  "recursive_row F heap prev te =
     (let tr = heap ! te_trace te in
      map_option (\<lambda>msg.
        [Raw ''<tr style=\"background: '', Raw (colorize (te_depth te) (tc_id tr)), Raw ('';\"><td title='' @ [CHR 0x27])] @ title_attr F tr
        @ [Raw (CHR 0x27 # ''>''), Txt (shorttitle tr), Raw ''</td><td class=\"when\">'',
           Txt (tf_format F ''15:04:05.000000'' (ev_when (te_event te))), Raw ''</td><td class=\"duration\">'',
           Txt (strip_zeros (time_sub (ev_when (te_event te)) prev)), Raw ''</td><td class=\"emoji\" title='', Raw [CHR 0x27]] @ title_attr F tr
        @ [Raw [CHR 0x27], Raw ''><div class=\"emoji\">'', Txt (traceemoji (tc_id tr)), Raw ''</div></td><td class=\"msg\">'',
           Raw (depthspan (te_depth te))] @ msg @ [Raw ''</td></tr>''])
      (recursive_msg heap te))"

fun recursive_rows :: "tmpl_funcs \<Rightarrow> trace list \<Rightarrow> instant \<Rightarrow> trace_and_event list \<Rightarrow> html list option" where
  "recursive_rows F heap prev [] = Some []"
| "recursive_rows F heap prev (te # tes) =
     (case recursive_row F heap prev te of
        None \<Rightarrow> None
      | Some h \<Rightarrow> map_option (\<lambda>t. h @ t) (recursive_rows F heap (ev_when (te_event te)) tes))"

definition recursive_tmpl :: "tmpl_funcs \<Rightarrow> trace list \<Rightarrow> addr \<Rightarrow> trace_and_event list \<Rightarrow> html list option" where
  "recursive_tmpl F heap a evts =
     (let tr = heap ! a in
      map_option (\<lambda>rows.
        (case tc_parent tr of
           None \<Rightarrow> []
         | Some p \<Rightarrow> [Link [(''trace'', tc_id (heap ! p)), (''ref'', tc_id tr)] False
             [Raw ''Parent: '', Txt (tc_family (heap ! p)), Raw '' - '', Txt (tc_title (heap ! p))], Raw ''<p>''])
        @ [Raw ''<table class=\"trace\"><thead><tr><th>Trace</th><th>Timestamp</th><th>Elapsed (s)</th><th></th><th>Message</th></tr></thead><tbody>'']
        @ rows @ [Raw ''</tbody></table>''])
      (recursive_rows F heap (tc_start tr) evts))"

section \<open>A trace of a bucket\<close>

definition single_msg :: "trace list \<Rightarrow> addr \<Rightarrow> event \<Rightarrow> html list option" where
  "single_msg heap a e =
     (let ref_of = (\<lambda>r. [(''trace'', tc_id (heap ! r)), (''ref'', tc_id (heap ! a))])
      in case ev_type e of
           EvtLog \<Rightarrow> Some [Txt (ev_msg e)]
         | EvtChild \<Rightarrow> deref (ev_ref e) (\<lambda>r. [Raw ''new child '',
             Link (ref_of r) False [Txt (tc_family (heap ! r)), Raw '' '', Txt (tc_title (heap ! r))]])
         | EvtLink \<Rightarrow> deref (ev_ref e) (\<lambda>r. [Link (ref_of r) False [Txt (ev_msg e)]])
         | EvtDrop \<Rightarrow> Some [Raw ''<i>[ events dropped ]</i>''])"

fun single_rows :: "tmpl_funcs \<Rightarrow> trace list \<Rightarrow> addr \<Rightarrow> instant \<Rightarrow> event list \<Rightarrow> html list option" where
  "single_rows F heap a prev [] = Some []"
| "single_rows F heap a prev (e # es) =
     (case single_msg heap a e of
        None \<Rightarrow> None
      | Some msg \<Rightarrow>
          map_option (\<lambda>t.
            [Raw ''<tr><td class=\"when\">'', Txt (tf_format F ''15:04:05.000000'' (ev_when e)),
             Raw ''</td><td class=\"duration\">'', Txt (strip_zeros (time_sub (ev_when e) prev)),
             Raw ''</td><td class=\"msg\">''] @ msg @ [Raw ''</td></tr>''] @ t)
          (single_rows F heap a (ev_when e) es))"

definition single_tmpl :: "tmpl_funcs \<Rightarrow> instant \<Rightarrow> trace list \<Rightarrow> addr \<Rightarrow> html list option" where
  "single_tmpl F now heap a =
     (let tr = heap ! a in
      map_option (\<lambda>rows.
        [Raw ''<tr class=\"title\"><td class=\"when\">'', Txt (tf_format F ''2006-01-02 15:04:05.000000'' (tc_start tr)),
         Raw ''</td><td class=\"duration\">'', Txt (round_seconds (duration_of now tr)), Raw ''</td><td>'',
         Link [(''trace'', tc_id tr)] False [Txt (tc_title tr)]]
        @ (case tc_parent tr of
             None \<Rightarrow> []
           | Some p \<Rightarrow> [Raw ''(parent: '', Link [(''trace'', tc_id (heap ! p)), (''ref'', tc_id tr)] False
               [Txt (tc_family (heap ! p)), Raw '' - '', Txt (tc_title (heap ! p))], Raw '')''])
        @ [Raw ''</td><tr>''] @ rows @ [Raw ''<tr><td>&nbsp;</td></tr>''])
      (single_rows F heap a (tc_start tr) (events tr)))"

section \<open>The index\<close>

definition page_title :: "trace list \<Rightarrow> page \<Rightarrow> html list" where
  "page_title heap pg =
     (case pg_trace pg of
        Some tr \<Rightarrow> [Txt (tc_family (heap ! tr)), Raw '' - '', Txt (tc_title (heap ! tr))]
      | None \<Rightarrow>
          if pg_bucket_str pg \<noteq> [] then [Txt (pg_family pg), Raw '' - '', Txt (pg_bucket_str pg)]
          else if pg_latencies pg \<noteq> None then [Txt (pg_family pg), Raw '' - latency'']
          else [Raw ''Traces''])"

text \<open>A link, underlined when it is where the page is.\<close>

definition here :: "bool \<Rightarrow> html list \<Rightarrow> html list" where
  "here c h = html_if c [Raw ''<u>''] @ h @ html_if c [Raw ''</u>'']"

definition bucket_cell :: "page \<Rightarrow> string \<Rightarrow> family_traces \<Rightarrow> nat \<Rightarrow> html list" where
  "bucket_cell pg name ftr i =
     [Raw ''<td class=\"bucket\">'']
     @ here (name = pg_family pg \<and> show_duration (buckets ! i) = pg_bucket_str pg)
         [Link [(''fam'', name), (''b'', show_nat i), (''all'', show_bool (pg_allgt pg))] (len_bucket ftr i = 0)
            [Raw ''&ge;'', Txt (show_duration (buckets ! i))]]
     @ [Raw ''</td>'']"

definition family_row :: "page \<Rightarrow> string \<times> family_traces \<Rightarrow> html list" where
  "family_row pg = (\<lambda>(name, ftr).
     [Raw ''<tr><td class=\"family\">'',
      Link [(''fam'', name), (''b'', ''0''), (''all'', ''true'')] False (here (name = pg_family pg) [Txt name]),
      Raw ''</td><td class=\"bucket active\">'']
     @ here (name = pg_family pg \<and> ''active'' = pg_bucket_str pg)
         [Link [(''fam'', name), (''b'', ''-1''), (''all'', show_bool (pg_allgt pg))] (len_active ftr = 0)
            [Txt (show_nat (len_active ftr)), Raw '' active'']]
     @ [Raw ''</td>'']
     @ concat (map (bucket_cell pg name ftr) [0..<n_buckets])
     @ [Raw ''<td class=\"bucket\">'']
     @ here (name = pg_family pg \<and> ''errors'' = pg_bucket_str pg)
         [Link [(''fam'', name), (''b'', ''-2''), (''all'', show_bool (pg_allgt pg))] (len_errors ftr = 0) [Raw ''errors'']]
     @ [Raw ''</td><td class=\"bucket\">'',
        Link [(''fam'', name), (''lat'', ''true''), (''all'', show_bool (pg_allgt pg))] False [Raw ''[latency]''],
        Raw ''</td></tr>''])"

definition show_links :: "page \<Rightarrow> html list" where
  "show_links pg =
     [Raw ''<br>Show: '',
      Link [(''fam'', pg_family pg), (''b'', show_int (pg_bucket pg)), (''all'', ''false'')] False
        (html_if (\<not> pg_allgt pg) [Raw ''<u>''] @ [Raw ''Only in bucket'']),
      Raw (if pg_allgt pg then [] else ''</u>''), Raw '' / '',
      Link [(''fam'', pg_family pg), (''b'', show_int (pg_bucket pg)), (''all'', ''true'')] False
        (html_if (pg_allgt pg) [Raw ''<u>''] @ [Raw ''All &ge; bucket'']),
      Raw (if pg_allgt pg then ''</u>'' else []), Raw ''<p>'']"

definition index_tmpl :: "tmpl_funcs \<Rightarrow> instant \<Rightarrow> store \<Rightarrow> page \<Rightarrow> html list option" where
  "index_tmpl F now st pg =
     (let heap = st_heap st;
          names = go_sort string_less (map fst (pg_families pg))
      in do {
        traces \<leftarrow> (if pg_bucket_str pg \<noteq> [] 
                   then concat_opt (map (\<lambda>a. map_option (\<lambda>h. h @ [Raw ''<p>'']) (single_tmpl F now heap a)) (pg_traces pg))
                   else Some []);
        tree \<leftarrow> (case pg_trace pg of None \<Rightarrow> Some [] | Some a \<Rightarrow> recursive_tmpl F heap a (pg_all_events pg));
        Some (
          [Raw ''<!DOCTYPE html><html lang=\"en\"><head><style>'', Raw style_css, Raw ''</style><title>'']
          @ page_title heap pg
          @ [Raw ''</title></head><body><h1>Traces</h1><table class=\"index\">'']
          @ concat (map (\<lambda>name. family_row pg (name, the (map_of (pg_families pg) name))) names)
          @ [Raw ''</table>''] @ show_links pg
          @ html_if (pg_error pg \<noteq> []) [Raw ''<p class=\"error\">Error: '', Txt (pg_error pg), Raw ''</p>'']
          @ html_if (pg_bucket_str pg \<noteq> [])
              ([Raw ''<h2>'', Txt (pg_family pg), Raw '' - '', Txt (pg_bucket_str pg),
                Raw ''</h2><table class=\"trace\"><thead><tr><th>Timestamp</th><th>Elapsed (s)</th><th>Message</th></tr></thead>'',
                Raw ''<tbody><tr><td>&nbsp;</td></tr>''] @ traces @ [Raw ''</tbody></table><p>''])
          @ (case pg_latencies pg of
               None \<Rightarrow> []
             | Some l \<Rightarrow> [Raw ''<h2>'', Txt (pg_family pg), Raw '' - latency</h2>''] @ latency_tmpl F (pg_family pg) l @ [Raw ''<p>''])
          @ (case pg_trace pg of
               None \<Rightarrow> []
             | Some a \<Rightarrow> [Raw ''<h2>'', Txt (tc_family (heap ! a)), Raw '' - <i>'', Txt (tc_title (heap ! a)), Raw ''</i></h2>'']
                 @ tree @ [Raw ''<p>''])
          @ [Raw ''</body></html>''])
      })"

end
