(* ===== verification/Net_History.thy ===== *)
theory Net_History
  imports Net_Lookup
begin

text \<open>
  What a family keeps, from the order in which its traces finished: each bucket and the errors have
  the last ten traces that belong there, oldest first, and the latency histogram has counted the
  latency of each finished trace, in order.
\<close>

section \<open>The order of finishing\<close>

definition is_done :: "store \<Rightarrow> addr \<Rightarrow> bool" where
  "is_done st a \<longleftrightarrow> valid st a \<and> tc_end (st_heap st ! a) \<noteq> 0"

definition newly_done :: "store \<Rightarrow> store \<Rightarrow> addr list" where
  "newly_done st st' = filter (\<lambda>a. is_done st' a \<and> \<not> is_done st a) [0..<length (st_heap st')]"

text \<open>A run of the store, with the traces in the order in which they finished in it.\<close>

inductive finish_order :: "addr list \<Rightarrow> store \<Rightarrow> bool" where
  nothing: "finish_order [] empty_store"
| step: "finish_order fin st \<Longrightarrow> net_step st st' \<Longrightarrow> finish_order (fin @ newly_done st st') st'"

lemma finish_order_reachable: "finish_order fin st \<Longrightarrow> net_reachable st"
  by (induction rule: finish_order.induct) (auto intro: net_reachable_step simp: net_reachable_def)

lemma net_reachable_order: "net_reachable st \<Longrightarrow> \<exists>fin. finish_order fin st"
  unfolding net_reachable_def
  by (induction rule: rtranclp_induct) (blast intro: finish_order.intros)+

section \<open>Steps that finish nothing\<close>

definition family_or_new :: "store \<Rightarrow> string \<Rightarrow> family_traces" where
  "family_or_new st f = (case map_of (st_families st) f of None \<Rightarrow> new_family_traces | Some ft \<Rightarrow> ft)"

text \<open>The rings and the histogram of every family stay, and so does what they rest on.\<close>

definition same_done :: "store \<Rightarrow> addr \<Rightarrow> trace \<Rightarrow> bool" where
  "same_done st a tr \<longleftrightarrow> tc_family tr = tc_family (st_heap st ! a) \<and> tc_start tr = tc_start (st_heap st ! a)
     \<and> tc_end tr = tc_end (st_heap st ! a)
     \<and> (tc_end (st_heap st ! a) \<noteq> 0 \<longrightarrow> tc_is_error tr = tc_is_error (st_heap st ! a))"

definition quiet :: "store \<Rightarrow> store \<Rightarrow> bool" where
  "quiet st st' \<longleftrightarrow> length (st_heap st) \<le> length (st_heap st')
     \<and> (\<forall>a < length (st_heap st). same_done st a (st_heap st' ! a))
     \<and> (\<forall>a < length (st_heap st'). length (st_heap st) \<le> a \<longrightarrow> tc_end (st_heap st' ! a) = 0)
     \<and> (\<forall>f. \<exists>x. family_or_new st' f = (family_or_new st f)\<lparr>ft_active := x\<rparr>)"

lemma family_same: "\<exists>x. (ft :: family_traces) = ft\<lparr>ft_active := x\<rparr>"
  by (rule exI [of _ "ft_active ft"]) simp

lemma quiet_trans:
  assumes "quiet st st1" and "quiet st1 st2"
  shows "quiet st st2"
proof -
  have "\<exists>x. family_or_new st2 f = (family_or_new st f)\<lparr>ft_active := x\<rparr>" for f
  proof -
    obtain x y where "family_or_new st1 f = (family_or_new st f)\<lparr>ft_active := x\<rparr>"
        "family_or_new st2 f = (family_or_new st1 f)\<lparr>ft_active := y\<rparr>"
      using assms unfolding quiet_def by blast
    then have "family_or_new st2 f = (family_or_new st f)\<lparr>ft_active := y\<rparr>" by simp
    then show ?thesis by blast
  qed
  moreover have "tc_end (st_heap st2 ! a) = 0" if "a < length (st_heap st2)" "length (st_heap st) \<le> a" for a
    using assms that by (cases "a < length (st_heap st1)") (auto simp: quiet_def same_done_def)
  ultimately show ?thesis using assms by (auto simp: quiet_def same_done_def)
qed

lemma quiet_update:
  assumes "same_done st a tr"
  shows "quiet st (st\<lparr>st_heap := (st_heap st)[a := tr]\<rparr>)"
proof -
  have "same_done st b ((st_heap st)[a := tr] ! b)" if "b < length (st_heap st)" for b
    using assms that by (cases "b = a") (simp_all add: same_done_def)
  then show ?thesis using family_same by (simp add: quiet_def family_or_new_def)
qed

lemma quiet_append: "trace_append e a st = Some st' \<Longrightarrow> quiet st st'"
  by (auto simp: trace_append_def append_event_def same_done_def Let_def split: if_splits intro!: quiet_update)

lemma quiet_new: "quiet st (snd (new_trace now rnd family title st))"
  using family_same by (auto simp: quiet_def new_trace_def Let_def nth_append same_done_def family_or_new_def)

lemma quiet_child: "new_child now rnd now2 family title a st = Some (c, st') \<Longrightarrow> quiet st st'"
proof -
  assume new: "new_child now rnd now2 family title a st = Some (c, st')"
  define st1 where "st1 = snd (new_trace now rnd family title st)"
  define st2 where "st2 = on_trace (\<lambda>tr. tr\<lparr>tc_parent := Some a\<rparr>) (fst (new_trace now rnd family title st)) st1"
  have "trace_append (child_event now2 (fst (new_trace now rnd family title st))) a st2 = Some st'"
    using new by (auto simp: new_child_def st1_def st2_def split: prod.splits)
  moreover have "quiet st1 st2" unfolding st2_def on_trace_def by (intro quiet_update) (simp add: same_done_def)
  ultimately show "quiet st st'" using quiet_new quiet_append quiet_trans st1_def by metis
qed

lemma net_step_quiet:
  assumes "net_step st st'"
  obtains (quiet) "quiet st st'"
  | (finish) a now where "open_trace st a" "tc_start (st_heap st ! a) \<le> now" "finish_trace now a st = Some st'"
  using assms
proof cases
  case (created now rnd family title)
  then show ?thesis using quiet quiet_new by blast
next
  case (child now rnd family a now2 title c)
  then show ?thesis using quiet quiet_child by blast
next
  case (logged a now msg)
  then show ?thesis using quiet quiet_append by (auto simp: printf_trace_def)
next
  case (linked a b now msg)
  then show ?thesis using quiet quiet_append by (auto simp: link_traces_def)
next
  case (errored a)
  then have "quiet st st'" unfolding on_trace_def
    by (auto intro!: quiet_update simp: same_done_def set_error_def open_trace_def)
  then show ?thesis by (rule quiet)
next
  case (resized a n)
  then have "quiet st st'" unfolding on_trace_def
    by (auto intro!: quiet_update simp: same_done_def set_max_events_def Let_def)
  then show ?thesis by (rule quiet)
next
  case (finished a now)
  then show ?thesis using finish by blast
qed

lemma quiet_done:
  assumes "quiet st st'"
  shows "is_done st' = is_done st"
proof
  show "is_done st' a = is_done st a" for a
    using assms by (cases "a < length (st_heap st)") (auto simp: is_done_def valid_def quiet_def same_done_def)
qed

lemma newly_done_quiet: "quiet st st' \<Longrightarrow> newly_done st st' = []"
  by (simp add: newly_done_def quiet_done)

section \<open>What the families have kept\<close>

definition in_family :: "trace list \<Rightarrow> string \<Rightarrow> addr \<Rightarrow> bool" where
  "in_family heap f a \<longleftrightarrow> tc_family (heap ! a) = f"

definition last_finished :: "trace list \<Rightarrow> addr list \<Rightarrow> string \<Rightarrow> int \<Rightarrow> addr list" where
  "last_finished heap fin f b = lastn 10 (filter (\<lambda>a. in_family heap f a \<and> find_bucket (latency (heap ! a)) = b) fin)"

definition last_errors :: "trace list \<Rightarrow> addr list \<Rightarrow> string \<Rightarrow> addr list" where
  "last_errors heap fin f = lastn 10 (filter (\<lambda>a. in_family heap f a \<and> tc_is_error (heap ! a)) fin)"

definition finished_latencies :: "trace list \<Rightarrow> addr list \<Rightarrow> string \<Rightarrow> duration list" where
  "finished_latencies heap fin f = map (\<lambda>a. latency (heap ! a)) (filter (in_family heap f) fin)"

definition has_kept :: "trace list \<Rightarrow> addr list \<Rightarrow> string \<Rightarrow> family_traces \<Rightarrow> bool" where
  "has_kept heap fin f ft \<longleftrightarrow>
     (\<forall>b < 8. trace_ring_do (ft_finished ft ! b) = last_finished heap fin f (int b))
     \<and> trace_ring_do (ft_errors ft) = last_errors heap fin f
     \<and> hist_add_all (finished_latencies heap fin f) empty_histogram = Some (ft_latencies ft)"

definition order_ok :: "addr list \<Rightarrow> store \<Rightarrow> bool" where
  "order_ok fin st \<longleftrightarrow> set fin = Collect (is_done st) \<and> distinct fin
     \<and> (\<forall>f. has_kept (st_heap st) fin f (family_or_new st f))"

lemma has_kept_active: "has_kept heap fin f (ft\<lparr>ft_active := x\<rparr>) = has_kept heap fin f ft"
  by (simp add: has_kept_def)

lemma has_kept_cong:
  assumes "\<And>a. a \<in> set fin \<Longrightarrow> tc_family (heap' ! a) = tc_family (heap ! a) \<and> tc_start (heap' ! a) = tc_start (heap ! a)
      \<and> tc_end (heap' ! a) = tc_end (heap ! a) \<and> tc_is_error (heap' ! a) = tc_is_error (heap ! a)"
  shows "has_kept heap' fin f ft = has_kept heap fin f ft"
proof -
  have same: "in_family heap' f a = in_family heap f a" "latency (heap' ! a) = latency (heap ! a)"
      "tc_is_error (heap' ! a) = tc_is_error (heap ! a)" if "a \<in> set fin" for a
    using assms [OF that] by (simp_all add: in_family_def latency_def)
  have "last_finished heap' fin f b = last_finished heap fin f b" for b
    unfolding last_finished_def using same by (intro arg_cong [of _ _ "lastn 10"] filter_cong) auto
  moreover have "last_errors heap' fin f = last_errors heap fin f"
    unfolding last_errors_def using same by (intro arg_cong [of _ _ "lastn 10"] filter_cong) auto
  moreover have "finished_latencies heap' fin f = finished_latencies heap fin f"
    unfolding finished_latencies_def using same by (intro map_cong filter_cong) auto
  ultimately show ?thesis by (simp add: has_kept_def)
qed

lemma has_kept_new: "has_kept heap [] f new_family_traces"
proof -
  have "trace_ring_do (new_trace_ring 10 :: addr trace_ring) = []"
    by (rule trace_ring_do_shape [of _ 10]) (simp add: new_trace_ring_def)
  then show ?thesis
    by (simp add: has_kept_def new_family_traces_def last_finished_def last_errors_def finished_latencies_def)
qed

lemma order_ok_quiet:
  assumes "order_ok fin st" and "quiet st st'"
  shows "order_ok fin st'"
proof -
  have fin: "a \<in> set fin \<longleftrightarrow> is_done st a" for a using assms(1) by (auto simp: order_ok_def)
  have old: "same_done st a (st_heap st' ! a)" if "a < length (st_heap st)" for a
    using assms(2) that by (auto simp: quiet_def)
  note quiet_done [OF assms(2)]
  moreover have "has_kept (st_heap st') fin f (family_or_new st' f)" for f
  proof -
    obtain x where x: "family_or_new st' f = (family_or_new st f)\<lparr>ft_active := x\<rparr>"
      using assms(2) unfolding quiet_def by blast
    have "has_kept (st_heap st') fin f (family_or_new st f) = has_kept (st_heap st) fin f (family_or_new st f)"
      using old by (intro has_kept_cong) (auto simp: fin is_done_def valid_def same_done_def)
    with assms(1) show ?thesis by (simp add: x has_kept_active order_ok_def)
  qed
  ultimately show ?thesis using assms(1) by (simp add: order_ok_def)
qed

section \<open>Finishing a trace\<close>

lemma hist_add_all_snoc:
  "hist_add_all ts h = Some h1 \<Longrightarrow> hist_add_all (ts @ [t]) h = hist_add (find_bucket t) t h1"
  by (induction ts arbitrary: h) (auto split: option.splits)

lemma ring_keeps_last:
  assumes "trace_ring_wf 10 r" and "trace_ring_do r = lastn 10 xs" and "trace_ring_add a r = Some r'"
  shows "trace_ring_do r' = lastn 10 (xs @ [a])"
  using trc.add_contents [OF assms(1,3)] assms(2) by (simp add: lastn_append_lastn)

lemma finalize_cases:
  assumes "finalize tr a ft = Some ft'"
  obtains r er h b where "find_bucket (latency tr) = int b" "b < length (ft_finished ft)"
    "trace_ring_add a (ft_finished ft ! b) = Some r"
    "if tc_is_error tr then trace_ring_add a (ft_errors ft) = Some er else er = ft_errors ft"
    "hist_add (find_bucket (latency tr)) (latency tr) (ft_latencies ft) = Some h"
    "ft_finished ft' = (ft_finished ft)[b := r]" "ft_errors ft' = er" "ft_latencies ft' = h"
proof -
  define b where "b = nat (find_bucket (latency tr))"
  from assms have b: "find_bucket (latency tr) = int b" "b < length (ft_finished ft)"
    by (auto simp: finalize_def Let_def latency_def b_def split: if_splits)
  from assms show ?thesis
    unfolding finalize_def Let_def latency_def [symmetric] using b
    by (auto split: option.splits if_splits intro!: that [of b])
qed

lemma has_kept_finished:
  assumes kept: "has_kept heap fin f ft" and fam: "family_ok heap0 f0 ft" and new: "heap ! a = tr" "tc_family tr = f"
    and fin: "finalize tr a ft = Some ft'"
  shows "has_kept heap (fin @ [a]) f ft'"
  using fin
proof (cases rule: finalize_cases)
  case (1 r er h b)
  have wf: "trace_ring_wf 10 (ft_finished ft ! b)" "trace_ring_wf 10 (ft_errors ft)" "length (ft_finished ft) = 8"
    using fam 1(2) by (simp_all add: family_ok_def)
  have mine: "in_family heap f a" "latency (heap ! a) = latency tr" using new by (simp_all add: in_family_def)
  have "trace_ring_do (ft_finished ft' ! c) = last_finished heap (fin @ [a]) f (int c)" if c: "c < 8" for c
  proof -
    have old: "trace_ring_do (ft_finished ft ! c) = last_finished heap fin f (int c)" using kept c by (simp add: has_kept_def)
    show ?thesis
    proof (cases "c = b")
      case True
      with old ring_keeps_last [OF wf(1) _ 1(3)] 1(1,2,6) mine show ?thesis by (simp add: last_finished_def)
    next
      case False
      with old 1(1,6) mine show ?thesis by (simp add: last_finished_def)
    qed
  qed
  moreover have "trace_ring_do (ft_errors ft') = last_errors heap (fin @ [a]) f"
  proof (cases "tc_is_error tr")
    case True
    with kept ring_keeps_last [OF wf(2)] 1(4,7) mine new(1) show ?thesis by (simp add: has_kept_def last_errors_def)
  next
    case False
    with kept 1(4,7) new(1) show ?thesis by (simp add: has_kept_def last_errors_def)
  qed
  moreover have "hist_add_all (finished_latencies heap (fin @ [a]) f) empty_histogram = Some (ft_latencies ft')"
    using kept 1(5,8) mine by (simp add: has_kept_def finished_latencies_def hist_add_all_snoc)
  ultimately show ?thesis by (simp add: has_kept_def)
qed

lemma has_kept_other:
  assumes "has_kept heap fin f ft" and "tc_family (heap ! a) \<noteq> f"
  shows "has_kept heap (fin @ [a]) f ft"
  using assms by (simp add: has_kept_def last_finished_def last_errors_def finished_latencies_def in_family_def)

lemma finish_trace_cases:
  assumes "finish_trace now a st = Some st'" and "valid st a"
  obtains tr ft ft' where "tr = (st_heap st ! a)\<lparr>tc_end := now\<rparr>" "map_of (st_families st) (tc_family tr) = Some ft"
    "finalize tr a ft = Some ft'" "st_heap st' = (st_heap st)[a := tr]"
    "st_families st' = gm_set (tc_family tr) ft' (st_families st)"
proof -
  define tr where "tr = (st_heap st ! a)\<lparr>tc_end := now\<rparr>"
  have heap: "(st_heap st)[a := tr] ! a = tr" using assms(2) by (simp add: valid_def)
  obtain ft where ft: "map_of (st_families st) (tc_family tr) = Some ft"
    using assms(1) heap by (auto simp: finish_trace_def on_trace_def Let_def tr_def [symmetric] split: option.splits)
  then obtain ft' where "finalize tr a ft = Some ft'"
      "st' = st\<lparr>st_heap := (st_heap st)[a := tr], st_families := gm_set (tc_family tr) ft' (st_families st)\<rparr>"
    using assms(1) heap by (auto simp: finish_trace_def on_trace_def Let_def tr_def [symmetric])
  with ft show ?thesis by (intro that [of tr ft ft']) (simp_all add: tr_def)
qed

lemma order_ok_finish:
  assumes ok: "order_ok fin st" and inv: "store_inv st" and a: "open_trace st a" "tc_start (st_heap st ! a) \<le> now"
    and step: "finish_trace now a st = Some st'"
  shows "order_ok (fin @ newly_done st st') st'"
proof -
  have valid: "valid st a" "tc_end (st_heap st ! a) = 0" using a(1) by (simp_all add: open_trace_def)
  from step valid(1) obtain tr ft ft' where tr: "tr = (st_heap st ! a)\<lparr>tc_end := now\<rparr>"
      and ft: "map_of (st_families st) (tc_family tr) = Some ft" "finalize tr a ft = Some ft'"
      and st': "st_heap st' = (st_heap st)[a := tr]" "st_families st' = gm_set (tc_family tr) ft' (st_families st)"
    by (rule finish_trace_cases)
  have "0 < tc_start (st_heap st ! a)" using inv valid(1) by (simp add: store_inv_def trace_ok_def valid_def)
  with a(2) have now: "now \<noteq> 0" by simp
  have here: "st_heap st' ! a = tr" using valid(1) by (simp add: st'(1) valid_def)
  have finished: "is_done st' c \<longleftrightarrow> is_done st c \<or> c = a" for c
    using valid(1) now by (cases "c = a") (auto simp: is_done_def valid_def st'(1) tr)
  have "\<not> is_done st a" using valid(2) by (simp add: is_done_def)
  then have new: "newly_done st st' = [a]"
  proof -
    have "filter (\<lambda>c. is_done st' c \<and> \<not> is_done st c) [0..<n] = (if a < n then [a] else [])" for n
      using \<open>\<not> is_done st a\<close> by (induction n) (auto simp: finished less_Suc_eq)
    then show ?thesis using valid(1) by (simp add: newly_done_def st'(1) valid_def)
  qed
  have set: "c \<in> set fin \<longleftrightarrow> is_done st c" for c using ok by (auto simp: order_ok_def)
  have kept: "has_kept (st_heap st') fin f (family_or_new st f)" for f
  proof -
    have "has_kept (st_heap st') fin f (family_or_new st f) = has_kept (st_heap st) fin f (family_or_new st f)"
    proof (rule has_kept_cong)
      fix c assume "c \<in> set fin"
      with \<open>\<not> is_done st a\<close> have "c \<noteq> a" using set by auto
      then show "tc_family (st_heap st' ! c) = tc_family (st_heap st ! c) \<and> tc_start (st_heap st' ! c) = tc_start (st_heap st ! c)
          \<and> tc_end (st_heap st' ! c) = tc_end (st_heap st ! c) \<and> tc_is_error (st_heap st' ! c) = tc_is_error (st_heap st ! c)"
        by (simp add: st'(1))
    qed
    with ok show ?thesis by (simp add: order_ok_def)
  qed
  have "has_kept (st_heap st') (fin @ [a]) f (family_or_new st' f)" for f
  proof (cases "f = tc_family tr")
    case True
    have "family_ok (st_heap st) f ft" using inv ft(1) True by (simp add: store_inv_def)
    moreover have "family_or_new st f = ft" "family_or_new st' f = ft'" using ft(1) True by (simp_all add: family_or_new_def st'(2))
    ultimately show ?thesis using kept [of f] has_kept_finished [OF _ _ here _ ft(2)] True by simp
  next
    case False
    then have "family_or_new st' f = family_or_new st f" by (simp add: family_or_new_def st'(2))
    with False kept [of f] show ?thesis by (simp add: has_kept_other here)
  qed
  moreover have "set (fin @ [a]) = Collect (is_done st')" using set by (auto simp: finished)
  moreover have "distinct (fin @ [a])" using ok set \<open>\<not> is_done st a\<close> by (simp add: order_ok_def)
  ultimately show ?thesis by (simp add: order_ok_def new)
qed

lemma finish_order_ok: "finish_order fin st \<Longrightarrow> order_ok fin st"
proof (induction rule: finish_order.induct)
  case nothing
  then show ?case by (simp add: order_ok_def is_done_def valid_def empty_store_def family_or_new_def has_kept_new)
next
  case (step fin st st')
  from step.hyps(2) show ?case
  proof (cases rule: net_step_quiet)
    case quiet
    with step.IH show ?thesis by (simp add: newly_done_quiet order_ok_quiet)
  next
    case (finish a now)
    with step order_ok_finish net_reachable_inv [OF finish_order_reachable] show ?thesis by blast
  qed
qed

lemma finish_order_kept:
  assumes "finish_order fin st" and "map_of (st_families st) f = Some ft"
  shows "has_kept (st_heap st) fin f ft"
  using finish_order_ok [OF assms(1)] assms(2) unfolding order_ok_def family_or_new_def by (metis option.simps(5))

section \<open>The traces of a bucket\<close>

interpretation newest: sort_less "newer heap" for heap
  by unfold_locales (auto simp: newer_def)

text \<open>
  What the page is to show for a bucket: the traces that are not finished (-1), the last ten that
  failed (-2), or the last ten with a latency of the bucket, and of each slower one if asked.
\<close>

definition open_in_family :: "trace list \<Rightarrow> string \<Rightarrow> addr list" where
  "open_in_family heap f = filter (\<lambda>a. in_family heap f a \<and> tc_end (heap ! a) = 0) [0..<length heap]"

definition bucket_traces :: "trace list \<Rightarrow> addr list \<Rightarrow> string \<Rightarrow> bool \<Rightarrow> int \<Rightarrow> addr list" where
  "bucket_traces heap fin f slower b =
     (if b = -2 then last_errors heap fin f
      else if b = -1 then open_in_family heap f
      else concat (map (last_finished heap fin f) (if slower then [b..7] else [b])))"

lemma mset_active:
  assumes "family_ok heap f ft"
  shows "mset (map snd (ft_active ft)) = mset (open_in_family heap f)"
proof -
  have wf: "gm_wf (ft_active ft)" using assms by (simp add: family_ok_def)
  have iff: "(i, a) \<in> set (ft_active ft) \<longleftrightarrow>
      a < length heap \<and> tc_id (heap ! a) = i \<and> tc_family (heap ! a) = f \<and> tc_end (heap ! a) = 0" for i a
    using assms gm_wf_set_iff [OF wf] by (simp add: family_ok_def)
  have "inj_on snd (set (ft_active ft))" using iff by (auto simp: inj_on_def)
  moreover have "distinct (ft_active ft)" using wf by (simp add: gm_wf_def distinct_map)
  ultimately have "distinct (map snd (ft_active ft))" by (simp add: distinct_map)
  moreover have "a \<in> set (map snd (ft_active ft)) \<longleftrightarrow> a \<in> set (open_in_family heap f)" for a
  proof -
    have "a \<in> set (map snd (ft_active ft)) \<longleftrightarrow> (\<exists>i. (i, a) \<in> set (ft_active ft))" by (auto simp: image_iff Bex_def)
    then show ?thesis unfolding iff by (simp add: open_in_family_def in_family_def)
  qed
  then have "set (map snd (ft_active ft)) = set (open_in_family heap f)" by blast
  ultimately show ?thesis
    by (subst set_eq_iff_mset_eq_distinct [symmetric]) (simp_all add: open_in_family_def)
qed

lemma slower_buckets:
  assumes "0 \<le> b" and "b < 8"
  shows "map int (nat b # [nat (b + 1)..<8]) = [b..7]"
proof -
  have "[nat b..<8] = nat b # [nat (b + 1)..<8]" using assms by (simp add: upt_conv_Cons nat_add_distrib)
  moreover have "map int [nat b..<8] = [b..7]"
    using assms by (intro nth_equalityI) (auto simp: nth_upto)
  ultimately show ?thesis by simp
qed

lemma traces_for_exact:
  assumes "finish_order fin st" and "map_of (st_families st) f = Some ft" and b: "-2 \<le> b" "b < 8"
  shows "\<exists>trs. traces_for (st_heap st) b slower ft = Some trs
    \<and> mset trs = mset (bucket_traces (st_heap st) fin f slower b)
    \<and> sorted_wrt (\<lambda>x y. tc_start (st_heap st ! y) \<le> tc_start (st_heap st ! x)) trs"
proof -
  note kept = finish_order_kept [OF assms(1,2)]
  have fam: "family_ok (st_heap st) f ft"
    using net_reachable_inv [OF finish_order_reachable [OF assms(1)]] assms(2) by (simp add: store_inv_def)
  define xs where "xs = (if b = -2 then trace_ring_do (ft_errors ft)
    else if b = -1 then map snd (ft_active ft)
    else trace_ring_do (ft_finished ft ! nat b)
      @ (if slower then concat (map (\<lambda>i. trace_ring_do (ft_finished ft ! i)) [nat (b + 1)..<8]) else []))"
  have "traces_for (st_heap st) b slower ft = Some (go_sort (newer (st_heap st)) xs)"
    using b by (auto simp: traces_for_def xs_def)
  moreover have "mset xs = mset (bucket_traces (st_heap st) fin f slower b)"
  proof (cases "b < 0")
    case True
    with b consider "b = -2" | "b = -1" by linarith
    then show ?thesis using kept mset_active [OF fam] by cases (simp_all add: xs_def bucket_traces_def has_kept_def)
  next
    case False
    have ring: "trace_ring_do (ft_finished ft ! i) = last_finished (st_heap st) fin f (int i)" if "i < 8" for i
      using kept that by (simp add: has_kept_def)
    have "concat (map (\<lambda>i. trace_ring_do (ft_finished ft ! i)) [nat (b + 1)..<8])
        = concat (map (last_finished (st_heap st) fin f) (map int [nat (b + 1)..<8]))"
      unfolding map_map comp_def using ring by (intro arg_cong [of _ _ concat] map_cong) auto
    moreover have "trace_ring_do (ft_finished ft ! nat b) = last_finished (st_heap st) fin f b"
      using False b ring [of "nat b"] by simp
    moreover have "b # map int [nat (b + 1)..<8] = [b..7]" using False b slower_buckets [of b] by simp
    then have "map (last_finished (st_heap st) fin f) [b..7]
        = last_finished (st_heap st) fin f b # map (last_finished (st_heap st) fin f) (map int [nat (b + 1)..<8])"
      by (metis list.simps(9))
    ultimately show ?thesis using False by (simp only: xs_def bucket_traces_def) simp
  qed
  moreover have "sorted_wrt (\<lambda>x y. tc_start (st_heap st ! y) \<le> tc_start (st_heap st ! x)) (go_sort (newer (st_heap st)) xs)"
    using newest.go_sort_sorted [of "st_heap st" xs] by (rule sorted_wrt_mono_rel [rotated]) (simp add: newer_def)
  ultimately show ?thesis by simp
qed

section \<open>A run with a finished trace\<close>

lemma demo_finish: "finish_trace 62135596800009000008 1 demo_open = Some demo_done" "kept demo_done 1" "valid demo_done 1"
proof -
  have start: "tc_start (st_heap demo_open ! 1) \<le> 62135596800009000008" using demo_open_child by simp
  note finishes = finish_trace_ok [OF net_reachable_inv [OF demo_reachable(2)] demo_open_trace(3) start]
  then obtain ft where fin: "finish_trace 62135596800009000008 1 demo_open = Some demo_done"
      and heap: "st_heap demo_done = (st_heap demo_open)[1 := (st_heap demo_open ! 1)\<lparr>tc_end := 62135596800009000008\<rparr>]"
      and ft: "map_of (st_families demo_done) (tc_family (st_heap demo_open ! 1)) = Some ft"
        "1 \<in> set (trace_ring_do (ft_finished ft ! nat (find_bucket (time_sub 62135596800009000008 (tc_start (st_heap demo_open ! 1))))))"
      and inv: "store_inv demo_done"
    by (auto simp: demo_done_def)
  show "finish_trace 62135596800009000008 1 demo_open = Some demo_done" by (rule fin)
  show v: "valid demo_done 1" using demo_open_trace(3) heap by (simp add: open_trace_def valid_def)
  have b: "nat (find_bucket (time_sub 62135596800009000008 (tc_start (st_heap demo_open ! 1)))) = 1"
    by (simp add: demo_open_child time_sub_def find_bucket_cases)
  have "family_ok (st_heap demo_done) (tc_family (st_heap demo_open ! 1)) ft" using inv ft(1) by (simp add: store_inv_def)
  then have "length (ft_finished ft) = 8" by (simp add: family_ok_def)
  with ft(2) have "keeps ft 1" unfolding b by (auto simp: keeps_def)
  moreover have "tc_family (st_heap demo_done ! 1) = tc_family (st_heap demo_open ! 1)"
    using v by (simp add: heap valid_def)
  ultimately show "kept demo_done 1" using ft(1) by (simp add: kept_def)
qed

lemma demo_heap:
  "st_heap demo_done = [st_heap demo_open ! 0, (st_heap demo_open ! 1)\<lparr>tc_end := 62135596800009000008\<rparr>]"
  "length (st_heap demo_open) = 2"
proof -
  show len: "length (st_heap demo_open) = 2" by (simp add: demo_eval)
  obtain tr where "tr = (st_heap demo_open ! 1)\<lparr>tc_end := 62135596800009000008\<rparr>" "st_heap demo_done = (st_heap demo_open)[1 := tr]"
    using finish_trace_cases [OF demo_finish(1)] demo_open_trace(3) by (metis open_trace_def)
  with len show "st_heap demo_done = [st_heap demo_open ! 0, (st_heap demo_open ! 1)\<lparr>tc_end := 62135596800009000008\<rparr>]"
    by (intro nth_equalityI) (auto simp: less_2_cases_iff)
qed

lemma demo_order: "finish_order [1] demo_done"
proof -
  have "net_step empty_store demo_start"
    unfolding demo_start_def by (rule net_step.created) (simp add: can_create_def empty_store_def)
  from finish_order.step [OF finish_order.nothing this] have start: "finish_order [] demo_start"
    unfolding demo_start_def by (simp add: newly_done_quiet [OF quiet_new])
  have child: "new_child 62135596800000000008 2 62135596800000000009 ''r'' ''u'' 0 demo_start = Some (1, demo_open)"
    by (simp add: demo_eval)
  have "can_create demo_start 62135596800000000008 2 ''r''" by (simp add: can_create_def demo_eval)
  from finish_order.step [OF start net_step.child [OF this demo_open_trace(1) child]] have "finish_order [] demo_open"
    by (simp add: newly_done_quiet [OF quiet_child [OF child]])
  moreover have "tc_start (st_heap demo_open ! 1) \<le> 62135596800009000008" using demo_open_child by simp
  then have "net_step demo_open demo_done" by (rule net_step.finished [OF demo_open_trace(3) _ demo_finish(1)])
  ultimately have "finish_order ([] @ newly_done demo_open demo_done) demo_done" by (rule finish_order.step)
  moreover have "newly_done demo_open demo_done = [1]"
    using demo_open_trace by (simp add: newly_done_def is_done_def valid_def demo_heap open_trace_def upt_rec)
  ultimately show ?thesis by simp
qed

end
