(* ===== verification/Net_Pages_Properties.thy ===== *)
theory Net_Pages_Properties
  imports Net_Pages Net_History
begin

text \<open>
  The page of a trace shows the events of the trace and of all it refers to, directly or not, each
  once and in the order of time; and no request makes the handler panic.
\<close>

section \<open>The exploration of the references\<close>

definition refers :: "trace list \<Rightarrow> addr \<Rightarrow> addr \<Rightarrow> bool" where
  "refers heap a b \<longleftrightarrow> (\<exists>e \<in> set (events (heap ! a)). ev_ref e = Some b)"

abbreviation tid :: "trace list \<Rightarrow> addr \<Rightarrow> string" where
  "tid heap a \<equiv> tc_id (heap ! a)"

definition untag :: "trace_and_event list \<Rightarrow> (addr \<times> event) list" where
  "untag xs = map (\<lambda>x. (te_trace x, te_event x)) xs"

definition events_of :: "trace list \<Rightarrow> addr list \<Rightarrow> (addr \<times> event) list" where
  "events_of heap as = concat (map (\<lambda>a. map (Pair a) (events (heap ! a))) as)"

lemma untag_append [simp]: "untag (xs @ ys) = untag xs @ untag ys"
  by (simp add: untag_def)

lemma events_of_append [simp]:
  "events_of heap [] = []" "events_of heap (a # as) = map (Pair a) (events (heap ! a)) @ events_of heap as"
  "events_of heap (as @ bs) = events_of heap as @ events_of heap bs"
  by (simp_all add: events_of_def)

text \<open>What a part of the exploration adds: the traces visited, in order.\<close>

definition gathers :: "trace list \<Rightarrow> addr list \<Rightarrow> gathered \<Rightarrow> gathered \<Rightarrow> bool" where
  "gathers heap as g g' \<longleftrightarrow>
     untag (fst g') = untag (fst g) @ events_of heap as
     \<and> snd g' = snd g \<union> tid heap ` set as
     \<and> distinct (map (tid heap) as) \<and> tid heap ` set as \<inter> snd g = {}
     \<and> (\<forall>x \<in> set as. x < length heap \<and> (\<forall>y. refers heap x y \<longrightarrow> tid heap y \<in> snd g'))"

lemma gathers_Nil: "gathers heap [] g g"
  by (simp add: gathers_def)

lemma gathers_trans: "gathers heap as g g1 \<Longrightarrow> gathers heap bs g1 g2 \<Longrightarrow> gathers heap (as @ bs) g g2"
  unfolding gathers_def by (auto simp: image_Un)

lemma gathers_Cons:
  assumes "tid heap a \<notin> snd g" and "a < length heap" and "untag evts = untag (fst g) @ events_of heap [a]"
    and "gathers heap as (evts, insert (tid heap a) (snd g)) g'"
    and "\<And>y. refers heap a y \<Longrightarrow> tid heap y \<in> snd g'"
  shows "gathers heap (a # as) g g'"
  using assms unfolding gathers_def by auto

definition closed_refs :: "trace list \<Rightarrow> bool" where
  "closed_refs heap \<longleftrightarrow> (\<forall>a < length heap. \<forall>b. refers heap a b \<longrightarrow> b < length heap)"

definition unseen :: "trace list \<Rightarrow> string set \<Rightarrow> nat" where
  "unseen heap seen = card (tid heap ` {..<length heap} - seen)"

lemma unseen_mono: "seen \<subseteq> seen' \<Longrightarrow> unseen heap seen' \<le> unseen heap seen"
  unfolding unseen_def by (intro card_mono) auto

lemma unseen_insert: "a < length heap \<Longrightarrow> tid heap a \<notin> seen \<Longrightarrow> unseen heap (insert (tid heap a) seen) < unseen heap seen"
  unfolding unseen_def by (intro psubset_card_mono) auto

definition explores :: "trace list \<Rightarrow> addr set \<Rightarrow> gathered \<Rightarrow> gathered \<Rightarrow> bool" where
  "explores heap A g g' \<longleftrightarrow> (\<exists>as. gathers heap as g g' \<and> (\<forall>a \<in> A. tid heap a \<in> snd g')
     \<and> (\<forall>x \<in> set as. \<exists>a \<in> A. (refers heap)\<^sup>*\<^sup>* a x))"

lemma explores_list:
  assumes "\<And>a g. a \<in> set bs \<Longrightarrow> unseen heap (snd g) \<le> k \<Longrightarrow> \<exists>g'. f a g = Some g' \<and> explores heap {a} g g'"
    and "unseen heap (snd g) \<le> k"
  shows "\<exists>g'. add_all f bs g = Some g' \<and> explores heap (set bs) g g'"
  using assms
proof (induction bs arbitrary: g)
  case Nil
  then show ?case by (auto simp: explores_def intro: gathers_Nil)
next
  case (Cons b bs)
  obtain g1 where g1: "f b g = Some g1" "explores heap {b} g g1"
    using Cons.prems(1) [of b g] Cons.prems(2) by auto
  then obtain as where as: "gathers heap as g g1" "tid heap b \<in> snd g1" "\<forall>x \<in> set as. (refers heap)\<^sup>*\<^sup>* b x"
    by (auto simp: explores_def)
  then have "unseen heap (snd g1) \<le> k"
    using Cons.prems(2) unseen_mono [of "snd g" "snd g1" heap] by (auto simp: gathers_def)
  with Cons.IH [of g1] Cons.prems(1) obtain g2 where g2: "add_all f bs g1 = Some g2" "explores heap (set bs) g1 g2"
    by auto
  then obtain cs where cs: "gathers heap cs g1 g2" "\<forall>a \<in> set bs. tid heap a \<in> snd g2"
      "\<forall>x \<in> set cs. \<exists>a \<in> set bs. (refers heap)\<^sup>*\<^sup>* a x"
    by (auto simp: explores_def)
  have "tid heap b \<in> snd g2" using as(2) cs(1) by (auto simp: gathers_def)
  with gathers_trans [OF as(1) cs(1)] as(3) cs(2,3) have "explores heap (set (b # bs)) g g2"
    unfolding explores_def by (intro exI [of _ "as @ cs"]) auto
  with g1(1) g2(1) show ?case by auto
qed

lemma set_map_filter: "set (List.map_filter f xs) = {y. \<exists>x \<in> set xs. f x = Some y}"
  by (induction xs) (auto simp: List.map_filter_def split: option.splits)

lemma append_all_events_explores:
  assumes "closed_refs heap"
  shows "a < length heap \<Longrightarrow> unseen heap (snd g) \<le> k \<Longrightarrow>
    \<exists>g'. append_all_events k heap d a g = Some g' \<and> explores heap {a} g g'"
proof (induction k arbitrary: a d g)
  case 0
  then have "tid heap a \<in> snd g" using unseen_insert [of a heap "snd g"] by fastforce
  then show ?case by (auto simp: explores_def intro: gathers_Nil)
next
  case (Suc k)
  show ?case
  proof (cases "tid heap a \<in> snd g")
    case True
    then show ?thesis by (auto simp: explores_def intro: gathers_Nil)
  next
    case False
    let ?evts = "fst g @ map (\<lambda>e. \<lparr>te_trace = a, te_event = e, te_depth = d\<rparr>) (events (heap ! a))"
    let ?subs = "List.map_filter ev_ref (events (heap ! a))" and ?seen = "insert (tid heap a) (snd g)"
    have subs: "b \<in> set ?subs \<longleftrightarrow> refers heap a b" for b by (simp add: set_map_filter refers_def)
    have "b \<in> set ?subs \<Longrightarrow> b < length heap" for b
      using assms Suc.prems(1) by (auto simp: subs closed_refs_def)
    moreover have "unseen heap ?seen \<le> k" using unseen_insert [OF Suc.prems(1) False] Suc.prems(2) by simp
    ultimately obtain g' where g': "add_all (append_all_events k heap (d + 1)) ?subs (?evts, ?seen) = Some g'"
        "explores heap (set ?subs) (?evts, ?seen) g'"
      using explores_list [of ?subs heap k "append_all_events k heap (d + 1)" "(?evts, ?seen)"] Suc.IH by auto
    then obtain as where as: "gathers heap as (?evts, ?seen) g'" "\<And>b. refers heap a b \<Longrightarrow> tid heap b \<in> snd g'"
        "\<forall>x \<in> set as. \<exists>b. refers heap a b \<and> (refers heap)\<^sup>*\<^sup>* b x"
      unfolding explores_def Ball_def Bex_def subs by blast
    have "gathers heap (a # as) g g'"
      using gathers_Cons [OF False Suc.prems(1) _ as(1,2)] by (simp add: untag_def comp_def)
    moreover have "\<forall>x \<in> set (a # as). (refers heap)\<^sup>*\<^sup>* a x" using as(3) by (auto intro: converse_rtranclp_into_rtranclp)
    moreover have "tid heap a \<in> snd g'" using as(1) by (auto simp: gathers_def)
    ultimately have "explores heap {a} g g'" unfolding explores_def by blast
    with False g'(1) show ?thesis by simp
  qed
qed

interpretation time_order: sort_less before
  by unfold_locales (auto simp: before_def)

lemma all_events_total:
  assumes "closed_refs heap" and "distinct (map tc_id heap)" and "a < length heap"
  shows "\<exists>evts as. all_events heap a = Some evts \<and> distinct as \<and> set as = {x. (refers heap)\<^sup>*\<^sup>* a x}
    \<and> mset (untag evts) = mset (events_of heap as)
    \<and> sorted_wrt (\<lambda>x y. ev_when (te_event x) \<le> ev_when (te_event y)) evts"
proof -
  have "unseen heap {} \<le> length heap"
    using card_image_le [of "{..<length heap}" "tid heap"] by (simp add: unseen_def)
  then obtain g' where g': "append_all_events (length heap) heap 0 a ([], {}) = Some g'" "explores heap {a} ([], {}) g'"
    using append_all_events_explores [OF assms(1,3), of "([], {})" "length heap" 0] by auto
  then obtain as where as: "gathers heap as ([], {}) g'" "tid heap a \<in> snd g'" "\<forall>x \<in> set as. (refers heap)\<^sup>*\<^sup>* a x"
    by (auto simp: explores_def)
  have uniq: "x < length heap \<Longrightarrow> y < length heap \<Longrightarrow> tid heap x = tid heap y \<Longrightarrow> x = y" for x y
    using assms(2) by (auto simp: distinct_conv_nth)
  have inas: "x \<in> set as" if "x < length heap" "tid heap x \<in> snd g'" for x
    using that as(1) uniq by (auto simp: gathers_def)
  have "(refers heap)\<^sup>*\<^sup>* a x \<Longrightarrow> x < length heap \<and> x \<in> set as" for x
  proof (induction rule: rtranclp_induct)
    case base
    with as(2) inas assms(3) show ?case by blast
  next
    case (step y z)
    then have "z < length heap" using assms(1) by (auto simp: closed_refs_def)
    moreover have "tid heap z \<in> snd g'" using step as(1) by (auto simp: gathers_def)
    ultimately show ?case using inas by blast
  qed
  with as(3) have "set as = {x. (refers heap)\<^sup>*\<^sup>* a x}" by auto
  moreover have "distinct as" using as(1) by (auto simp: gathers_def distinct_map)
  moreover have "untag (fst g') = events_of heap as" using as(1) by (simp add: gathers_def untag_def)
  moreover have "mset (untag (go_sort before (fst g'))) = mset (untag (fst g'))" by (simp add: untag_def)
  moreover have "sorted_wrt (\<lambda>x y. ev_when (te_event x) \<le> ev_when (te_event y)) (go_sort before (fst g'))"
    using time_order.go_sort_sorted [of "fst g'"] by (rule sorted_wrt_mono_rel [rotated]) (simp add: before_def)
  ultimately show ?thesis using g'(1)
    by (intro exI [of _ "go_sort before (fst g')"] exI [of _ as]) (simp add: all_events_def)
qed

lemma closed_refs_store: "refs_ok st \<Longrightarrow> closed_refs (st_heap st)"
  using refs_ok_ref [of st] by (auto simp: closed_refs_def refers_def valid_def)

section \<open>Requests\<close>

definition asks_bucket :: "http_request \<Rightarrow> bool" where
  "asks_bucket req \<longleftrightarrow> form_value req ''fam'' \<noteq> [] \<and> form_value req ''b'' \<noteq> []"

definition good_bucket :: "http_request \<Rightarrow> int \<Rightarrow> bool" where
  "good_bucket req i \<longleftrightarrow> atoi (form_value req ''b'') = Some i \<and> -2 \<le> i \<and> i < 8"

definition page_status :: "http_request \<Rightarrow> store \<Rightarrow> int" where
  "page_status req st =
     (if form_value req ''fam'' \<noteq> [] \<and> map_of (st_families st) (form_value req ''fam'') = None then 404
      else if asks_bucket req \<and> \<not> (\<exists>i. good_bucket req i) then 400
      else if form_value req ''trace'' \<noteq> [] \<and> find_in_families st (form_value req ''trace'') (form_value req ''ref'') = None then 404
      else 200)"

text \<open>The error that goes with the status.\<close>

definition page_message :: "http_request \<Rightarrow> store \<Rightarrow> string" where
  "page_message req st =
     (if page_status req st = 200 then []
      else if page_status req st = 400 then
        (if atoi (form_value req ''b'') = None then ''Invalid bucket (not a number)'' else ''Invalid bucket number'')
      else if form_value req ''fam'' \<noteq> [] \<and> map_of (st_families st) (form_value req ''fam'') = None then ''Unknown family''
      else ''Trace not found'')"

text \<open>Whether the slower buckets are asked for as well, which they are by default; the name of a bucket.\<close>

definition wants_slower :: "http_request \<Rightarrow> bool" where
  "wants_slower req \<longleftrightarrow> form_value req ''all'' \<in> {[], ''1'', ''t'', ''T'', ''TRUE'', ''true'', ''True''}"

definition bucket_label :: "int \<Rightarrow> string" where
  "bucket_label i = [''errors'', ''active'', ''0s'', ''5ms'', ''10ms'', ''50ms'', ''100ms'', ''300ms'', ''1s'', ''10s''] ! nat (i + 2)"

lemma bucket_names:
  "map show_duration buckets = [''0s'', ''5ms'', ''10ms'', ''50ms'', ''100ms'', ''300ms'', ''1s'', ''10s'']"
  by (simp add: buckets_def show_duration_def frac_digits_def low_digits_numeral show_nat.simps digit_char_def
      Let_def char_of_def bit_Suc_0_iff)

lemma bucket_str_label:
  assumes "-2 \<le> i" and "i < 8"
  shows "bucket_str i = bucket_label i"
proof (cases "i < 0")
  case True
  with assms(1) consider "i = -2" | "i = -1" by linarith
  then show ?thesis by cases (simp_all add: bucket_str_def bucket_label_def)
next
  case False
  have "length buckets = 8" by (simp add: buckets_def)
  with False assms(2) have "show_duration (buckets ! nat i) = map show_duration buckets ! nat i" by simp
  with False show ?thesis by (simp add: bucket_str_def bucket_label_def nat_add_distrib bucket_names del: nth_map)
qed

lemma first_page_slower: "pg_allgt (first_page req st) = wants_slower req"
  by (simp add: first_page_def wants_slower_def parse_bool_def Let_def)

text \<open>What the parts leave on the page, \<open>fin\<close> being the traces in the order in which they finished.\<close>

definition bucket_shown :: "addr list \<Rightarrow> http_request \<Rightarrow> store \<Rightarrow> page \<Rightarrow> bool" where
  "bucket_shown fin req st pg \<longleftrightarrow>
     (if asks_bucket req
      then \<exists>i. good_bucket req i \<and> pg_bucket pg = i \<and> pg_bucket_str pg = bucket_label i
         \<and> mset (pg_traces pg) = mset (bucket_traces (st_heap st) fin (form_value req ''fam'') (wants_slower req) i)
         \<and> sorted_wrt (\<lambda>x y. tc_start (st_heap st ! y) \<le> tc_start (st_heap st ! x)) (pg_traces pg)
      else pg_traces pg = [] \<and> pg_bucket pg = 0 \<and> pg_bucket_str pg = [])"

definition latencies_shown :: "addr list \<Rightarrow> http_request \<Rightarrow> store \<Rightarrow> page \<Rightarrow> bool" where
  "latencies_shown fin req st pg \<longleftrightarrow>
     (if form_value req ''fam'' \<noteq> [] \<and> form_value req ''lat'' \<noteq> []
      then \<exists>h. hist_add_all (finished_latencies (st_heap st) fin (form_value req ''fam'')) empty_histogram = Some h
         \<and> pg_latencies pg = Some (snapshot h)
      else pg_latencies pg = None)"

definition trace_shown :: "http_request \<Rightarrow> store \<Rightarrow> page \<Rightarrow> bool" where
  "trace_shown req st pg \<longleftrightarrow>
     (if form_value req ''trace'' \<noteq> []
      then \<exists>a. find_in_families st (form_value req ''trace'') (form_value req ''ref'') = Some a
         \<and> pg_trace pg = Some a \<and> pg_family pg = tc_family (st_heap st ! a)
         \<and> all_events (st_heap st) a = Some (pg_all_events pg)
      else pg_trace pg = None \<and> pg_family pg = form_value req ''fam'' \<and> pg_all_events pg = [])"

definition family_outcome :: "addr list \<Rightarrow> http_request \<Rightarrow> store \<Rightarrow> page_step \<Rightarrow> bool" where
  "family_outcome fin req st s \<longleftrightarrow>
    (case s of
       Inl (status, pg') \<Rightarrow> status = page_status req st \<and> status \<noteq> 200 \<and> pg_error pg' = page_message req st
     | Inr pg' \<Rightarrow>
         (form_value req ''fam'' \<noteq> [] \<longrightarrow> map_of (st_families st) (form_value req ''fam'') \<noteq> None)
         \<and> (asks_bucket req \<longrightarrow> (\<exists>i. good_bucket req i))
         \<and> bucket_shown fin req st pg' \<and> pg_family pg' = form_value req ''fam''
         \<and> pg_families pg' = st_families st \<and> pg_allgt pg' = wants_slower req \<and> pg_error pg' = []
         \<and> pg_latencies pg' = None \<and> pg_trace pg' = None \<and> pg_all_events pg' = [])"

lemma family_part_ok:
  assumes order: "finish_order fin st"
  shows "\<exists>s. family_part req st (first_page req st) = Some s \<and> family_outcome fin req st s"
proof -
  define pg where "pg = first_page req st"
  have pg: "pg_families pg = st_families st" "pg_error pg = []" "pg_family pg = []" "pg_allgt pg = wants_slower req"
      "pg_traces pg = []" "pg_bucket pg = 0" "pg_bucket_str pg = []" "pg_latencies pg = None" "pg_trace pg = None" "pg_all_events pg = []"
    using first_page_slower [of req st] by (simp_all add: pg_def first_page_def copy_families_def Let_def)
  consider (none) "form_value req ''fam'' = []"
    | (unknown) "form_value req ''fam'' \<noteq> []" "map_of (st_families st) (form_value req ''fam'') = None"
    | (known) ft where "form_value req ''fam'' \<noteq> []" "map_of (st_families st) (form_value req ''fam'') = Some ft"
    by blast
  then have "\<exists>s. family_part req st pg = Some s \<and> family_outcome fin req st s"
  proof cases
    case none
    with pg show ?thesis by (simp add: family_part_def family_outcome_def asks_bucket_def bucket_shown_def)
  next
    case unknown
    with pg(1) show ?thesis
      by (simp add: family_part_def family_outcome_def page_status_def page_message_def page_error_def Let_def)
  next
    case known
    let ?pg = "pg\<lparr>pg_family := form_value req ''fam''\<rparr>"
    have part: "family_part req st pg = bucket_part req st ft ?pg"
      using known pg(1) by (simp add: family_part_def Let_def)
    consider (whole) "\<not> asks_bucket req" | (bad) "asks_bucket req" "\<nexists>i. good_bucket req i"
      | (good) i where "asks_bucket req" "good_bucket req i" by blast
    then show ?thesis
    proof cases
      case whole
      with known pg show ?thesis
        by (simp add: part family_outcome_def bucket_part_def asks_bucket_def bucket_shown_def)
    next
      case bad
      then have "page_status req st = 400" using known by (simp add: page_status_def)
      with bad known show ?thesis
        by (cases "atoi (form_value req ''b'')")
          (auto simp: part family_outcome_def bucket_part_def asks_bucket_def good_bucket_def page_message_def page_error_def Let_def)
    next
      case good
      then have i: "atoi (form_value req ''b'') = Some i" "-2 \<le> i" "i < 8" by (simp_all add: good_bucket_def)
      obtain trs where trs: "traces_for (st_heap st) i (wants_slower req) ft = Some trs"
          "mset trs = mset (bucket_traces (st_heap st) fin (form_value req ''fam'') (wants_slower req) i)"
          "sorted_wrt (\<lambda>x y. tc_start (st_heap st ! y) \<le> tc_start (st_heap st ! x)) trs"
        using traces_for_exact [OF order known(2) i(2,3)] by blast
      let ?pg' = "?pg\<lparr>pg_bucket := i, pg_traces := trs, pg_bucket_str := bucket_str i\<rparr>"
      have "bucket_part req st ft ?pg = Some (Inr ?pg')"
        using good(1) i trs(1) pg(4) by (simp add: bucket_part_def asks_bucket_def Let_def)
      moreover have "bucket_shown fin req st ?pg'"
        using good trs(2,3) bucket_str_label [OF i(2,3)] by (auto simp: bucket_shown_def)
      ultimately show ?thesis using known good pg by (auto simp: part family_outcome_def)
    qed
  qed
  then show ?thesis by (simp add: pg_def)
qed

lemma latency_part_ok:
  assumes order: "finish_order fin st"
    and known: "form_value req ''fam'' \<noteq> [] \<Longrightarrow> map_of (st_families st) (form_value req ''fam'') \<noteq> None"
    and pg: "pg_family pg = form_value req ''fam''" "pg_families pg = st_families st" "pg_latencies pg = None"
  shows "\<exists>l. latency_part req pg = Some (pg\<lparr>pg_latencies := l\<rparr>) \<and> latencies_shown fin req st (pg\<lparr>pg_latencies := l\<rparr>)"
proof (cases "form_value req ''fam'' \<noteq> [] \<and> form_value req ''lat'' \<noteq> []")
  case True
  with known obtain ft where ft: "map_of (st_families st) (form_value req ''fam'') = Some ft" by blast
  have "hist_add_all (finished_latencies (st_heap st) fin (form_value req ''fam'')) empty_histogram = Some (ft_latencies ft)"
    using finish_order_kept [OF order ft] by (simp add: has_kept_def)
  with True ft pg show ?thesis
    by (intro exI [of _ "Some (snapshot (ft_latencies ft))"]) (simp add: latency_part_def latencies_shown_def latencies_def)
next
  case False
  with pg show ?thesis by (intro exI [of _ None]) (auto simp: latency_part_def latencies_shown_def)
qed

lemma trace_part_ok:
  assumes reach: "net_reachable st"
    and pg: "pg_family pg = form_value req ''fam''" "pg_trace pg = None" "pg_all_events pg = []"
  shows "(\<exists>t fam evts. trace_part req st pg = Some (Inr (pg\<lparr>pg_trace := t, pg_family := fam, pg_all_events := evts\<rparr>))
        \<and> trace_shown req st (pg\<lparr>pg_trace := t, pg_family := fam, pg_all_events := evts\<rparr>))
    \<or> form_value req ''trace'' \<noteq> [] \<and> find_in_families st (form_value req ''trace'') (form_value req ''ref'') = None
        \<and> trace_part req st pg = Some (page_error 404 ''Trace not found'' pg)"
proof (cases "form_value req ''trace'' = []")
  case True
  with pg show ?thesis
    by (intro disjI1 exI [of _ None] exI [of _ "form_value req ''fam''"] exI [of _ "[]"])
      (simp add: trace_part_def trace_shown_def)
next
  case trace: False
  show ?thesis
  proof (cases "find_in_families st (form_value req ''trace'') (form_value req ''ref'')")
    case None
    with trace show ?thesis by (simp add: trace_part_def Let_def)
  next
    case (Some a)
    then have "valid st a" using find_in_families_cases(1) [OF reach] by blast
    then obtain evts where "all_events (st_heap st) a = Some evts"
      using all_events_total [OF closed_refs_store [OF net_reachable_refs [OF reach]], of a] net_reachable_inv [OF reach]
      by (auto simp: store_inv_def valid_def)
    with trace Some show ?thesis
      by (intro disjI1 exI [of _ "Some a"] exI [of _ "tc_family (st_heap st ! a)"] exI [of _ evts])
        (simp add: trace_part_def trace_shown_def Let_def)
  qed
qed

text \<open>
  C14: The page of a trace has, in the order of time, the events of exactly the traces that can be
  reached from it through the references of events, each trace once, however the references run in
  circles.
\<close>

theorem all_events_exact:
  assumes "net_reachable st" and "valid st a"
  shows "\<exists>evts as. all_events (st_heap st) a = Some evts
    \<and> distinct as \<and> set as = {x. (refers (st_heap st))\<^sup>*\<^sup>* a x}
    \<and> mset (untag evts) = mset (events_of (st_heap st) as)
    \<and> sorted_wrt (\<lambda>x y. ev_when (te_event x) \<le> ev_when (te_event y)) evts"
  using all_events_total [OF closed_refs_store [OF net_reachable_refs [OF assms(1)]], of a] net_reachable_inv [OF assms(1)] assms(2)
  by (simp add: store_inv_def valid_def)

definition page_shown :: "addr list \<Rightarrow> http_request \<Rightarrow> store \<Rightarrow> page \<Rightarrow> bool" where
  "page_shown fin req st pg \<longleftrightarrow> pg_families pg = st_families st \<and> pg_allgt pg = wants_slower req
     \<and> bucket_shown fin req st pg \<and> latencies_shown fin req st pg \<and> trace_shown req st pg"

lemma page_shown_frame:
  "bucket_shown fin req st (pg\<lparr>pg_latencies := l\<rparr>) = bucket_shown fin req st pg"
  "bucket_shown fin req st (pg\<lparr>pg_trace := t, pg_family := f, pg_all_events := e\<rparr>) = bucket_shown fin req st pg"
  "latencies_shown fin req st (pg\<lparr>pg_trace := t, pg_family := f, pg_all_events := e\<rparr>) = latencies_shown fin req st pg"
  by (simp_all add: bucket_shown_def latencies_shown_def)

lemma render_page_exact:
  assumes order: "finish_order fin st"
  shows "\<exists>pg. render_page req st = Some (page_status req st, pg) \<and> pg_error pg = page_message req st
    \<and> (page_status req st = 200 \<longrightarrow> page_shown fin req st pg)"
proof -
  note reach = finish_order_reachable [OF order]
  obtain s where s: "family_part req st (first_page req st) = Some s" "family_outcome fin req st s"
    using family_part_ok [OF order] by blast
  show ?thesis
  proof (cases s)
    case (Inl r)
    with s show ?thesis by (cases r) (auto simp: render_page_def family_outcome_def)
  next
    case (Inr pg)
    with s(2) have known: "form_value req ''fam'' \<noteq> [] \<Longrightarrow> map_of (st_families st) (form_value req ''fam'') \<noteq> None"
        and good: "asks_bucket req \<Longrightarrow> \<exists>i. good_bucket req i" and shown: "bucket_shown fin req st pg"
        and pg: "pg_family pg = form_value req ''fam''" "pg_families pg = st_families st" "pg_latencies pg = None"
          "pg_trace pg = None" "pg_all_events pg = []" "pg_allgt pg = wants_slower req" "pg_error pg = []"
      by (auto simp: family_outcome_def)
    obtain l where l: "latency_part req pg = Some (pg\<lparr>pg_latencies := l\<rparr>)"
        "latencies_shown fin req st (pg\<lparr>pg_latencies := l\<rparr>)"
      using latency_part_ok [OF order known pg(1-3)] by blast
    let ?pg = "pg\<lparr>pg_latencies := l\<rparr>"
    have render: "render_page req st = map_option rendered (trace_part req st ?pg)"
      using s(1) Inr l(1) by (simp add: render_page_def)
    have status: "page_status req st = (if form_value req ''trace'' \<noteq> []
        \<and> find_in_families st (form_value req ''trace'') (form_value req ''ref'') = None then 404 else 200)"
      using known good by (auto simp: page_status_def)
    from trace_part_ok [OF reach, of ?pg req] pg consider
        (found) t f e where "trace_part req st ?pg = Some (Inr (?pg\<lparr>pg_trace := t, pg_family := f, pg_all_events := e\<rparr>))"
          "trace_shown req st (?pg\<lparr>pg_trace := t, pg_family := f, pg_all_events := e\<rparr>)"
      | (missing) "form_value req ''trace'' \<noteq> []" "find_in_families st (form_value req ''trace'') (form_value req ''ref'') = None"
          "trace_part req st ?pg = Some (page_error 404 ''Trace not found'' ?pg)" by auto
    then show ?thesis
    proof cases
      case found
      have "page_status req st = 200" using found(2) by (auto simp: status trace_shown_def split: if_splits)
      moreover have "page_shown fin req st (?pg\<lparr>pg_trace := t, pg_family := f, pg_all_events := e\<rparr>)"
        using found(2) shown l(2) pg by (simp add: page_shown_def page_shown_frame)
      ultimately show ?thesis using render found(1) pg(7) by (simp add: rendered_def page_message_def)
    next
      case missing
      then have "page_status req st = 404" by (simp add: status)
      moreover from this known have "page_message req st = ''Trace not found''" by (auto simp: page_message_def)
      ultimately show ?thesis using render missing(3) by (simp add: rendered_def page_error_def)
    qed
  qed
qed

lemma render_page_status: "net_reachable st \<Longrightarrow> \<exists>pg. render_page req st = Some (page_status req st, pg)"
  using net_reachable_order render_page_exact by blast

text \<open>
  C23: The page of the traces is the right one, after any run of the store and for any request. The
  handler does not panic. The status is 404 for an unknown family or a trace not found, 400 for a
  bucket that is not a number from -2 to 7, and otherwise 200, with the error that says so. The page
  then has, of the bucket asked for, exactly the traces that are to be shown, the newest first: all that
  are not finished, the last ten to fail, or the last ten to finish with a latency of the bucket,
  together with those of the slower buckets unless \<^verbatim>\<open>all\<close> says no. It has the histogram of all latencies
  of the family if that is asked for, and the trace asked for with all its events; and nothing else.
\<close>

theorem render_page_correct:
  assumes "finish_order fin st"
  shows "\<exists>pg. render_page req st = Some (page_status req st, pg) \<and> pg_error pg = page_message req st
    \<and> (page_status req st = 200 \<longrightarrow> page_shown fin req st pg)"
  by (rule render_page_exact [OF assms])

section \<open>The template's functions\<close>

text \<open>
  The colour of a row of the page of a trace is the one of text at the top level, and below it
  one of those the style sheet declares for the light scheme and for the dark one, whatever the id and
  the depth.
\<close>

lemma colorize_declared:
  "if depth = 0 then colorize depth i = ''rgba(var(--text-color))''
   else \<exists>v \<in> set (map fst light_colors). colorize depth i = ''var('' @ v @ '')''"
proof (cases "depth = 0")
  case True
  then show ?thesis by (simp add: colorize_def)
next
  case False
  define c where "c = unat (crc32 (reply_bytes i) mod 6)"
  have "c < 6" by (simp add: c_def unat_mod)
  then have c: "c = 0 \<or> c = 1 \<or> c = 2 \<or> c = 3 \<or> c = 4 \<or> c = 5" by arith
  define d where "d = (if depth > 3 then 3 else depth)"
  have d: "d = 1 \<or> d = 2 \<or> d = 3" using False by (simp add: d_def) arith
  have "colorize depth i = ''var(--nested-d'' @ pad2 d @ ''-c'' @ pad2 c @ '')''"
    using False by (simp add: colorize_def Let_def c_def d_def)
  also have "\<dots> = ''var('' @ (''--nested-d'' @ pad2 d @ ''-c'' @ pad2 c) @ '')''" by simp
  finally have "colorize depth i = ''var('' @ (''--nested-d'' @ pad2 d @ ''-c'' @ pad2 c) @ '')''" .
  moreover have "''--nested-d'' @ pad2 d @ ''-c'' @ pad2 c \<in> set (map fst light_colors)"
    using c d by (elim disjE) (simp_all add: pad2_def light_colors_def show_nat.simps digit_char_def char_of_def bit_Suc_0_iff)
  ultimately show ?thesis using False by auto
qed

lemma colorize_variables:
  assumes "v \<in> set (var_refs (colorize depth i))"
  shows "v \<in> set (map fst light_colors)" and "v \<in> set (map fst dark_colors)"
proof -
  have no_var: "\<not> has_prefix s ''var(''" if "CHR ''('' \<notin> set s" for s
    using that by (auto simp: has_prefix_iff)
  have no_refs: "var_refs s = []" if "CHR ''('' \<notin> set s" for s
    using that
  proof (induction s)
    case (Cons c s)
    then show ?case using no_var [of "c # s"] by simp
  qed simp
  have "v \<in> set (map fst light_colors)"
  proof (cases "depth = 0")
    case True
    with assms colorize_declared [of depth i] have "v \<in> set (var_refs ''rgba(var(--text-color))'')" by simp
    then show ?thesis by (simp add: has_prefix_def light_colors_def)
  next
    case False
    then obtain w where w: "w \<in> set (map fst light_colors)" "colorize depth i = ''var('' @ w @ '')''"
      using colorize_declared [of depth i] by auto
    from w(1) have plain: "CHR ''('' \<notin> set w \<and> CHR '')'' \<notin> set w" by (auto simp: light_colors_def)
    then have "takeWhile (\<lambda>x. x \<noteq> CHR '')'') (w @ '')'') = w" by (subst takeWhile_append2) auto
    moreover have "var_refs (w @ '')'') = []" using no_refs [of "w @ '')''"] plain by simp
    ultimately have "var_refs (colorize depth i) = [w]" by (simp add: w(2) has_prefix_def)
    with assms w(1) show ?thesis by simp
  qed
  then show "v \<in> set (map fst light_colors)" "v \<in> set (map fst dark_colors)" by (simp_all only: scheme_names)
qed

lemma shorttitle_length: "length (shorttitle tr) \<le> 20"
proof -
  have "length (''...'' @ drop (length xs - 17) xs) \<le> 20" for xs :: string by simp
  from this [of "tc_family tr @ '' - '' @ tc_title tr"] show ?thesis
    by (simp add: shorttitle_def Let_def del: length_append length_drop drop_append append_Cons append_Nil)
qed

section \<open>The properties at a concrete store\<close>

theorem all_events_exact_witness:
  "\<exists>evts as. all_events (st_heap demo_open) 0 = Some evts
    \<and> distinct as \<and> set as = {x. (refers (st_heap demo_open))\<^sup>*\<^sup>* 0 x}
    \<and> mset (untag evts) = mset (events_of (st_heap demo_open) as)"
  using all_events_exact [OF demo_reachable(2), of 0] demo_open_trace(2) by (auto simp: open_trace_def)

definition demo_request :: http_request where
  "demo_request = \<lparr>rq_method = ''GET'', rq_remote_addr = [], rq_form = [(''trace'', ''r!8!2'')],
     rq_content_type = [], rq_body = [], rq_read_error = None\<rparr>"

definition demo_bucket_request :: http_request where
  "demo_bucket_request = demo_request\<lparr>rq_form := [(''fam'', ''r''), (''b'', ''1''), (''all'', ''false''), (''trace'', ''r!8!2'')]\<rparr>"

theorem render_page_correct_witness:
  "\<exists>pg. render_page demo_bucket_request demo_done = Some (200, pg) \<and> pg_error pg = [] \<and> pg_trace pg = Some 1
     \<and> pg_traces pg = [1] \<and> pg_bucket_str pg = ''5ms''"
proof -
  note reach = finish_order_reachable [OF demo_order]
  note inv = net_reachable_inv [OF reach]
  have form: "form_value demo_bucket_request ''fam'' = ''r''" "form_value demo_bucket_request ''b'' = ''1''"
      "form_value demo_bucket_request ''trace'' = ''r!8!2''" "form_value demo_bucket_request ''ref'' = []"
      "form_value demo_bucket_request ''all'' = ''false''"
    by (simp_all add: form_value_def demo_bucket_request_def)
  have tr: "tc_id (st_heap demo_done ! 1) = ''r!8!2''" "tc_family (st_heap demo_done ! 1) = ''r''"
      "latency (st_heap demo_done ! 1) = 9 * millisecond"
    by (simp_all add: demo_heap demo_open_child latency_def time_sub_def)
  have ft: "map_of (st_families demo_done) ''r'' \<noteq> None"
    using store_inv_trace(2) [OF inv demo_finish(3)] tr(2) by auto
  have bucket: "atoi ''1'' = Some 1" by (simp add: atoi_def text_eval in_int64_def)
  have found: "find_in_families demo_done ''r!8!2'' [] = Some 1"
    using find_in_families_cases(2) [OF reach demo_finish(3,2)] tr(1) by simp
  then have "page_status demo_bucket_request demo_done = 200"
    using ft bucket by (simp add: page_status_def asks_bucket_def good_bucket_def form)
  moreover from this have "page_message demo_bucket_request demo_done = []" by (simp add: page_message_def)
  ultimately obtain pg where pg: "render_page demo_bucket_request demo_done = Some (200, pg)" "pg_error pg = []"
      "page_shown [1] demo_bucket_request demo_done pg"
    using render_page_correct [OF demo_order, of demo_bucket_request] by auto
  have "bucket_traces (st_heap demo_done) [1] ''r'' False 1 = [1]"
    using tr by (simp add: bucket_traces_def last_finished_def in_family_def find_bucket_cases lastn_def)
  moreover have "\<not> wants_slower demo_bucket_request" by (simp add: wants_slower_def form)
  ultimately have "mset (pg_traces pg) = {#1#} \<and> pg_bucket_str pg = ''5ms''"
    using pg(3) bucket by (auto simp: page_shown_def bucket_shown_def asks_bucket_def good_bucket_def bucket_label_def form)
  moreover have "pg_trace pg = Some 1" using pg(3) found by (simp add: page_shown_def trace_shown_def form)
  ultimately show ?thesis using pg(1,2) by simp
qed

end
