(* ===== verification/Net_Links.thy ===== *)
theory Net_Links
  imports Net_Templates Net_Pages_Properties
begin

text \<open>
  Where the links of the pages of \<^verbatim>\<open>internal/nettrace/http.go\<close> lead: the templates never fail, and the
  handler answers a link with the page it promises.
\<close>

section \<open>Events that refer to a trace have one\<close>

definition typed :: "event \<Rightarrow> bool" where
  "typed e \<longleftrightarrow> (ev_type e = EvtChild \<or> ev_type e = EvtLink \<longrightarrow> ev_ref e \<noteq> None)"

lemma typed_events [simp]:
  "typed (log_event now msg)" "typed (child_event now c)" "typed (link_event now b msg)" "typed (drop_event t)"
  by (simp_all add: typed_def log_event_def child_event_def link_event_def drop_event_def)

definition typed_trace :: "trace \<Rightarrow> bool" where
  "typed_trace tr \<longleftrightarrow> (\<forall>e \<in> set (events tr). typed e)"

lemma append_event_typed:
  assumes "trace_ok tr" and "append_event e tr = Some tr'" and "typed e" and "typed_trace tr"
  shows "typed_trace tr'"
proof (cases "int (length (tc_first_events tr)) < tc_cutoff tr")
  case True
  with assms show ?thesis by (auto simp: typed_trace_def append_event_def events_def split: option.splits)
next
  case False
  define q where "q = (case tc_last_events tr of None \<Rightarrow> new_evt_ring (nat (tc_max_events tr - tc_cutoff tr)) | Some r \<Rightarrow> r)"
  have wf: "evt_ring_wf (er_max q) q"
    using assms(1) by (auto simp: q_def trace_ok_def new_evt_ring_def evt_ring_wf_def split: option.splits)
  obtain q' where q': "evt_ring_add ev_when e q = Some q'" "tr' = tr\<lparr>tc_last_events := Some q'\<rparr>"
    using assms(2) False by (auto simp: append_event_def Let_def q_def)
  have sub: "set (evt_ring_do q') \<subseteq> insert e (set (evt_ring_do q))" using evt.oldest_out [OF wf q'(1)] .
  have old: "\<forall>x \<in> set (tc_first_events tr) \<union> set (evt_ring_do q). typed x"
    using assms(4) by (cases "tc_last_events tr")
      (auto simp: typed_trace_def events_def q_def new_evt_ring_def evt_ring_do_def)
  have "events tr' = tc_first_events tr
      @ (if \<not> is_zero_time (er_first_drop q') then [drop_event (er_first_drop q')] else []) @ evt_ring_do q'"
    by (simp add: q'(2) events_def)
  with sub old assms(3) show ?thesis by (auto simp: typed_trace_def)
qed

lemma typed_trace_append:
  assumes "store_inv st" and "valid st a" and "trace_append e a st = Some st'" and "typed e"
    and "\<forall>tr \<in> set (st_heap st). typed_trace tr"
  shows "\<forall>tr \<in> set (st_heap st'). typed_trace tr"
proof -
  obtain tr where tr: "append_event e (st_heap st ! a) = Some tr" "st' = st\<lparr>st_heap := (st_heap st)[a := tr]\<rparr>"
    using assms(3) by (auto simp: trace_append_def)
  have "typed_trace tr"
    using append_event_typed [OF _ tr(1) assms(4)] assms(1,2,5) by (simp add: store_inv_def valid_def)
  then show ?thesis using assms(5) set_update_subset_insert [of "st_heap st" a tr] by (auto simp: tr(2))
qed

lemma typed_on_trace:
  assumes "valid st a" and "events (f (st_heap st ! a)) = events (st_heap st ! a)"
    and "\<forall>tr \<in> set (st_heap st). typed_trace tr"
  shows "\<forall>tr \<in> set (st_heap (on_trace f a st)). typed_trace tr"
proof -
  have "st_heap st ! a \<in> set (st_heap st)" using assms(1) by (simp add: valid_def)
  then have "typed_trace (st_heap st ! a)" using assms(3) by blast
  then have "typed_trace (f (st_heap st ! a))" using assms(2) by (simp add: typed_trace_def)
  then show ?thesis using assms(3) set_update_subset_insert [of "st_heap st" a] by (auto simp: on_trace_def)
qed

lemma net_step_typed:
  "net_step st st' \<Longrightarrow> store_inv st \<Longrightarrow> \<forall>tr \<in> set (st_heap st). typed_trace tr \<Longrightarrow>
     \<forall>tr \<in> set (st_heap st'). typed_trace tr"
proof (induction rule: net_step.induct)
  case (created st now rnd family title)
  then show ?case by (auto simp: new_trace_def Let_def typed_trace_def events_def)
next
  case (child st now rnd family a now2 title c st')
  let ?st1 = "snd (new_trace now rnd family title st)" and ?c = "length (st_heap st)"
  note new = new_trace_inv [OF child.prems(1) child.hyps(1), where title = title]
  let ?st2 = "on_trace (\<lambda>tr. tr\<lparr>tc_parent := Some a\<rparr>) ?c ?st1"
  have app: "trace_append (child_event now2 ?c) a ?st2 = Some st'"
    using child.hyps(3) new(2) by (auto simp: new_child_def split: prod.splits)
  have "\<forall>tr \<in> set (st_heap ?st1). typed_trace tr"
    using child.prems(2) by (auto simp: new_trace_def Let_def typed_trace_def events_def)
  then have "\<forall>tr \<in> set (st_heap ?st2). typed_trace tr"
    using new(3) by (intro typed_on_trace) (simp_all add: valid_def)
  moreover have "valid ?st2 a" using child.hyps(2) new(3) by (simp add: open_trace_def valid_def on_trace_def)
  ultimately show ?case
    using typed_trace_append [OF new_child_parent_inv [OF child.prems(1) child.hyps(1)] _ app] by simp
next
  case (logged st a now msg st')
  then show ?case
    using typed_trace_append [of st a "log_event now msg" st'] by (simp add: printf_trace_def open_trace_def)
next
  case (linked st a b now msg st')
  then show ?case
    using typed_trace_append [of st a "link_event now b msg" st'] by (simp add: link_traces_def open_trace_def)
next
  case (errored st a)
  then show ?case by (intro typed_on_trace) (simp_all add: open_trace_def)
next
  case (resized st a n)
  then show ?case by (intro typed_on_trace) (simp_all add: open_trace_def)
next
  case (finished st a now st')
  have "st_heap st' = st_heap (on_trace (\<lambda>tr. tr\<lparr>tc_end := now\<rparr>) a st)"
    using finish_trace_ok [OF finished.prems(1) finished.hyps(1,2)] finished.hyps(3) by (auto simp: on_trace_def)
  with finished typed_on_trace [of st a "\<lambda>tr. tr\<lparr>tc_end := now\<rparr>"] show ?case by (simp add: open_trace_def)
qed

lemma net_reachable_typed: "net_reachable st \<Longrightarrow> \<forall>tr \<in> set (st_heap st). typed_trace tr"
proof -
  have "net_step\<^sup>*\<^sup>* empty_store st \<Longrightarrow> store_inv st \<and> (\<forall>tr \<in> set (st_heap st). typed_trace tr)"
  proof (induction rule: rtranclp_induct)
    case base
    show ?case using store_inv_empty by (simp add: empty_store_def)
  next
    case (step y z)
    then show ?case using net_step_inv net_step_typed by blast
  qed
  then show "net_reachable st \<Longrightarrow> \<forall>tr \<in> set (st_heap st). typed_trace tr" by (simp add: net_reachable_def)
qed

section \<open>Following a link\<close>

fun html_links :: "html list \<Rightarrow> (string \<times> string) list list" where
  "html_links [] = []"
| "html_links (Link q muted content # h) = q # html_links content @ html_links h"
| "html_links (Raw s # h) = html_links h"
| "html_links (Txt s # h) = html_links h"

text \<open>The request a browser makes for a link.\<close>

definition follow :: "(string \<times> string) list \<Rightarrow> http_request" where
  "follow q = \<lparr>rq_method = ''GET'', rq_remote_addr = [], rq_form = q, rq_content_type = [], rq_body = [],
     rq_read_error = None\<rparr>"

definition good_link :: "store \<Rightarrow> (string \<times> string) list \<Rightarrow> bool" where
  "good_link st q \<longleftrightarrow> page_status (follow q) st = 200"

lemma html_links_append [simp]: "html_links (h @ h') = html_links h @ html_links h'"
  by (induction h rule: html_links.induct) simp_all

lemma html_links_if: "html_links (html_if c h) = (if c then html_links h else [])"
  by (simp add: html_if_def)

lemma html_links_here [simp]: "html_links (here c h) = html_links h"
  by (simp add: here_def html_if_def)

lemma html_links_concat: "set (html_links (concat hs)) = (\<Union>h \<in> set hs. set (html_links h))"
  by (induction hs) simp_all

lemma trace_link:
  assumes "net_reachable st" and "valid st b" and "kept st b" and "leads_to st b a"
  shows "good_link st [(''trace'', tc_id (st_heap st ! a)), (''ref'', tc_id (st_heap st ! b))]"
  using find_in_families_cases(3) [OF assms]
  by (simp add: good_link_def page_status_def asks_bucket_def form_value_def follow_def)

lemma direct_link:
  assumes "net_reachable st" and "valid st a" and "kept st a"
  shows "good_link st [(''trace'', tc_id (st_heap st ! a))]"
    and "good_link st [(''trace'', tc_id (st_heap st ! a)), (''ref'', i)]"
  using find_in_families_cases(2) [OF assms]
  by (simp_all add: good_link_def page_status_def asks_bucket_def form_value_def follow_def)

lemma family_link:
  assumes "name = [] \<or> map_of (st_families st) name \<noteq> None" and "map_of q ''fam'' = Some name"
    and "map_of q ''trace'' = None"
    and "\<And>s. map_of q ''b'' = Some s \<Longrightarrow> \<exists>i. atoi s = Some i \<and> -2 \<le> i \<and> i < 8"
  shows "good_link st q"
  using assms
  by (auto simp: good_link_def page_status_def asks_bucket_def good_bucket_def form_value_def follow_def split: option.splits)

lemma atoi_bucket: "-2 \<le> i \<Longrightarrow> i < 8 \<Longrightarrow> atoi (show_int i) = Some i"
proof -
  assume "-2 \<le> i" "i < 8"
  then have "i = -2 \<or> i = -1 \<or> i = 0 \<or> i = 1 \<or> i = 2 \<or> i = 3 \<or> i = 4 \<or> i = 5 \<or> i = 6 \<or> i = 7" by arith
  then show ?thesis by (elim disjE) (simp_all add: text_eval atoi_def in_int64_def)
qed

lemma show_int_nat: "show_int (int n) = show_nat n"
  by (simp add: show_int_def)

section \<open>The data of a page\<close>

definition page_ok :: "store \<Rightarrow> page \<Rightarrow> bool" where
  "page_ok st pg \<longleftrightarrow> pg_families pg = st_families st
     \<and> (pg_family pg = [] \<or> map_of (st_families st) (pg_family pg) \<noteq> None)
     \<and> -2 \<le> pg_bucket pg \<and> pg_bucket pg < 8
     \<and> (\<forall>a \<in> set (pg_traces pg). valid st a \<and> kept st a)
     \<and> (\<forall>l. pg_latencies pg = Some l \<longrightarrow> (\<exists>h. l = snapshot h \<and> length (h_count h) = 8))
     \<and> (\<forall>a. pg_trace pg = Some a \<longrightarrow> valid st a \<and> all_events (st_heap st) a = Some (pg_all_events pg))"

lemma traces_for_keeps:
  assumes "traces_for heap b allgt ft = Some trs" and "length (ft_finished ft) = 8" and "a \<in> set trs"
  shows "keeps ft a"
proof -
  have "a \<in> set (trace_ring_do (ft_errors ft)) \<or> a \<in> snd ` set (ft_active ft)
      \<or> (\<exists>i < 8. a \<in> set (trace_ring_do (ft_finished ft ! i)))"
    using assms(1,3) by (auto simp: traces_for_def split: if_splits)
  with assms(2) show ?thesis by (auto simp: keeps_def)
qed

lemma page_ok_first: "page_ok st (first_page req st)"
  by (simp add: page_ok_def first_page_def copy_families_def Let_def)

lemma page_ok_family_part:
  assumes inv: "store_inv st" and ok: "page_ok st pg" "pg_trace pg = None" and part: "family_part req st pg = Some s"
  shows "case s of Inl (status, pg') \<Rightarrow> page_ok st pg' | Inr pg' \<Rightarrow> page_ok st pg' \<and> pg_trace pg' = None"
proof (cases "form_value req ''fam'' = []")
  case True
  with ok part show ?thesis by (auto simp: family_part_def Let_def)
next
  case False
  show ?thesis
  proof (cases "map_of (st_families st) (form_value req ''fam'')")
    case None
    with False ok part show ?thesis by (auto simp: family_part_def page_ok_def page_error_def Let_def)
  next
    case (Some ft)
    let ?pg = "pg\<lparr>pg_family := form_value req ''fam''\<rparr>"
    have pg: "page_ok st ?pg" "pg_trace ?pg = None" using ok Some by (auto simp: page_ok_def)
    have bucket: "bucket_part req st ft ?pg = Some s"
      using part False Some ok(1) by (simp add: family_part_def page_ok_def Let_def)
    have fam: "family_ok (st_heap st) (form_value req ''fam'') ft" using inv Some by (simp add: store_inv_def)
    then have len: "length (ft_finished ft) = 8" by (simp add: family_ok_def)
    show ?thesis
    proof (cases "\<exists>i trs. s = Inr (?pg\<lparr>pg_bucket := i, pg_traces := trs, pg_bucket_str := bucket_str i\<rparr>)
        \<and> -2 \<le> i \<and> i < 8 \<and> traces_for (st_heap st) i (pg_allgt pg) ft = Some trs")
      case True
      then obtain i trs where t: "s = Inr (?pg\<lparr>pg_bucket := i, pg_traces := trs, pg_bucket_str := bucket_str i\<rparr>)"
          "-2 \<le> i" "i < 8" "traces_for (st_heap st) i (pg_allgt pg) ft = Some trs" by blast
      have "valid st a \<and> kept st a" if "a \<in> set trs" for a
        using traces_for_keeps [OF t(4) len that] keeps_family [OF fam] Some by (auto simp: valid_def kept_def)
      with t pg show ?thesis by (auto simp: page_ok_def)
    next
      case False
      with bucket have "s = Inr ?pg \<or> (\<exists>status err. s = Inl (status, ?pg\<lparr>pg_error := err\<rparr>))"
        by (auto simp: bucket_part_def page_error_def Let_def split: if_splits option.splits)
      with pg show ?thesis by (auto simp: page_ok_def)
    qed
  qed
qed

lemma page_ok_render:
  assumes reach: "net_reachable st" and r: "render_page req st = Some (status, pg)"
  shows "page_ok st pg"
proof -
  note inv = net_reachable_inv [OF reach]
  obtain s where s: "family_part req st (first_page req st) = Some s"
    using r by (auto simp: render_page_def split: option.splits)
  have none: "pg_trace (first_page req st) = None" by (simp add: first_page_def Let_def)
  note fam = page_ok_family_part [OF inv page_ok_first none s]
  show ?thesis
  proof (cases s)
    case (Inl x)
    with s fam r show ?thesis by (auto simp: render_page_def)
  next
    case (Inr pg1)
    then have pg1: "page_ok st pg1" "pg_trace pg1 = None" using fam by auto
    obtain pg2 t where pg2: "latency_part req pg1 = Some pg2" "trace_part req st pg2 = Some t" "rendered t = (status, pg)"
      using r s Inr by (auto simp: render_page_def split: option.splits)
    have ok2: "page_ok st pg2 \<and> pg_trace pg2 = None"
    proof (cases "pg_family pg1 \<noteq> [] \<and> form_value req ''lat'' \<noteq> []")
      case True
      with pg2(1) pg1(1) obtain ft where ft: "map_of (st_families st) (pg_family pg1) = Some ft"
          "pg2 = pg1\<lparr>pg_latencies := Some (snapshot (ft_latencies ft))\<rparr>"
        by (auto simp: latency_part_def latencies_def page_ok_def)
      have "length (h_count (ft_latencies ft)) = 8" using inv ft(1) by (auto simp: store_inv_def family_ok_def)
      with pg1 ft(2) show ?thesis by (auto simp: page_ok_def)
    next
      case False
      with pg2(1) pg1 show ?thesis by (auto simp: latency_part_def)
    qed
    show ?thesis
    proof (cases "find_in_families st (form_value req ''trace'') (form_value req ''ref'')")
      case None
      with pg2(2,3) ok2 show ?thesis
        by (auto simp: trace_part_def page_error_def rendered_def page_ok_def Let_def split: if_splits)
    next
      case (Some a)
      then have a: "valid st a" using find_in_families_cases(1) [OF reach] by blast
      then have "map_of (st_families st) (tc_family (st_heap st ! a)) \<noteq> None"
        using inv by (simp add: store_inv_def valid_def)
      with Some a pg2(2,3) ok2 show ?thesis
        by (auto simp: trace_part_def rendered_def page_ok_def Let_def split: if_splits)
    qed
  qed
qed

section \<open>The links of the templates\<close>

lemma single_rows_links:
  assumes "net_reachable st" and "valid st a" and "kept st a"
    and "\<forall>e \<in> set es. typed e \<and> (\<forall>r. ev_ref e = Some r \<longrightarrow> leads_to st a r)"
  shows "\<exists>h. single_rows F (st_heap st) a prev es = Some h \<and> (\<forall>q \<in> set (html_links h). good_link st q)"
  using assms(4)
proof (induction es arbitrary: prev)
  case Nil
  then show ?case by simp
next
  case (Cons e es)
  obtain t where t: "single_rows F (st_heap st) a (ev_when e) es = Some t" "\<forall>q \<in> set (html_links t). good_link st q"
    using Cons.IH Cons.prems by (metis list.set_intros(2))
  have e: "typed e" "\<And>r. ev_ref e = Some r \<Longrightarrow> leads_to st a r" using Cons.prems by auto
  have "\<exists>msg. single_msg (st_heap st) a e = Some msg \<and> (\<forall>q \<in> set (html_links msg). good_link st q)"
  proof (cases "ev_ref e")
    case None
    with e(1) show ?thesis by (cases "ev_type e") (auto simp: single_msg_def typed_def Let_def)
  next
    case (Some r)
    with trace_link [OF assms(1-3) e(2)] show ?thesis
      by (cases "ev_type e") (auto simp: single_msg_def deref_def Let_def)
  qed
  with t show ?case by auto
qed

lemma events_typed: "net_reachable st \<Longrightarrow> valid st a \<Longrightarrow> e \<in> set (events (st_heap st ! a)) \<Longrightarrow> typed e"
  using net_reachable_typed [of st] nth_mem [of a "st_heap st"] unfolding typed_trace_def valid_def by blast

lemma single_links:
  assumes "net_reachable st" and "valid st a" and "kept st a"
  shows "\<exists>h. single_tmpl F now (st_heap st) a = Some h \<and> (\<forall>q \<in> set (html_links h). good_link st q)"
proof -
  let ?tr = "st_heap st ! a"
  have "\<forall>e \<in> set (events ?tr). typed e \<and> (\<forall>r. ev_ref e = Some r \<longrightarrow> leads_to st a r)"
    using events_typed [OF assms(1,2)] by (auto simp: leads_to_def)
  then obtain rows where rows: "single_rows F (st_heap st) a (tc_start ?tr) (events ?tr) = Some rows"
      "\<forall>q \<in> set (html_links rows). good_link st q"
    using single_rows_links [OF assms] by blast
  have parent: "good_link st [(''trace'', tc_id (st_heap st ! p)), (''ref'', tc_id ?tr)]" if "tc_parent ?tr = Some p" for p
    using trace_link [OF assms, of p] that by (simp add: leads_to_def)
  from rows parent direct_link(1) [OF assms] show ?thesis
    by (auto simp: single_tmpl_def Let_def split: option.splits)
qed

lemma concat_opt_all:
  "\<forall>x \<in> set xs. \<exists>h. f x = Some h \<and> P h \<Longrightarrow> (\<And>h t. P h \<Longrightarrow> P t \<Longrightarrow> P (h @ t)) \<Longrightarrow> P [] \<Longrightarrow>
     \<exists>h. concat_opt (map f xs) = Some h \<and> P h"
  by (induction xs) auto

text \<open>A link from a trace to one it refers to.\<close>

definition ref_link :: "store \<Rightarrow> addr \<Rightarrow> addr \<Rightarrow> (string \<times> string) list" where
  "ref_link st b r = [(''trace'', tc_id (st_heap st ! r)), (''ref'', tc_id (st_heap st ! b))]"

lemma recursive_rows_links:
  assumes "\<forall>te \<in> set tes. typed (te_event te) \<and> (\<forall>r. ev_ref (te_event te) = Some r \<longrightarrow> leads_to st (te_trace te) r)"
  shows "\<exists>h. recursive_rows F (st_heap st) prev tes = Some h
    \<and> (\<forall>q \<in> set (html_links h). \<exists>te \<in> set tes. \<exists>r. leads_to st (te_trace te) r \<and> q = ref_link st (te_trace te) r)"
  using assms
proof (induction tes arbitrary: prev)
  case Nil
  then show ?case by simp
next
  case (Cons te tes)
  obtain t where t: "recursive_rows F (st_heap st) (ev_when (te_event te)) tes = Some t"
      "\<forall>q \<in> set (html_links t). \<exists>te \<in> set tes. \<exists>r. leads_to st (te_trace te) r \<and> q = ref_link st (te_trace te) r"
    using Cons.IH Cons.prems by (metis list.set_intros(2))
  have e: "typed (te_event te)" "\<And>r. ev_ref (te_event te) = Some r \<Longrightarrow> leads_to st (te_trace te) r" using Cons.prems by auto
  obtain msg where msg: "recursive_msg (st_heap st) te = Some msg"
      "\<forall>q \<in> set (html_links msg). \<exists>r. leads_to st (te_trace te) r \<and> q = ref_link st (te_trace te) r"
  proof (cases "ev_ref (te_event te)")
    case None
    with e(1) that show ?thesis by (cases "ev_type (te_event te)") (auto simp: recursive_msg_def typed_def Let_def)
  next
    case (Some r)
    with e(2) that show ?thesis
      by (cases "ev_type (te_event te)") (auto simp: recursive_msg_def deref_def ref_link_def Let_def)
  qed
  then have "\<exists>row. recursive_row F (st_heap st) prev te = Some row \<and> html_links row = html_links msg"
    by (simp add: recursive_row_def title_attr_def Let_def)
  with t msg(2) show ?case by fastforce
qed

lemma refers_valid: "net_reachable st \<Longrightarrow> (refers (st_heap st))\<^sup>*\<^sup>* a b \<Longrightarrow> valid st a \<Longrightarrow> valid st b"
proof -
  assume reach: "net_reachable st" and a: "valid st a"
  assume "(refers (st_heap st))\<^sup>*\<^sup>* a b"
  then show "valid st b"
  proof (induction rule: rtranclp_induct)
    case base
    show ?case using a .
  next
    case (step y z)
    then show ?case using refs_ok_ref [OF net_reachable_refs [OF reach]] by (auto simp: refers_def)
  qed
qed

lemma recursive_links:
  assumes reach: "net_reachable st" and a: "valid st a" and evts: "all_events (st_heap st) a = Some evts"
  shows "\<exists>h. recursive_tmpl F (st_heap st) a evts = Some h
    \<and> (\<forall>q \<in> set (html_links h). \<exists>b r. (refers (st_heap st))\<^sup>*\<^sup>* a b \<and> leads_to st b r \<and> q = ref_link st b r)"
proof -
  let ?heap = "st_heap st"
  note inv = net_reachable_inv [OF reach]
  obtain as where as: "set as = {x. (refers ?heap)\<^sup>*\<^sup>* a x}" "mset (untag evts) = mset (events_of ?heap as)"
    using all_events_total [OF closed_refs_store [OF net_reachable_refs [OF reach]], of a] inv a evts
    by (auto simp: store_inv_def valid_def)
  have te: "(refers ?heap)\<^sup>*\<^sup>* a (te_trace te) \<and> te_event te \<in> set (events (?heap ! te_trace te))" if "te \<in> set evts" for te
  proof -
    have "(te_trace te, te_event te) \<in> set (untag evts)" using that by (auto simp: untag_def)
    then have "(te_trace te, te_event te) \<in> set (events_of ?heap as)" using as(2) mset_eq_setD by blast
    with as(1) show ?thesis by (auto simp: events_of_def)
  qed
  note valid = refers_valid [OF reach _ a]
  have "\<forall>te \<in> set evts. typed (te_event te) \<and> (\<forall>r. ev_ref (te_event te) = Some r \<longrightarrow> leads_to st (te_trace te) r)"
    using te valid events_typed [OF reach] by (fastforce simp: leads_to_def)
  from recursive_rows_links [OF this] obtain rows where rows:
      "recursive_rows F ?heap (tc_start (?heap ! a)) evts = Some rows"
      "\<forall>q \<in> set (html_links rows). \<exists>te \<in> set evts. \<exists>r. leads_to st (te_trace te) r \<and> q = ref_link st (te_trace te) r" by blast
  have "\<forall>q \<in> set (html_links rows). \<exists>b r. (refers ?heap)\<^sup>*\<^sup>* a b \<and> leads_to st b r \<and> q = ref_link st b r"
    using rows(2) te by blast
  moreover have "\<exists>b r. (refers ?heap)\<^sup>*\<^sup>* a b \<and> leads_to st b r
      \<and> [(''trace'', tc_id (?heap ! p)), (''ref'', tc_id (?heap ! a))] = ref_link st b r" if "tc_parent (?heap ! a) = Some p" for p
    using that by (intro exI [of _ a] exI [of _ p]) (simp add: leads_to_def ref_link_def)
  ultimately show ?thesis using rows(1)
    by (auto simp: recursive_tmpl_def Let_def split: option.splits)
qed

lemma bucket_link:
  assumes "name = [] \<or> map_of (st_families st) name \<noteq> None" and "-2 \<le> i" and "i < 8"
  shows "good_link st [(''fam'', name), (''b'', show_int i)]" and "good_link st [(''fam'', name), (''b'', show_int i), (''all'', all)]"
  using atoi_bucket [OF assms(2,3)] assms by (auto intro!: family_link [OF assms(1)])

lemma snapshot_lines_idx: "x \<in> set (snapshot_lines q i cum cs) \<Longrightarrow> ln_bucket_idx (snd x) < i + length cs"
  by (induction cs arbitrary: i cum) (auto simp: Let_def, fastforce)

lemma latency_links:
  assumes "name = [] \<or> map_of (st_families st) name \<noteq> None" and "length (h_count h) = 8"
    and "q \<in> set (html_links (latency_tmpl F name (snapshot h)))"
  shows "good_link st q"
proof -
  obtain x where x: "x \<in> set (sn_counts (snapshot h))" "q \<in> set (html_links (latency_row F name (snd x)))"
    using assms(3) by (auto simp: latency_tmpl_def html_links_concat)
  from x(1) assms(2) have "ln_bucket_idx (snd x) < 8"
    using snapshot_lines_idx by (fastforce simp: snapshot_def)
  then show ?thesis
    using x(2) bucket_link(1) [OF assms(1), of "int (ln_bucket_idx (snd x))"] by (auto simp: latency_row_def show_int_nat)
qed

lemma family_row_links:
  assumes name: "map_of (st_families st) name \<noteq> None" and q: "q \<in> set (html_links (family_row pg (name, ftr)))"
  shows "good_link st q"
proof -
  have n: "name = [] \<or> map_of (st_families st) name \<noteq> None" using name by blast
  have fixed: "show_int 0 = ''0''" "show_int (-1) = ''-1''" "show_int (-2) = ''-2''" by (simp_all add: text_eval)
  have cell: "good_link st q" if "i < 8" "q \<in> set (html_links (bucket_cell pg name ftr i))" for i
    using that bucket_link(2) [OF n, of "int i"] by (auto simp: bucket_cell_def show_int_nat)
  have lat: "good_link st [(''fam'', name), (''lat'', ''true''), (''all'', all)]" for all
    by (rule family_link [OF n]) simp_all
  from q bucket_link(2) [OF n, of 0] bucket_link(2) [OF n, of "-1"] bucket_link(2) [OF n, of "-2"] lat cell
  show ?thesis by (auto simp: family_row_def html_links_concat fixed)
qed

lemma show_links_good:
  "page_ok st pg \<Longrightarrow> q \<in> set (html_links (show_links pg)) \<Longrightarrow> good_link st q"
  using bucket_link(2) [of "pg_family pg" st "pg_bucket pg"]
  by (auto simp: show_links_def page_ok_def html_links_if)

text \<open>The links of the index page are those of its parts.\<close>

lemma index_parts:
  assumes "concat_opt (map (\<lambda>a. map_option (\<lambda>h. h @ [Raw ''<p>'']) (single_tmpl F now (st_heap st) a)) (pg_traces pg)) = Some traces"
    and "(case pg_trace pg of None \<Rightarrow> Some [] | Some a \<Rightarrow> recursive_tmpl F (st_heap st) a (pg_all_events pg)) = Some tree"
  shows "\<exists>h. index_tmpl F now st pg = Some h
    \<and> set (html_links h) \<subseteq> (\<Union>name \<in> set (map fst (pg_families pg)).
          set (html_links (family_row pg (name, the (map_of (pg_families pg) name)))))
        \<union> set (html_links (show_links pg)) \<union> set (html_links traces)
        \<union> (case pg_latencies pg of None \<Rightarrow> {} | Some l \<Rightarrow> set (html_links (latency_tmpl F (pg_family pg) l)))
        \<union> set (html_links tree)"
proof -
  define trs where "trs = (if pg_bucket_str pg \<noteq> [] then traces else [])"
  have trs: "(if pg_bucket_str pg \<noteq> []
      then concat_opt (map (\<lambda>a. map_option (\<lambda>h. h @ [Raw ''<p>'']) (single_tmpl F now (st_heap st) a)) (pg_traces pg))
      else Some []) = Some trs" using assms(1) by (simp add: trs_def)
  have title: "html_links (page_title (st_heap st) pg) = []" by (simp add: page_title_def split: option.split)
  show ?thesis
    unfolding index_tmpl_def Let_def trs assms(2)
    by (simp add: title trs_def html_links_if html_links_concat split: option.split) blast
qed

lemma tree_links:
  assumes "net_reachable st" and "page_ok st pg"
  obtains tree where "(case pg_trace pg of None \<Rightarrow> Some [] | Some a \<Rightarrow> recursive_tmpl F (st_heap st) a (pg_all_events pg)) = Some tree"
    and "\<forall>q \<in> set (html_links tree). \<exists>a b r. pg_trace pg = Some a \<and> (refers (st_heap st))\<^sup>*\<^sup>* a b \<and> leads_to st b r \<and> q = ref_link st b r"
proof (cases "pg_trace pg")
  case None
  with that show ?thesis by simp
next
  case (Some a)
  with assms(2) have "valid st a" "all_events (st_heap st) a = Some (pg_all_events pg)" by (simp_all add: page_ok_def)
  from recursive_links [OF assms(1) this, of F] Some that show ?thesis by fastforce
qed

lemma index_links:
  assumes reach: "net_reachable st" and ok: "page_ok st pg"
  shows "\<exists>h. index_tmpl F now st pg = Some h
    \<and> (\<forall>q \<in> set (html_links h). good_link st q
        \<or> (\<exists>a b r. pg_trace pg = Some a \<and> (refers (st_heap st))\<^sup>*\<^sup>* a b \<and> leads_to st b r \<and> q = ref_link st b r))"
proof -
  let ?single = "\<lambda>a. map_option (\<lambda>h. h @ [Raw ''<p>'']) (single_tmpl F now (st_heap st) a)"
  have single: "\<exists>h. ?single a = Some h \<and> (\<forall>q \<in> set (html_links h). good_link st q)" if "a \<in> set (pg_traces pg)" for a
    using single_links [OF reach, of a F now] ok that by (auto simp: page_ok_def)
  obtain traces where traces: "concat_opt (map ?single (pg_traces pg)) = Some traces"
      "\<forall>q \<in> set (html_links traces). good_link st q"
    using concat_opt_all [of "pg_traces pg" ?single "\<lambda>h. \<forall>q \<in> set (html_links h). good_link st q"] single by auto
  from tree_links [OF reach ok, of F] obtain tree where
      tree: "(case pg_trace pg of None \<Rightarrow> Some [] | Some a \<Rightarrow> recursive_tmpl F (st_heap st) a (pg_all_events pg)) = Some tree"
        "\<forall>q \<in> set (html_links tree). \<exists>a b r. pg_trace pg = Some a \<and> (refers (st_heap st))\<^sup>*\<^sup>* a b \<and> leads_to st b r \<and> q = ref_link st b r"
    by blast
  have rows: "good_link st q" if "name \<in> set (map fst (pg_families pg))"
      "q \<in> set (html_links (family_row pg (name, the (map_of (pg_families pg) name))))" for name q
  proof -
    have "map_of (st_families st) name \<noteq> None" using that(1) ok by (auto simp: page_ok_def map_of_eq_None_iff)
    then show ?thesis using family_row_links that(2) by blast
  qed
  have lat: "good_link st q" if l: "pg_latencies pg = Some l" and q: "q \<in> set (html_links (latency_tmpl F (pg_family pg) l))" for l q
  proof -
    obtain h where h: "l = snapshot h" "length (h_count h) = 8" using ok l unfolding page_ok_def by blast
    have "pg_family pg = [] \<or> map_of (st_families st) (pg_family pg) \<noteq> None" using ok by (simp add: page_ok_def)
    from latency_links [OF this h(2)] q show ?thesis by (simp add: h(1))
  qed
  from index_parts [OF traces(1) tree(1)] obtain h where h: "index_tmpl F now st pg = Some h" and
      sub: "set (html_links h) \<subseteq> (\<Union>name \<in> set (map fst (pg_families pg)).
          set (html_links (family_row pg (name, the (map_of (pg_families pg) name)))))
        \<union> set (html_links (show_links pg)) \<union> set (html_links traces)
        \<union> (case pg_latencies pg of None \<Rightarrow> {} | Some l \<Rightarrow> set (html_links (latency_tmpl F (pg_family pg) l)))
        \<union> set (html_links tree)"
    by blast
  have "good_link st q" if "q \<in> (case pg_latencies pg of None \<Rightarrow> {} | Some l \<Rightarrow> set (html_links (latency_tmpl F (pg_family pg) l)))" for q
    using lat that by (cases "pg_latencies pg") auto
  with h sub rows traces(2) tree(2) show_links_good [OF ok] show ?thesis by blast
qed

text \<open>
  C24: The pages of the traces have no dead ends but one. Whatever is asked of a reachable store, the
  templates do not fail, so the handler answers with the page and does not panic. Each link of the
  page is answered with status 200, unless it is on the page of a trace, and leads from a shown trace
  that is no longer kept to one that is no longer kept either.
\<close>

theorem pages_lead_on:
  assumes "net_reachable st"
  shows "\<exists>pg h. render_page req st = Some (page_status req st, pg) \<and> index_tmpl F now st pg = Some h
    \<and> render_traces (\<lambda>st pg. case index_tmpl F now st pg of None \<Rightarrow> Inl err | Some h \<Rightarrow> Inr (to_bytes h)) req st
        = Some (page_status req st, to_bytes h)
    \<and> (\<forall>q \<in> set (html_links h). page_status (follow q) st \<noteq> 200 \<longrightarrow>
        (\<exists>a b r. pg_trace pg = Some a \<and> (refers (st_heap st))\<^sup>*\<^sup>* a b \<and> leads_to st b r
           \<and> q = ref_link st b r \<and> \<not> kept st b \<and> \<not> kept st r))"
proof -
  obtain pg where pg: "render_page req st = Some (page_status req st, pg)" using render_page_status [OF assms] by blast
  obtain h where h: "index_tmpl F now st pg = Some h"
      "\<forall>q \<in> set (html_links h). good_link st q
        \<or> (\<exists>a b r. pg_trace pg = Some a \<and> (refers (st_heap st))\<^sup>*\<^sup>* a b \<and> leads_to st b r \<and> q = ref_link st b r)"
    using index_links [OF assms page_ok_render [OF assms pg]] by blast
  have bad: "\<not> kept st b \<and> \<not> kept st r"
    if "pg_trace pg = Some a" "(refers (st_heap st))\<^sup>*\<^sup>* a b" "leads_to st b r" "\<not> good_link st (ref_link st b r)" for a b r
  proof -
    have "valid st a" using page_ok_render [OF assms pg] that(1) by (simp add: page_ok_def)
    then have b: "valid st b" using refers_valid [OF assms that(2)] by blast
    then have "valid st r" using leads_to_valid [OF net_reachable_refs [OF assms]] that(3) by blast
    with b that(3,4) trace_link [OF assms b _ that(3)] direct_link(2) [OF assms] show ?thesis by (auto simp: ref_link_def)
  qed
  have "render_traces (\<lambda>st pg. case index_tmpl F now st pg of None \<Rightarrow> Inl err | Some h \<Rightarrow> Inr (to_bytes h)) req st
      = Some (page_status req st, to_bytes h)"
    by (simp add: render_traces_def pg h(1))
  with pg h bad show ?thesis unfolding good_link_def by blast
qed

definition demo_funcs :: tmpl_funcs where
  "demo_funcs = \<lparr>tf_format = (\<lambda>f t. show_int t), tf_shortest = format_fixed 0\<rparr>"

text \<open>On the page of a child that is still active every link works.\<close>

theorem pages_lead_on_witness:
  "\<exists>pg h. render_page demo_request demo_open = Some (page_status demo_request demo_open, pg)
     \<and> index_tmpl demo_funcs 62135596800000000010 demo_open pg = Some h
     \<and> (\<forall>q \<in> set (html_links h). page_status (follow q) demo_open = 200)"
proof -
  from pages_lead_on [OF demo_reachable(2), of demo_request demo_funcs 62135596800000000010] obtain pg h where
      h: "render_page demo_request demo_open = Some (page_status demo_request demo_open, pg)"
        "index_tmpl demo_funcs 62135596800000000010 demo_open pg = Some h"
      and dead: "\<forall>q \<in> set (html_links h). page_status (follow q) demo_open \<noteq> 200 \<longrightarrow>
        (\<exists>a b r. pg_trace pg = Some a \<and> (refers (st_heap demo_open))\<^sup>*\<^sup>* a b \<and> leads_to demo_open b r
           \<and> q = ref_link demo_open b r \<and> \<not> kept demo_open b \<and> \<not> kept demo_open r)"
    by blast
  have "kept demo_open b" if "pg_trace pg = Some a" "(refers (st_heap demo_open))\<^sup>*\<^sup>* a b" for a b
  proof -
    have "valid demo_open a" using page_ok_render [OF demo_reachable(2) h(1)] that(1) by (simp add: page_ok_def)
    then have "valid demo_open b" using refers_valid [OF demo_reachable(2) that(2)] by blast
    moreover have "length (st_heap demo_open) = 2" by (simp add: demo_eval)
    ultimately have "b = 0 \<or> b = 1" by (auto simp: valid_def)
    then show ?thesis using open_trace_kept [OF net_reachable_inv [OF demo_reachable(2)]] demo_open_trace by blast
  qed
  with h dead show ?thesis by blast
qed

end
