(* ===== verification/Caching_Dump.thy ===== *)
theory Caching_Dump
  imports Caching_Properties Go_Sort
begin

text \<open>
  \<^verbatim>\<open>DumpCache\<close> of \<^verbatim>\<open>internal/dnsserver/resolver.go\<close>, a page of the monitoring server: the entries of the
  cache by expiry. Names and records are on it only when the program is verbose. \<open>v\<close> is the
  verbosity, \<open>show_time\<close> stands for \<^verbatim>\<open>Time.String\<close>, and \<open>now i\<close> is the clock at the entry \<open>i\<close>. An empty
  answer would make \<^verbatim>\<open>getTTL\<close> panic (\<open>None\<close>).
\<close>

section \<open>The page\<close>

definition dump_name :: "nat \<Rightarrow> question \<Rightarrow> string" where
  "dump_name v q = (if 1 \<le> v then q_name q else ''<hidden>'')"

definition dump_records :: "dns_lib \<Rightarrow> nat \<Rightarrow> rr list \<Rightarrow> string" where
  "dump_records L v ans =
     (if 1 \<le> v then concat (map (\<lambda>rr. ''   '' @ rr_string L rr @ [CHR 0x0A]) ans)
      else ''   '' @ show_nat (length ans) @ '' RRs in answer'' @ [CHR 0x0A])"

definition dump_entry ::
    "dns_lib \<Rightarrow> nat \<Rightarrow> (instant \<Rightarrow> string) \<Rightarrow> instant \<Rightarrow> question \<Rightarrow> rr list \<Rightarrow> string option" where
  "dump_entry L v show_time now q ans =
     map_option (\<lambda>ttl.
         ''Q: '' @ dump_name v q @ '' '' @ type_to_string L (q_type q) @ '' '' @ class_to_string L (q_class q) @ [CHR 0x0A]
         @ ''   expires in '' @ show_duration ttl @ '' ('' @ show_time (now + ttl) @ '')'' @ [CHR 0x0A]
         @ dump_records L v ans
         @ [CHR 0x0A, CHR 0x0A])
       (get_ttl ans)"

definition expires_before :: "(question, rr list) gomap \<Rightarrow> question \<Rightarrow> question \<Rightarrow> bool" where
  "expires_before m q q' \<longleftrightarrow> ttl_of (gm_get [] m q) < ttl_of (gm_get [] m q')"

definition dump_order :: "(question, rr list) gomap \<Rightarrow> question list" where
  "dump_order m = go_sort (expires_before m) (map fst m)"

fun dump_all ::
    "dns_lib \<Rightarrow> nat \<Rightarrow> (instant \<Rightarrow> string) \<Rightarrow> (nat \<Rightarrow> instant) \<Rightarrow> (question, rr list) gomap \<Rightarrow> nat \<Rightarrow> question list \<Rightarrow>
     string option" where
  "dump_all L v show_time now m i [] = Some []"
| "dump_all L v show_time now m i (q # qs) =
     (case dump_entry L v show_time (now i) q (gm_get [] m q) of
        None \<Rightarrow> None
      | Some s \<Rightarrow> map_option (\<lambda>rest. s @ rest) (dump_all L v show_time now m (i + 1) qs))"

definition dump_cache ::
    "dns_lib \<Rightarrow> nat \<Rightarrow> (instant \<Rightarrow> string) \<Rightarrow> (nat \<Rightarrow> instant) \<Rightarrow> 's caching \<Rightarrow> string option" where
  "dump_cache L v show_time now c =
     dump_all L v show_time now (cr_answer c) 0 (dump_order (cr_answer c))"

section \<open>What the page shows\<close>

lemma dump_all_total:
  "\<forall>q \<in> set qs. gm_get [] m q \<noteq> [] \<Longrightarrow> \<exists>s. dump_all L v show_time now m i qs = Some s"
  by (induction qs arbitrary: i) (auto simp: dump_entry_def get_ttl_nonempty)

lemma gm_get_in: "gm_wf m \<Longrightarrow> (q, ans) \<in> set m \<Longrightarrow> gm_get z m q = ans"
  by (simp add: gm_get_def gm_wf_set_iff)

interpretation expiry: sort_less "expires_before m" for m
  by unfold_locales (auto simp: expires_before_def)

text \<open>Sorting lists that agree in what the order looks at.\<close>

lemma sort_insert_rel:
  assumes "\<And>a b a' b'. R a a' \<Longrightarrow> R b b' \<Longrightarrow> lt a b = lt' a' b'"
  shows "R x y \<Longrightarrow> list_all2 R xs ys \<Longrightarrow> list_all2 R (sort_insert lt x xs) (sort_insert lt' y ys)"
proof (induction xs arbitrary: ys)
  case Nil
  then show ?case by simp
next
  case (Cons z zs)
  then obtain w ws where ys: "ys = w # ws" "R z w" "list_all2 R zs ws" by (auto simp: list_all2_Cons1)
  have "lt z x = lt' w y" using assms [OF ys(2) Cons.prems(1)] .
  with Cons ys show ?case by simp
qed

lemma go_sort_rel:
  assumes "\<And>a b a' b'. R a a' \<Longrightarrow> R b b' \<Longrightarrow> lt a b = lt' a' b'"
  shows "list_all2 R xs ys \<Longrightarrow> list_all2 R (go_sort lt xs) (go_sort lt' ys)"
  by (induction rule: list_all2_induct) (auto intro: sort_insert_rel [OF assms])

text \<open>Two entries a reader who may not see names cannot tell apart.\<close>

definition looks_like :: "question \<times> rr list \<Rightarrow> question \<times> rr list \<Rightarrow> bool" where
  "looks_like e e' \<longleftrightarrow> q_type (fst e) = q_type (fst e') \<and> q_class (fst e) = q_class (fst e')
     \<and> length (snd e) = length (snd e') \<and> get_ttl (snd e) = get_ttl (snd e')"

definition key_like :: "(question, rr list) gomap \<Rightarrow> (question, rr list) gomap \<Rightarrow> question \<Rightarrow> question \<Rightarrow> bool" where
  "key_like m m' q q' \<longleftrightarrow> gm_get [] m q \<noteq> [] \<and> looks_like (q, gm_get [] m q) (q', gm_get [] m' q')"

lemma looks_like_entry:
  "looks_like (q, ans) (q', ans') \<Longrightarrow> dump_entry L 0 show_time now q ans = dump_entry L 0 show_time now q' ans'"
  by (auto simp: looks_like_def dump_entry_def dump_name_def dump_records_def)

lemma dump_all_rel:
  "list_all2 (key_like m m') qs qs' \<Longrightarrow> dump_all L 0 show_time now m i qs = dump_all L 0 show_time now m' i qs'"
proof (induction arbitrary: i rule: list_all2_induct)
  case Nil
  then show ?case by simp
next
  case (Cons q qs q' qs')
  have "dump_entry L 0 show_time (now i) q (gm_get [] m q) = dump_entry L 0 show_time (now i) q' (gm_get [] m' q')"
    using Cons.hyps(1) by (intro looks_like_entry) (simp add: key_like_def)
  with Cons.IH [of "Suc i"] show ?case by (simp split: option.split)
qed

lemma key_like_keys:
  assumes "gm_wf m" and "gm_wf m'" and "list_all2 looks_like m m'" and "\<forall>e \<in> set m. snd e \<noteq> []"
  shows "list_all2 (key_like m m') (map fst m) (map fst m')"
proof -
  have "key_like m m' (fst (m ! i)) (fst (m' ! i))" if i: "i < length m" for i
  proof -
    have "i < length m'" "looks_like (m ! i) (m' ! i)" using assms(3) i by (auto simp: list_all2_conv_all_nth)
    moreover from this have "gm_get [] m (fst (m ! i)) = snd (m ! i)" "gm_get [] m' (fst (m' ! i)) = snd (m' ! i)"
      using assms(1,2) i by (auto intro!: gm_get_in)
    ultimately show ?thesis using assms(4) i by (simp add: key_like_def)
  qed
  with assms(3) show ?thesis by (auto simp: list_all2_conv_all_nth)
qed

lemma key_like_less:
  assumes "key_like m m' a a'" and "key_like m m' b b'"
  shows "expires_before m a b = expires_before m' a' b'"
proof -
  have "ttl_of (gm_get [] m q) = ttl_of (gm_get [] m' q')" if "key_like m m' q q'" for q q'
  proof -
    have "gm_get [] m' q' \<noteq> []" using that by (auto simp: key_like_def looks_like_def)
    with that get_ttl_nonempty [of "gm_get [] m q"] show ?thesis by (auto simp: key_like_def looks_like_def get_ttl_nonempty)
  qed
  with assms show ?thesis by (simp add: expires_before_def)
qed

lemma dump_total:
  assumes "cache_wf cfg (cr_answer c)"
  shows "\<exists>s. dump_cache L v show_time now c = Some s"
proof -
  have "gm_wf (cr_answer c)" "\<forall>e \<in> set (cr_answer c). snd e \<noteq> []"
    using assms cache_wf_nonempty [OF assms] by (auto simp: cache_wf_def)
  then have "gm_get [] (cr_answer c) (fst e) \<noteq> []" if "e \<in> set (cr_answer c)" for e
    using gm_get_in [of "cr_answer c" "fst e" "snd e"] that by simp
  then show ?thesis
    unfolding dump_cache_def by (intro dump_all_total) (auto simp: dump_order_def)
qed

section \<open>The page, entry by entry\<close>

text \<open>The lines of an entry, and the text of a page of entries; \<open>now i\<close> is the clock at entry \<open>i\<close>.\<close>

definition entry_lines ::
    "dns_lib \<Rightarrow> nat \<Rightarrow> (instant \<Rightarrow> string) \<Rightarrow> instant \<Rightarrow> question \<times> rr list \<Rightarrow> string list" where
  "entry_lines L v show_time now e =
     (let q = fst e; ans = snd e; ttl = int (unat (rr_ttl (hd ans))) * second in
      [''Q: '' @ (if v = 0 then ''<hidden>'' else q_name q) @ '' '' @ type_to_string L (q_type q) @ '' ''
         @ class_to_string L (q_class q),
       ''   expires in '' @ show_duration ttl @ '' ('' @ show_time (now + ttl) @ '')'']
      @ (if v = 0 then [''   '' @ show_nat (length ans) @ '' RRs in answer'']
         else map (\<lambda>rr. ''   '' @ rr_string L rr) ans)
      @ [[], []])"

definition lines_text :: "string list \<Rightarrow> string" where
  "lines_text ls = concat (map (\<lambda>l. l @ [CHR 0x0A]) ls)"

fun entries_text ::
    "dns_lib \<Rightarrow> nat \<Rightarrow> (instant \<Rightarrow> string) \<Rightarrow> (nat \<Rightarrow> instant) \<Rightarrow> nat \<Rightarrow> (question \<times> rr list) list \<Rightarrow> string" where
  "entries_text L v show_time now i [] = []"
| "entries_text L v show_time now i (e # es) =
     lines_text (entry_lines L v show_time (now i) e) @ entries_text L v show_time now (i + 1) es"

lemma lines_text_simps [simp]:
  "lines_text [] = []" "lines_text (l # ls) = l @ CHR 0x0A # lines_text ls"
  "lines_text (ls @ ls') = lines_text ls @ lines_text ls'"
  by (simp_all add: lines_text_def)

lemma lines_text_map: "lines_text (map f xs) = concat (map (\<lambda>x. f x @ [CHR 0x0A]) xs)"
  by (simp add: lines_text_def comp_def)

lemma dump_entry_lines:
  "ans \<noteq> [] \<Longrightarrow> dump_entry L v show_time now q ans = Some (lines_text (entry_lines L v show_time now (q, ans)))"
  by (auto simp: dump_entry_def get_ttl_nonempty ttl_of_def ttl_duration_def entry_lines_def dump_name_def
      dump_records_def lines_text_map Let_def)

lemma dump_all_text:
  "\<forall>q \<in> set qs. gm_get [] m q \<noteq> [] \<Longrightarrow>
     dump_all L v show_time now m i qs = Some (entries_text L v show_time now i (map (\<lambda>q. (q, gm_get [] m q)) qs))"
  by (induction qs arbitrary: i) (simp_all add: dump_entry_lines)

text \<open>The entries in the order of the page.\<close>

lemma dump_entries:
  assumes "gm_wf m"
  shows "mset (map (\<lambda>q. (q, gm_get [] m q)) (dump_order m)) = mset m"
    and "sorted_wrt (\<lambda>e e'. rr_ttl (hd (snd e)) \<le> rr_ttl (hd (snd e'))) (map (\<lambda>q. (q, gm_get [] m q)) (dump_order m))"
proof -
  have "map (\<lambda>q. (q, gm_get [] m q)) (map fst m) = m"
    using gm_get_in [OF assms] by (auto simp: comp_def intro!: map_idI)
  then show "mset (map (\<lambda>q. (q, gm_get [] m q)) (dump_order m)) = mset m"
    unfolding dump_order_def by (metis mset_go_sort mset_map)
  have le: "a \<le> b" if "\<not> ttl_duration b < ttl_duration a" for a b :: u32
    using that by (simp add: ttl_duration_def word_le_def)
  have "sorted_wrt (\<lambda>q q'. \<not> expires_before m q' q) (dump_order m)"
    unfolding dump_order_def by (rule expiry.go_sort_sorted)
  then show "sorted_wrt (\<lambda>e e'. rr_ttl (hd (snd e)) \<le> rr_ttl (hd (snd e'))) (map (\<lambda>q. (q, gm_get [] m q)) (dump_order m))"
    unfolding sorted_wrt_map by (rule sorted_wrt_mono_rel [rotated]) (auto simp: expires_before_def ttl_of_def intro!: le)
qed

section \<open>Properties\<close>

text \<open>
  C40: The dump of a well-formed cache does not panic, and its text is that of all entries, each once,
  the first to expire first: for an entry a line with its question, one with its TTL and the time it
  expires, its records, and two empty lines. Unless the program is verbose it tells nothing of names
  and records: two caches whose entries have the same types, classes, TTLs and numbers of records
  give the same page.
\<close>

theorem dump_cache_correct:
  fixes c :: "'a caching"
  assumes "cache_wf cfg (cr_answer c)"
  shows "(\<exists>es. mset es = mset (cr_answer c)
      \<and> sorted_wrt (\<lambda>e e'. rr_ttl (hd (snd e)) \<le> rr_ttl (hd (snd e'))) es
      \<and> dump_cache L v show_time now c = Some (entries_text L v show_time now 0 es))
    \<and> (\<forall>c' :: 'a caching. cache_wf cfg (cr_answer c') \<and> list_all2 looks_like (cr_answer c) (cr_answer c') \<longrightarrow>
          dump_cache L 0 show_time now c' = dump_cache L 0 show_time now c)"
proof (intro conjI allI impI)
  have wf: "gm_wf (cr_answer c)" "\<forall>e \<in> set (cr_answer c). snd e \<noteq> []"
    using assms cache_wf_nonempty [OF assms] by (auto simp: cache_wf_def)
  let ?es = "map (\<lambda>q. (q, gm_get [] (cr_answer c) q)) (dump_order (cr_answer c))"
  note es = dump_entries [OF wf(1)]
  have "\<forall>e \<in> set ?es. snd e \<noteq> []" unfolding mset_eq_setD [OF es(1)] by (rule wf(2))
  then have "dump_cache L v show_time now c = Some (entries_text L v show_time now 0 ?es)"
    unfolding dump_cache_def by (intro dump_all_text) simp
  with es show "\<exists>es. mset es = mset (cr_answer c)
      \<and> sorted_wrt (\<lambda>e e'. rr_ttl (hd (snd e)) \<le> rr_ttl (hd (snd e'))) es
      \<and> dump_cache L v show_time now c = Some (entries_text L v show_time now 0 es)" by blast
  fix c' :: "'a caching"
  assume c': "cache_wf cfg (cr_answer c') \<and> list_all2 looks_like (cr_answer c) (cr_answer c')"
  then have "gm_wf (cr_answer c')" by (simp add: cache_wf_def)
  from key_like_keys [OF wf(1) this _ wf(2)] c'
  have "list_all2 (key_like (cr_answer c) (cr_answer c')) (map fst (cr_answer c)) (map fst (cr_answer c'))" by blast
  then have "list_all2 (key_like (cr_answer c) (cr_answer c')) (dump_order (cr_answer c)) (dump_order (cr_answer c'))"
    unfolding dump_order_def by (rule go_sort_rel [rotated]) (rule key_like_less)
  from dump_all_rel [OF this] show "dump_cache L 0 show_time now c' = dump_cache L 0 show_time now c"
    by (simp add: dump_cache_def)
qed

definition dump_example :: "string \<Rightarrow> nat caching" where
  "dump_example name = (new_caching_resolver 0)\<lparr>cr_answer :=
     [(ex_q\<lparr>q_name := name\<rparr>, [(ex_rr 300)\<lparr>rr_name := name\<rparr>])]\<rparr>"

theorem dump_cache_correct_witness:
  "dump_cache plain_lib 1 show_int (\<lambda>i. 0) (dump_example ''a.'') = Some (lines_text
     [''Q: a. A IN'', ''   expires in '' @ show_duration (300 * second) @ '' ('' @ show_int (300 * second) @ '')'',
      ''   a. 300 IN A 1.2.3.4'', [], []])
   \<and> dump_cache plain_lib 0 show_int (\<lambda>i. 0) (dump_example ''b.'') = dump_cache plain_lib 0 show_int (\<lambda>i. 0) (dump_example ''a.'')"
proof -
  have wf: "cache_wf default_cfg (cr_answer (dump_example name))" for name
    by (simp add: dump_example_def cache_wf_def gm_wf_def entry_ok_def default_cfg_def ttl_of_def ttl_duration_def ex_rr_def)
  have "list_all2 looks_like (cr_answer (dump_example ''a.'')) (cr_answer (dump_example ''b.''))"
    by (simp add: dump_example_def looks_like_def ex_q_def ex_rr_def get_ttl_def)
  moreover obtain es where es: "mset es = mset (cr_answer (dump_example ''a.''))"
      "dump_cache plain_lib 1 show_int (\<lambda>i. 0) (dump_example ''a.'') = Some (entries_text plain_lib 1 show_int (\<lambda>i. 0) 0 es)"
    using dump_cache_correct [OF wf, where L = plain_lib and v = 1 and show_time = show_int and now = "\<lambda>i. 0"] by blast
  moreover from es(1) have "es = cr_answer (dump_example ''a.'')" by (simp add: dump_example_def)
  ultimately show ?thesis
    using dump_cache_correct [OF wf, where L = plain_lib and v = 1 and show_time = show_int and now = "\<lambda>i. 0"] wf
    by (auto simp: dump_example_def entry_lines_def plain_lib_def ex_q_def ex_rr_def Let_def)
qed

end
