(* ===== verification/Monitoring_Site.thy ===== *)
theory Monitoring_Site
  imports Go_Mux Monitoring_Page Dnss_Program_Properties Net_Links Caching_Dump
begin

text \<open>
  The monitoring server: which handlers \<^verbatim>\<open>monitoringServer\<close> (\<^verbatim>\<open>monitoring.go\<close>), \<^verbatim>\<open>RegisterHandler\<close>
  (\<^verbatim>\<open>internal/nettrace/http.go\<close>), \<^verbatim>\<open>RegisterDebugHandlers\<close> (\<^verbatim>\<open>internal/dnsserver/resolver.go\<close>) and the
  packages of the library register, where the links of its index page lead, and what a request gets.
  \<^verbatim>\<open>monitoringServer\<close> runs next to \<^verbatim>\<open>main\<close>, so the handlers may be registered in any order. The pages of
  the library are a parameter.
\<close>

section \<open>The handlers\<close>

datatype page_handler =
    DebugRoot
  | RenderTraces
  | DumpCache
  | FlushCache
  | LibraryPage string

definition handle_func :: "string \<Rightarrow> page_handler \<Rightarrow> page_handler mux_route" where
  "handle_func p h = \<lparr>rt_method = None, rt_path = p, rt_handler = h\<rparr>"

definition library_page :: "string \<Rightarrow> page_handler mux_route" where
  "library_page p = \<lparr>rt_method = Some ''GET'', rt_path = p, rt_handler = LibraryPage p\<rparr>"

text \<open>Importing \<^verbatim>\<open>net/http/pprof\<close> (\<^verbatim>\<open>dnss.go\<close>) and \<^verbatim>\<open>expvar\<close> (\<^verbatim>\<open>stats.go\<close>) registers their pages.\<close>

definition library_routes :: "page_handler mux_route list" where
  "library_routes = map library_page [''/debug/pprof/'', ''/debug/pprof/cmdline'', ''/debug/pprof/profile'',
     ''/debug/pprof/symbol'', ''/debug/pprof/trace'', ''/debug/vars'']"

definition register_handler :: "page_handler mux_route list" where
  "register_handler = [handle_func ''/debug/traces'' RenderTraces]"

definition register_debug_handlers :: "page_handler mux_route list" where
  "register_debug_handlers =
     [handle_func ''/debug/dnsserver/cache/dump'' DumpCache, handle_func ''/debug/dnsserver/cache/flush'' FlushCache]"

definition monitoring_server :: "string \<Rightarrow> string \<times> page_handler mux_route list" where
  "monitoring_server addr = (addr, handle_func ''/'' DebugRoot # register_handler)"

definition service_routes :: "service \<Rightarrow> page_handler mux_route list" where
  "service_routes s =
     (case s of
        SvcMonitoring addr \<Rightarrow> snd (monitoring_server addr)
      | SvcDns p \<Rightarrow> (case dp_resolver p of Cached c \<Rightarrow> register_debug_handlers | Plain h \<Rightarrow> [])
      | _ \<Rightarrow> [])"

definition site_routes :: "service list \<Rightarrow> page_handler mux_route list" where
  "site_routes svcs = concat (map service_routes svcs)"

section \<open>Requests\<close>

text \<open>\<^verbatim>\<open>debugRoot\<close>: the page for the root, and not found for any other path no other handler has.\<close>

definition debug_root :: "bytes \<Rightarrow> string \<Rightarrow> int \<times> bytes" where
  "debug_root index p = (if p \<noteq> ''/'' then (404, reply_bytes (''404 page not found'' @ [CHR 0x0A])) else (200, index))"

text \<open>What the pages show: the traces and the cache. What they need besides is the \<open>site_env\<close>.\<close>

record site_state =
  si_store :: store
  si_cache :: "https caching option"

record site_env =
  se_dns :: dns_lib
  se_verbosity :: nat
  se_now :: instant
  se_index_data :: index_data
  se_funcs :: tmpl_funcs
  se_html :: "html list \<Rightarrow> bytes"
  se_time_text :: "instant \<Rightarrow> string"
  se_library :: "string \<Rightarrow> http_request \<Rightarrow> int \<times> bytes"

definition exec_index :: "site_env \<Rightarrow> store \<Rightarrow> page \<Rightarrow> string + bytes" where
  "exec_index E st pg =
     (case index_tmpl (se_funcs E) (se_now E) st pg of None \<Rightarrow> Inl ''template'' | Some h \<Rightarrow> Inr (se_html E h))"

definition handle_page ::
    "site_env \<Rightarrow> page_handler \<Rightarrow> string \<Rightarrow> http_request \<Rightarrow> site_state \<Rightarrow> ((int \<times> bytes) \<times> site_state) option" where
  "handle_page E h p req st =
     (case h of
        DebugRoot \<Rightarrow> Some (debug_root (reply_bytes (index_page (tf_format (se_funcs E)) (se_now E) (se_index_data E))) p, st)
      | RenderTraces \<Rightarrow> map_option (\<lambda>r. (r, st)) (render_traces (exec_index E) req (si_store st))
      | DumpCache \<Rightarrow>
          (case si_cache st of
             None \<Rightarrow> None
           | Some c \<Rightarrow> map_option (\<lambda>s. ((200, reply_bytes s), st))
               (dump_cache (se_dns E) (se_verbosity E) (se_time_text E) (\<lambda>i. se_now E) c))
      | FlushCache \<Rightarrow>
          (case si_cache st of
             None \<Rightarrow> None
           | Some c \<Rightarrow> (let (c, text) = flush_cache c in Some ((200, reply_bytes text), st\<lparr>si_cache := Some c\<rparr>)))
      | LibraryPage name \<Rightarrow> Some (se_library E name req, st))"

definition site_request ::
    "page_handler mux_route list \<Rightarrow> site_env \<Rightarrow> string \<Rightarrow> http_request \<Rightarrow> site_state \<Rightarrow> ((int \<times> bytes) \<times> site_state) option" where
  "site_request mux E p req st =
     (case mux_dispatch mux (rq_method req) p of
        Handle h \<Rightarrow> handle_page E h p req st
      | Redirect u \<Rightarrow> Some ((301, []), st)
      | MethodNotAllowed \<Rightarrow> Some ((405, []), st)
      | NotFound \<Rightarrow> Some ((404, []), st))"

section \<open>The handlers of a program that serves\<close>

definition has_cache_pages :: "flags \<Rightarrow> bool" where
  "has_cache_pages fl \<longleftrightarrow> enable_dns_to_https fl \<and> enable_cache fl"

lemma monitoring_service_routes:
  assumes "snd (main_start L parse_url fl) = None" and "monitoring_listen_addr fl \<noteq> []"
  shows "site_routes (fst (main_start L parse_url fl)) =
    handle_func ''/'' DebugRoot # register_handler @ (if has_cache_pages fl then register_debug_handlers else [])"
proof (cases "enable_dns_to_https fl")
  case False
  with assms show ?thesis
    by (auto simp: main_start_def site_routes_def service_routes_def monitoring_server_def has_cache_pages_def Let_def)
next
  case True
  with assms(1) obtain p where p: "dns_to_https L parse_url fl = Inr p" by (auto simp: fatal_start)
  have res: "service_routes (SvcDns p) = (if enable_cache fl then register_debug_handlers else [])"
    using p by (cases rule: dns_to_https_cases [of parse_url fl L]) (auto simp: service_routes_def Let_def)
  from True p assms(2) show ?thesis
    by (simp add: main_start_def site_routes_def res has_cache_pages_def Let_def)
      (simp add: service_routes_def monitoring_server_def)
qed

definition all_routes :: "bool \<Rightarrow> page_handler mux_route list" where
  "all_routes cache = library_routes @ handle_func ''/'' DebugRoot # register_handler @ (if cache then register_debug_handlers else [])"

lemmas route_defs = all_routes_def library_routes_def library_page_def handle_func_def register_handler_def
  register_debug_handlers_def

lemma all_routes_register:
  "mux_register_all [] (all_routes True) \<noteq> None" "mux_register_all [] (all_routes False) \<noteq> None"
  by code_simp+

lemma all_routes_wf: "mux_wf (all_routes cache)"
  using all_routes_register mux_register_all_iff [of "[]" "all_routes cache"]
  by (cases cache) (auto simp: mux_wf_def split: if_splits)

lemma site_mux:
  assumes "snd (main_start L parse_url fl) = None" and "monitoring_listen_addr fl \<noteq> []"
    and "mset rs = mset (site_routes (fst (main_start L parse_url fl)))"
  shows "mux_register_all library_routes rs = Some (library_routes @ rs)"
    and "mux_wf (library_routes @ rs)" and "set (library_routes @ rs) = set (all_routes (has_cache_pages fl))"
    and "mux_dispatch (library_routes @ rs) = mux_dispatch (all_routes (has_cache_pages fl))"
proof -
  have same: "mset (all_routes (has_cache_pages fl)) = mset (library_routes @ rs)"
    using assms(3) monitoring_service_routes [OF assms(1,2)] by (simp add: all_routes_def)
  with all_routes_wf show wf: "mux_wf (library_routes @ rs)" using mux_wf_perm by metis
  then show "mux_register_all library_routes rs = Some (library_routes @ rs)"
    using mux_register_all_iff [OF mux_wf_append1 [OF wf]] by simp
  show "set (library_routes @ rs) = set (all_routes (has_cache_pages fl))" using same mset_eq_setD by metis
  show "mux_dispatch (library_routes @ rs) = mux_dispatch (all_routes (has_cache_pages fl))"
    using mux_dispatch_perm [OF all_routes_wf same] by (intro ext) simp
qed

section \<open>The links of the index page\<close>

text \<open>The handler a browser ends at that opens a link, and is redirected at most once.\<close>

definition url_path :: "string \<Rightarrow> string" where
  "url_path a = takeWhile (\<lambda>c. c \<noteq> CHR ''?'') a"

definition open_link :: "page_handler mux_route list \<Rightarrow> string \<Rightarrow> page_handler option" where
  "open_link mux a =
     (case mux_dispatch mux ''GET'' (url_path a) of
        Handle h \<Rightarrow> Some h
      | Redirect u \<Rightarrow> (case mux_dispatch mux ''GET'' u of Handle h \<Rightarrow> Some h | _ \<Rightarrow> None)
      | _ \<Rightarrow> None)"

definition local_links :: "string \<Rightarrow> string list" where
  "local_links html_page = filter (\<lambda>a. has_prefix a ''/'') (hrefs html_page)"

lemma index_local_links:
  "local_links (index_page format now d) = [''/debug/traces'', ''/debug/dnsserver/cache/dump'', ''/debug/pprof'',
     ''/debug/pprof/goroutine?debug=1'', ''/debug/flags'', ''/debug/vars'']"
  by (simp add: local_links_def index_page_links has_prefix_rec)

lemma open_links:
  "map (open_link (all_routes cache)) [''/debug/traces'', ''/debug/dnsserver/cache/dump'', ''/debug/pprof'',
      ''/debug/pprof/goroutine?debug=1'', ''/debug/flags'', ''/debug/vars'']
   = map Some [RenderTraces, if cache then DumpCache else DebugRoot, LibraryPage ''/debug/pprof/'',
      LibraryPage ''/debug/pprof/'', DebugRoot, LibraryPage ''/debug/vars'']"
  by (cases cache; simp only: if_True if_False; code_simp)

lemma dead_links:
  "mux_dispatch (all_routes cache) ''GET'' ''/debug/flags'' = Handle DebugRoot"
  "mux_dispatch (all_routes False) ''GET'' ''/debug/dnsserver/cache/dump'' = Handle DebugRoot"
  by (cases cache; simp only: if_True if_False; code_simp) code_simp

text \<open>
  C25: A program that serves with a monitoring address registers its pages without a conflict, in
  whatever order \<^verbatim>\<open>main\<close> and the monitoring server get to it. The links of the index page, which no value on
  it can add to, then lead to the traces, to the cache's dump, twice to the profiles, and to
  the variables; but the link to the flags leads to no page, and without a cache neither does the
  one to its dump: they are answered with status 404.
\<close>

theorem monitoring_links:
  assumes "snd (main_start L parse_url fl) = None" and "monitoring_listen_addr fl \<noteq> []"
    and "mset rs = mset (site_routes (fst (main_start L parse_url fl)))"
  shows "\<exists>mux. mux_register_all library_routes rs = Some mux
    \<and> map (open_link mux) (local_links (index_page format now d))
        = map Some [RenderTraces, if has_cache_pages fl then DumpCache else DebugRoot, LibraryPage ''/debug/pprof/'',
            LibraryPage ''/debug/pprof/'', DebugRoot, LibraryPage ''/debug/vars'']
    \<and> (\<forall>E p req st. open_link mux p = Some DebugRoot \<and> rq_method req = ''GET'' \<and> p \<in> set (local_links (index_page format now d)) \<longrightarrow>
        (\<exists>body. site_request mux E p req st = Some ((404, body), st)))"
proof -
  note mux = site_mux [OF assms]
  have open_same: "open_link (library_routes @ rs) = open_link (all_routes (has_cache_pages fl))"
    by (intro ext) (simp only: open_link_def mux(4))
  have "\<exists>body. site_request (library_routes @ rs) E p req st = Some ((404, body), st)"
    if "open_link (library_routes @ rs) p = Some DebugRoot" "rq_method req = ''GET''" "p \<in> set (local_links (index_page format now d))"
    for E p req st
  proof -
    have "mux_dispatch (all_routes (has_cache_pages fl)) ''GET'' p = Handle DebugRoot \<and> p \<noteq> ''/''"
      using that(1,3) open_links [of "has_cache_pages fl"] dead_links(1) [of "has_cache_pages fl"] dead_links(2)
      by (auto simp: open_same index_local_links split: if_splits)
    then show ?thesis using that(2) by (simp add: site_request_def mux(4) handle_page_def debug_root_def)
  qed
  moreover have "map (open_link (library_routes @ rs)) (local_links (index_page format now d))
      = map Some [RenderTraces, if has_cache_pages fl then DumpCache else DebugRoot, LibraryPage ''/debug/pprof/'',
          LibraryPage ''/debug/pprof/'', DebugRoot, LibraryPage ''/debug/vars'']"
    unfolding index_local_links open_same by (rule open_links)
  ultimately show ?thesis using mux(1) by blast
qed

section \<open>Requests are safe\<close>

text \<open>The state of the server: a store of traces that was reached, and the cache if there is one.\<close>

definition site_ok :: "flags \<Rightarrow> site_state \<Rightarrow> bool" where
  "site_ok fl st \<longleftrightarrow> net_reachable (si_store st)
     \<and> (case si_cache st of None \<Rightarrow> \<not> has_cache_pages fl | Some c \<Rightarrow> has_cache_pages fl \<and> cache_wf default_cfg (cr_answer c))"

lemma exec_index_total:
  assumes "net_reachable st"
  shows "\<exists>r. render_traces (exec_index E) req st = Some r"
proof -
  obtain pg where pg: "render_page req st = Some (page_status req st, pg)" using render_page_status [OF assms] by blast
  obtain h where "index_tmpl (se_funcs E) (se_now E) st pg = Some h"
    using index_links [OF assms page_ok_render [OF assms pg]] by blast
  with pg show ?thesis by (simp add: render_traces_def exec_index_def)
qed

definition flushed_by :: "string \<Rightarrow> site_state \<Rightarrow> site_state" where
  "flushed_by p st = (if p = ''/debug/dnsserver/cache/flush'' then st\<lparr>si_cache := map_option (\<lambda>c. c\<lparr>cr_answer := []\<rparr>) (si_cache st)\<rparr> else st)"

lemma flush_route:
  assumes "r \<in> set (all_routes cache)" and "rt_handler r = FlushCache"
  shows "cache \<and> rt_method r = None \<and> rt_path r = ''/debug/dnsserver/cache/flush''"
  using assms by (auto simp: route_defs split: if_splits)

lemma flush_path_only:
  assumes "r \<in> set (all_routes cache)" and "rt_path r = ''/debug/dnsserver/cache/flush''"
  shows "cache \<and> r = handle_func ''/debug/dnsserver/cache/flush'' FlushCache"
  using assms by (auto simp: route_defs split: if_splits)

lemma flush_dispatch: "mux_dispatch (all_routes True) m ''/debug/dnsserver/cache/flush'' = Handle FlushCache"
proof -
  let ?r = "handle_func ''/debug/dnsserver/cache/flush'' FlushCache"
  have r: "?r \<in> set (all_routes True)" by (simp add: all_routes_def register_debug_handlers_def)
  have "\<not> has_suffix ''/debug/dnsserver/cache/flush'' ''/''"
      "clean_path ''/debug/dnsserver/cache/flush'' = ''/debug/dnsserver/cache/flush''" by code_simp+
  from dispatch_exact [OF all_routes_wf r _ _ _ this] flush_path_only [of _ True] show ?thesis
    by (simp add: handle_func_def)
qed

lemma request_unflushed:
  assumes mux: "mux_dispatch mux = mux_dispatch (all_routes (has_cache_pages fl))" and st: "site_ok fl st"
    and other: "\<not> (\<exists>c. si_cache st = Some c \<and> p = ''/debug/dnsserver/cache/flush'')"
  shows "\<exists>resp. site_request mux E p req st = Some (resp, st)"
proof (cases "mux_dispatch mux (rq_method req) p")
  case (Handle h)
  then obtain r where r: "r \<in> set (all_routes (has_cache_pages fl))" "rt_handler r = h" "route_matches (rq_method req) p r"
    using dispatch_handle unfolding mux by metis
  show ?thesis
  proof (cases h)
    case RenderTraces
    with Handle exec_index_total [of "si_store st" E req] st show ?thesis
      by (auto simp: site_request_def handle_page_def site_ok_def)
  next
    case DumpCache
    with r have "has_cache_pages fl" by (auto simp: route_defs split: if_splits)
    with st obtain c where c: "si_cache st = Some c" "cache_wf default_cfg (cr_answer c)"
      by (auto simp: site_ok_def split: option.splits)
    with Handle DumpCache dump_total [OF c(2), of "se_dns E" "se_verbosity E" "se_time_text E" "\<lambda>i. se_now E"] show ?thesis
      by (auto simp: site_request_def handle_page_def)
  next
    case FlushCache
    from flush_route [OF r(1)] r(2) FlushCache have "has_cache_pages fl" "rt_path r = ''/debug/dnsserver/cache/flush''" by auto
    with r(3) st other have False
      by (auto simp: route_matches_def path_covers_def has_suffix_def site_ok_def split: option.splits)
    then show ?thesis ..
  qed (use Handle in \<open>auto simp: site_request_def handle_page_def\<close>)
qed (auto simp: site_request_def)

text \<open>
  C26: No request to the monitoring server panics, whatever its path, method and parameters are: it gets
  a response, and changes nothing; but a request for the path that flushes the cache, with any
  method, leaves the cache without entries. After it the server is as able to serve as before.
\<close>

theorem monitoring_requests_safe:
  assumes "snd (main_start L parse_url fl) = None" and "monitoring_listen_addr fl \<noteq> []"
    and "mset rs = mset (site_routes (fst (main_start L parse_url fl)))"
    and "mux_register_all library_routes rs = Some mux" and "site_ok fl st"
  shows "\<exists>resp. site_request mux E p req st = Some (resp, flushed_by p st) \<and> site_ok fl (flushed_by p st)"
proof -
  note site = site_mux [OF assms(1-3)]
  let ?routes = "all_routes (has_cache_pages fl)"
  have mux: "mux_dispatch mux = mux_dispatch ?routes" using site(1,4) assms(4) by simp
  have ok: "site_ok fl (flushed_by p st)"
    using assms(5) by (auto simp: site_ok_def flushed_by_def cache_wf_def gm_wf_def split: option.splits)
  have unflushed: "flushed_by p st = st" if "\<not> (\<exists>c. si_cache st = Some c \<and> p = ''/debug/dnsserver/cache/flush'')"
    using that by (cases "si_cache st") (auto simp: flushed_by_def)
  show ?thesis
  proof (cases "\<exists>c. si_cache st = Some c \<and> p = ''/debug/dnsserver/cache/flush''")
    case True
    then obtain c where c: "si_cache st = Some c" "p = ''/debug/dnsserver/cache/flush''" by blast
    with assms(5) have "has_cache_pages fl" by (simp add: site_ok_def)
    with c flush_dispatch have "mux_dispatch mux (rq_method req) p = Handle FlushCache" by (simp add: mux)
    with c ok show ?thesis by (simp add: site_request_def handle_page_def flush_cache_def flushed_by_def)
  next
    case False
    from request_unflushed [OF mux assms(5) False] ok unflushed [OF False] show ?thesis by auto
  qed
qed

section \<open>Witnesses\<close>

definition site_flags :: flags where
  "site_flags = ex_flags\<lparr>monitoring_listen_addr := '':9981''\<rparr>"

definition site_services :: "service list" where
  "site_services = fst (main_start plain_lib Inr site_flags)"

lemma site_flags_serve: "snd (main_start plain_lib Inr site_flags) = None" "monitoring_listen_addr site_flags \<noteq> []"
    "has_cache_pages site_flags"
  using ex_flags_parse
  by (simp_all add: fatal_start dns_to_https_def has_cache_pages_def site_flags_def ex_flags_def default_flags_def Let_def)

definition site_demo :: site_state where
  "site_demo = \<lparr>si_store = demo_open, si_cache = Some (new_caching_resolver (new_doh [] [] []))\<rparr>"

definition site_demo_env :: site_env where
  "site_demo_env = \<lparr>se_dns = plain_lib, se_verbosity = 0, se_now = 62135596800000000020,
     se_index_data = index_data_of ''localhost'' (''20240101'', 0) ''go1.25'' 0 [] [] [],
     se_funcs = demo_funcs, se_html = (\<lambda>h. []), se_time_text = show_int,
     se_library = (\<lambda>name req. (200, []))\<rparr>"

text \<open>With the handlers registered in the reverse order.\<close>

theorem monitoring_links_witness:
  "\<exists>mux. mux_register_all library_routes (rev (site_routes site_services)) = Some mux
     \<and> open_link mux ''/debug/dnsserver/cache/dump'' = Some DumpCache \<and> open_link mux ''/debug/flags'' = Some DebugRoot"
  using monitoring_links [OF site_flags_serve(1,2), of "rev (site_routes site_services)"] site_flags_serve(3)
  by (auto simp: site_services_def index_local_links)

theorem monitoring_requests_safe_witness:
  "\<exists>mux resp st. mux_register_all library_routes (site_routes site_services) = Some mux
     \<and> site_request mux site_demo_env ''/debug/dnsserver/cache/flush'' demo_request site_demo = Some (resp, st) \<and> site_ok site_flags st"
proof -
  have ok: "site_ok site_flags site_demo"
    using demo_reachable(2) site_flags_serve(3)
    by (simp add: site_ok_def site_demo_def new_caching_resolver_def cache_wf_def gm_wf_def)
  have "mset (site_routes site_services) = mset (site_routes (fst (main_start plain_lib Inr site_flags)))"
    by (simp add: site_services_def)
  from site_mux(1) [OF site_flags_serve(1,2) this]
    monitoring_requests_safe [OF site_flags_serve(1,2) this _ ok, of _ site_demo_env "''/debug/dnsserver/cache/flush''" demo_request]
  show ?thesis by blast
qed

end
