(* ===== verification/Test_Support.thy ===== *)
theory Test_Support
  imports Dnss_Program_Properties
begin

text \<open>
  \<^verbatim>\<open>internal/testutil/testutil.go\<close>: the resolver with a recorded response that the tests put under the
  server, the loops that wait for a server to start, and the helpers around them. The network is a
  parameter, and the ticks of a loop are the times \<^verbatim>\<open>time.Tick\<close> delivers. Messages are values here: that
  callers get the recorded response itself, and may change it, is not modelled.
  \<^verbatim>\<open>ServeTestDNSServer\<close> only runs a server of the DNS library.
\<close>

section \<open>Waiting for a server\<close>

text \<open>
  The loop of both functions: a probe after each tick before the deadline, the \<open>i\<close>-th tick being at
  \<open>tick i\<close>, until one succeeds. The inner \<open>None\<close> is a nil error. The outer one would be a loop that does not end.
\<close>

partial_function (option) wait_loop ::
    "(nat \<Rightarrow> instant) \<Rightarrow> (nat \<Rightarrow> bool) \<Rightarrow> instant \<Rightarrow> nat \<Rightarrow> string option option" where
  "wait_loop tick probe deadline i =
     (if tick i < deadline
      then (if probe i then Some None else wait_loop tick probe deadline (i + 1))
      else Some (Some ''timed out''))"

definition wait_for_dns_server ::
    "string option \<Rightarrow> instant \<Rightarrow> (nat \<Rightarrow> instant) \<Rightarrow> (nat \<Rightarrow> bool) \<Rightarrow> string option option" where
  "wait_for_dns_server dial now tick probe =
     (case dial of
        Some err \<Rightarrow> Some (Some (''dns.Dial error: '' @ err))
      | None \<Rightarrow> wait_loop tick probe (now + 5 * second) 0)"

definition wait_for_http_server :: "instant \<Rightarrow> (nat \<Rightarrow> instant) \<Rightarrow> (nat \<Rightarrow> bool) \<Rightarrow> string option option" where
  "wait_for_http_server now tick probe = wait_loop tick probe (now + 5 * second) 0"

section \<open>Helpers\<close>

text \<open>\<^verbatim>\<open>GetFreePort\<close> ignores the error of \<^verbatim>\<open>net.Listen\<close>, and then panics.\<close>

definition get_free_port :: "string + string \<Rightarrow> string option" where
  "get_free_port listen = (case listen of Inl err \<Rightarrow> None | Inr addr \<Rightarrow> Some addr)"

definition dns_query ::
    "dns_lib \<Rightarrow> u16 \<Rightarrow> (msg \<Rightarrow> string \<Rightarrow> string + msg) \<Rightarrow> string \<Rightarrow> string \<Rightarrow> u16 \<Rightarrow> string + msg \<times> rr option" where
  "dns_query L new_id exch srv addr qtype =
     (let m = set_question L new_id addr qtype in
      case exch m srv of
        Inl err \<Rightarrow> Inl err
      | Inr reply \<Rightarrow> (case m_answer reply of rr # _ \<Rightarrow> Inr (reply, Some rr) | [] \<Rightarrow> Inr (reply, None)))"

text \<open>\<^verbatim>\<open>NewRR\<close> ends the test (\<open>Inl\<close>) when the library cannot parse the record.\<close>

definition new_rr :: "(string \<Rightarrow> string + rr) \<Rightarrow> string \<Rightarrow> string + rr" where
  "new_rr parse s = (case parse s of Inl err \<Rightarrow> Inl (''Error parsing RR for testing: '' @ err) | Inr rr \<Rightarrow> Inr rr)"

definition make_static_handler :: "(string \<Rightarrow> string + rr) \<Rightarrow> (msg \<Rightarrow> msg) \<Rightarrow> string \<Rightarrow> string + (msg \<Rightarrow> msg)" where
  "make_static_handler parse set_reply answer =
     map_sum id (\<lambda>rr r. (let m = set_reply r in m\<lparr>m_answer := m_answer m @ [rr]\<rparr>)) (new_rr parse answer)"

section \<open>The resolver under test\<close>

record test_resolver =
  tr_initialized :: bool
  tr_maintain_c :: "bool list"
  tr_last_query :: "msg option"
  tr_response :: "msg option"
  tr_resp_error :: "string option"

definition new_test_resolver :: test_resolver where
  "new_test_resolver = \<lparr>tr_initialized = False, tr_maintain_c = [], tr_last_query = None, tr_response = None,
     tr_resp_error = None\<rparr>"

definition test_init :: "test_resolver \<Rightarrow> string option \<times> test_resolver" where
  "test_init r = (None, r\<lparr>tr_initialized := True\<rparr>)"

text \<open>The channel has room for one value; with one in it \<^verbatim>\<open>Maintain\<close> blocks (\<open>None\<close>).\<close>

definition test_maintain :: "test_resolver \<Rightarrow> test_resolver option" where
  "test_maintain r = (if length (tr_maintain_c r) < 1 then Some (r\<lparr>tr_maintain_c := tr_maintain_c r @ [True]\<rparr>) else None)"

definition test_query :: "msg \<Rightarrow> test_resolver \<Rightarrow> (msg option \<times> string option) \<times> test_resolver" where
  "test_query req r =
     (let r = r\<lparr>tr_last_query := Some req\<rparr>;
          r = (case tr_response r of
                 None \<Rightarrow> r
               | Some m \<Rightarrow> r\<lparr>tr_response := Some (m\<lparr>m_question := m_question req, m_authoritative := True\<rparr>)\<rparr>)
      in ((tr_response r, tr_resp_error r), r))"

text \<open>
  As a \<open>resolver\<close>: the error, or else the message; without either every caller panics, as it uses the
  message. A maintenance that blocks does so in a goroutine of its own.
\<close>

definition test_query_fn :: "test_resolver query_fn" where
  "test_query_fn req r w =
     (case test_query req r of
        ((_, Some err), r) \<Rightarrow> Some (Inl err, r, w)
      | ((Some m, None), r) \<Rightarrow> Some (Inr m, r, w)
      | ((None, None), r) \<Rightarrow> None)"

definition test_tick :: "(test_resolver, unit) tick_fn" where
  "test_tick e r w = Some (case test_maintain r of None \<Rightarrow> r | Some r' \<Rightarrow> r', w)"

definition test_ready :: "test_resolver \<Rightarrow> bool" where
  "test_ready r \<longleftrightarrow> tr_response r \<noteq> None \<or> tr_resp_error r \<noteq> None"

lemma test_query_fn_cases:
  "test_query_fn req r w =
     (if test_ready r then Some (fst (the (test_query_fn req r w)), snd (test_query req r), w) else None)"
  "test_ready r \<Longrightarrow> test_ready (snd (test_query req r))"
  by (auto simp: test_query_fn_def test_query_def test_ready_def Let_def split: option.splits)

lemma test_tick_ready: "test_ready r \<Longrightarrow> \<exists>r'. test_tick e r w = Some (r', w) \<and> test_ready r'"
  by (auto simp: test_tick_def test_maintain_def test_ready_def split: option.splits)

interpretation test_quiet: quiet_resolver test_query_fn test_tick test_ready
proof
  fix s r w
  assume "test_ready s"
  then show "\<exists>res s' w'. test_query_fn r s w = Some (res, s', w') \<and> test_ready s'"
    using test_query_fn_cases by metis
next
  fix s e w
  assume "test_ready s"
  then show "\<exists>s' w'. test_tick e s w = Some (s', w') \<and> test_ready s'" using test_tick_ready by blast
next
  fix r s w res s' w' n
  assume "test_query_fn r s w = Some (res, s', w')"
  then show "count w' n = count w n" by (subst (asm) test_query_fn_cases(1)) (auto split: if_splits)
next
  fix e s w s' w' n
  assume "test_tick e s w = Some (s', w')"
  then show "count w' n = count w n" by (auto simp: test_tick_def)
qed

interpretation test_cached: quiet_caching test_query_fn test_tick test_ready L default_cfg for L
  by unfold_locales (rule cfg_ok_default)

interpretation test_plain_server: dns_frontend test_query_fn test_tick test_ready L v srv for L v srv
  by unfold_locales

interpretation test_cached_server: dns_frontend
    "caching_query L default_cfg test_query_fn" "caching_tick default_cfg test_tick" "caching_inv default_cfg test_ready" L v srv
  for L v srv
  by (intro dns_frontend.intro test_cached.cached_quiet.quiet_resolver_axioms)

section \<open>What they do\<close>

text \<open>
  The tests of the server run it over such a resolver, with the cache and without: once it has a
  response or an error to give, the server replies to every query once and never panics. Without
  both a query that reaches it is a panic.
\<close>

lemma test_server_total:
  assumes "test_ready r"
  shows "\<exists>st. server_run L v srv test_query_fn test_tick es (new_dns_state r tap) = Some st
      \<and> length (dn_written st) = length (filter is_query es) \<and> routes_balance (dn_world st) = 0"
    and "\<exists>st. server_run L v srv (caching_query L default_cfg test_query_fn) (caching_tick default_cfg test_tick) es'
        (new_dns_state (new_caching_resolver r) tap) = Some st
      \<and> length (dn_written st) = length (filter is_query es') \<and> routes_balance (dn_world st) = 0"
  using test_plain_server.server_run_total [of "new_dns_state r tap" L v srv es]
    test_cached_server.server_run_total [of "new_dns_state (new_caching_resolver r) tap" L v srv es'] assms
  by (auto simp: balance_empty caching_inv_new) (auto simp: new_dns_state_def caching_inv_new)

lemma test_resolver_unset: "\<not> test_ready r \<Longrightarrow> test_query_fn req r w = None" "\<not> test_ready new_test_resolver"
  by (auto simp: test_query_fn_cases(1) [of req r w] test_ready_def new_test_resolver_def)

lemma wait_loop_result:
  assumes "\<And>i. i < n \<Longrightarrow> tick i < deadline" and "deadline \<le> tick n" and "k \<le> n"
  shows "wait_loop tick probe deadline k = Some (if \<exists>i. k \<le> i \<and> i < n \<and> probe i then None else Some ''timed out'')"
  using assms(3)
proof (induction rule: inc_induct)
  case base
  with assms(2) show ?case by (subst wait_loop.simps) auto
next
  case (step k)
  have "(\<exists>i. k \<le> i \<and> i < n \<and> probe i) \<longleftrightarrow> probe k \<or> (\<exists>i. Suc k \<le> i \<and> i < n \<and> probe i)"
    using step.hyps by (metis Suc_le_eq le_eq_less_or_eq order_refl)
  with step assms(1) [of k] show ?case by (subst wait_loop.simps) auto
qed

text \<open>
  C35: Waiting for a server ends, after at most 49 probes, when the ticks come a tenth of a second apart
  or later: with success if one of the probes before the deadline succeeded, and with the error of
  a timeout otherwise.
\<close>

theorem waiting_ends:
  assumes "\<And>i. now + (int i + 1) * (100 * millisecond) \<le> tick i"
  shows "\<exists>n \<le> 49. (\<forall>i < n. tick i < now + 5 * second) \<and> now + 5 * second \<le> tick n
    \<and> wait_for_http_server now tick probe = Some (if \<exists>i < n. probe i then None else Some ''timed out'')
    \<and> wait_for_dns_server None now tick probe = Some (if \<exists>i < n. probe i then None else Some ''timed out'')"
proof -
  define n where "n = (LEAST i. now + 5 * second \<le> tick i)"
  have end49: "now + 5 * second \<le> tick 49" using assms [of 49] by simp
  have n: "now + 5 * second \<le> tick n" "n \<le> 49" unfolding n_def by (rule LeastI, rule end49) (rule Least_le, rule end49)
  have before: "tick i < now + 5 * second" if "i < n" for i
    using that not_less_Least [of i "\<lambda>i. now + 5 * second \<le> tick i"] by (auto simp: n_def)
  have "wait_loop tick probe (now + 5 * second) 0 = Some (if \<exists>i \<ge> 0. i < n \<and> probe i then None else Some ''timed out'')"
    by (rule wait_loop_result) (use before n in auto)
  with before n show ?thesis
    by (intro exI [of _ n]) (auto simp: wait_for_http_server_def wait_for_dns_server_def)
qed

text \<open>A server that answers from the third probe on, and one that never does.\<close>

theorem waiting_ends_witness:
  "wait_for_http_server 0 (\<lambda>i. (int i + 1) * 100000000) (\<lambda>i. 2 \<le> i) = Some None
   \<and> wait_for_dns_server None 0 (\<lambda>i. (int i + 1) * 100000000) (\<lambda>i. False) = Some (Some ''timed out'')"
proof -
  have t: "0 + (int i + 1) * (100 * 1000000) \<le> (int i + 1) * (100000000 :: int)" for i by simp
  from waiting_ends [OF t, of "\<lambda>i. 2 \<le> i"] obtain n where
      n: "(0::int) + 5 * 1000000000 \<le> (int n + 1) * 100000000"
        "wait_for_http_server 0 (\<lambda>i. (int i + 1) * 100000000) (\<lambda>i. 2 \<le> i) = Some (if \<exists>i < n. 2 \<le> i then None else Some ''timed out'')"
    by blast
  have "49 \<le> n" using n(1) by simp
  then have "\<exists>i < n. 2 \<le> i" by (intro exI [of _ 2]) simp
  with n(2) waiting_ends [OF t, of "\<lambda>i. False"] show ?thesis by auto
qed

end
