(* ===== verification/Spec2Isabelle.thy ===== *)
theory Spec2Isabelle
  imports Caching_Threads Dnstap_Properties Http_Site Net_Context Trace_Discipline
    Net_Durations Monitoring_Site Test_Support
begin

text \<open>
  A model of \<^verbatim>\<open>dnss\<close>, a daemon that carries DNS over HTTPS, with the theorems that make its parts
  correct. It runs one or both of two proxies: a DNS server that asks its upstream over HTTPS
  (\<^verbatim>\<open>internal/dnsserver\<close>, \<^verbatim>\<open>internal/httpresolver\<close>), and an HTTPS server that asks a DNS upstream
  (\<^verbatim>\<open>internal/httpserver\<close>). Both record what they do in request traces (\<^verbatim>\<open>internal/trace\<close>,
  \<^verbatim>\<open>internal/nettrace\<close>) and in counters (\<^verbatim>\<open>internal/stats\<close>), and the DNS server may export the messages it
  handles in the dnstap format (\<^verbatim>\<open>internal/dnstap\<close>).

  \<^bold>\<open>How the parts interact.\<close> \<open>main_start\<close> turns the flags into proxies. \<open>handler\<close>, for each DNS query,
  counts it, and either forwards it to an override for its domain, or to the upstream for
  unqualified names, or asks a \<open>resolver\<close>: the HTTPS resolver (\<open>https_query\<close>), with the cache in front
  of it or not (\<open>caching_query\<close>). \<open>resolve\<close> answers the requests of the HTTPS server. All of them run
  over a \<open>world\<close>, the state that is shared: the counters, and the list of the calls made on traces,
  each a \<open>trace_op\<close>. Performed on the trace store, these calls are the traces of the pages
  (\<open>render_page\<close>).

  \<^bold>\<open>The theories.\<close>

  \<^item> Go's library, as far as the program uses it: \<^verbatim>\<open>Prelude\<close> (machine integers, durations, instants, Go
    maps as association lists in the order of an iteration), \<^verbatim>\<open>Go_Text\<close> (strings), \<^verbatim>\<open>Go_Format\<close>
    (strconv, quoting, durations, JSON strings), \<^verbatim>\<open>Go_Sort\<close> (\<^verbatim>\<open>sort.Slice\<close> and its contract), \<^verbatim>\<open>Go_Net\<close>
    (addresses), \<^verbatim>\<open>Go_Base64\<close>, \<^verbatim>\<open>Go_Mime\<close>, \<^verbatim>\<open>Go_Mux\<close> (\<^verbatim>\<open>http.ServeMux\<close>),
    \<^verbatim>\<open>Go_Float\<close> (rounding). \<^verbatim>\<open>Dns_Msg\<close> has the messages of the DNS library.

  \<^item> \<^verbatim>\<open>Stats\<close>: \<^verbatim>\<open>internal/stats/stats.go\<close>. \<open>stats_state\<close> holds the counters and the number of queries for
    each domain; \<open>record_domain_query\<close>, \<open>top_domains\<close> and the reports. Shown: counts are exact, and the
    ranking is the sorted prefix whatever order Go iterates in.

  \<^item> \<^verbatim>\<open>Domain_Map\<close>: \<^verbatim>\<open>internal/dnsserver/domainmap.go\<close>. Parsing of the overrides and \<open>get_most_specific\<close>.
    Shown: it gives the matching domain with the most labels, in any order of iteration; parsing
    inverts writing, and fails exactly on a part without a colon.

  \<^item> \<^verbatim>\<open>Resolver\<close>: the interface \<^verbatim>\<open>dnsserver.Resolver\<close> as a locale; \<open>resolver_run\<close> interleaves queries and
    maintenance.

  \<^item> \<^verbatim>\<open>Caching_Resolver\<close>, \<^verbatim>\<open>Caching_Correct\<close>, \<^verbatim>\<open>Caching_Properties\<close>: the cache of
    \<^verbatim>\<open>internal/dnsserver/resolver.go\<close> over any resolver, on values. Shown: the cache is well-formed and
    bounded, its TTL arithmetic does not wrap, what each branch of a query returns and records, and
    that it implements a cache of absolute deadlines.

  \<^item> \<^verbatim>\<open>Caching_Heap\<close>, \<^verbatim>\<open>Caching_Threads\<close>: the same cache with its records on a heap, where answers share
    them, and any number of queries and of passes of the maintenance between whose critical sections
    others run (\<open>cache_step\<close>). Shown: what holds on values holds on the heap, an answer handed out
    never changes, and what is handed out came from the back resolver for that question.
    \<^verbatim>\<open>Caching_Dump\<close>: the page that dumps the cache. Shown: its text is that of every entry,
    once, the first to expire first.

  \<^item> \<^verbatim>\<open>Https_Resolver\<close>, \<^verbatim>\<open>Https_Correct\<close>, \<^verbatim>\<open>Https_Properties\<close>: \<^verbatim>\<open>internal/httpresolver/resolver.go\<close> over
    parameters for the network, the clock and the file system. Shown: exactly when a query and when
    the initialisation succeeds, and exactly when and how often the client is replaced. It
    interprets the locale \<open>resolver\<close>, alone and under the cache.

  \<^item> \<^verbatim>\<open>Dns_Server\<close>, \<^verbatim>\<open>Dns_Server_Properties\<close>, \<^verbatim>\<open>Server_Stack\<close>: \<^verbatim>\<open>internal/dnsserver/server.go\<close>. Shown: one
    reply for each query, from the right upstream, with the id of the query, cut to what the
    transport carries; what is captured for dnstap; over any quiet resolver it never panics and its
    counters add up.

  \<^item> \<^verbatim>\<open>Codec\<close>, \<^verbatim>\<open>Dnstap_Frame\<close>, \<^verbatim>\<open>Dnstap_Writer\<close>, \<^verbatim>\<open>Dnstap_Properties\<close>: \<^verbatim>\<open>internal/dnstap/dnstap.go\<close>. \<open>frame\<close>
    encodes a record, \<open>tap_step\<close> is the loop that exports the queue over a network that may fail at
    every write. Shown: what is written decodes to what was queued, in order and at most once, the
    queue is bounded, and on a network that works it empties.

  \<^item> \<^verbatim>\<open>Http_Server\<close>, \<^verbatim>\<open>Http_Server_Properties\<close>, \<^verbatim>\<open>Http_Site\<close>: \<^verbatim>\<open>internal/httpserver/server.go\<close>. Shown:
    which requests the server hands to its handler, that each of them gets the one response of a
    specification without state, and that GET and POST are equivalent.

  \<^item> \<^verbatim>\<open>Dnss_Trace\<close>: \<^verbatim>\<open>internal/trace/trace.go\<close>, the calls made on a trace. \<^verbatim>\<open>Net_Context\<close>:
    \<^verbatim>\<open>internal/nettrace/context.go\<close>.

  \<^item> \<^verbatim>\<open>Net_Rings\<close>, \<^verbatim>\<open>Net_Histogram\<close>, \<^verbatim>\<open>Net_Trace\<close>, \<^verbatim>\<open>Net_Trace_Events\<close>, \<^verbatim>\<open>Net_Store\<close>, \<^verbatim>\<open>Net_Lookup\<close>,
    \<^verbatim>\<open>Net_History\<close>: \<^verbatim>\<open>evtring.go\<close>, \<^verbatim>\<open>histogram.go\<close> and \<^verbatim>\<open>trace.go\<close> of \<^verbatim>\<open>internal/nettrace\<close>. The store has traces at
    addresses, refers to them from the families that keep them, and \<open>net_step\<close> is any use of it
    within its contract. Shown: what a trace keeps of its events, what the histogram counts, that
    every operation on an open trace succeeds in every reachable store, what a lookup finds, and what
    is kept of the finished traces, from the order in which they finished.

  \<^item> \<^verbatim>\<open>Net_Pages\<close>, \<^verbatim>\<open>Net_Pages_Properties\<close>, \<^verbatim>\<open>Net_Templates\<close>, \<^verbatim>\<open>Net_Style\<close>, \<^verbatim>\<open>Net_Durations\<close>, \<^verbatim>\<open>Net_Links\<close>:
    \<^verbatim>\<open>internal/nettrace/http.go\<close>, the data of the page, and the templates and the style sheet that show it. Shown: no request for the page panics, its
    status, its error and its data are those for the request and the traces that finished, the events of a trace are gathered through all
    references, which may be cyclic, each trace once, the templates render, the links of a page
    lead on, the colours are declared, and durations are shown to the nearest microsecond.

  \<^item> \<^verbatim>\<open>Trace_Sessions\<close>, \<^verbatim>\<open>Trace_Discipline\<close>: how the servers use the trace store. A session is the calls made on
    the trace of one request; \<open>perform\<close> makes a call on the store. Shown: the calls of the program are
    whole sessions, sessions in any interleaving are within the contract of the store and leave
    each other's traces alone, and a trace shows what was said of its request.

  \<^item> \<^verbatim>\<open>Dnss_Program\<close>, \<^verbatim>\<open>Dnss_Program_Properties\<close>: \<^verbatim>\<open>dnss.go\<close> and the two \<^verbatim>\<open>ListenAndServe\<close>. Shown: when the
    program serves and with which message it ends otherwise, that each setting of what it starts is the
    one of its flag, and that the proxy it starts is safe, with the cache and without.

  \<^item> \<^verbatim>\<open>Dnss_Monitoring\<close>, \<^verbatim>\<open>Monitoring_Page\<close>, \<^verbatim>\<open>Monitoring_Site\<close>: \<^verbatim>\<open>monitoring.go\<close>, and the handlers the packages
    register with it. Shown: registering them never conflicts, no request panics, and where the
    links of the index page lead, whatever the values on it are.

  \<^item> \<^verbatim>\<open>Test_Support\<close>: \<^verbatim>\<open>internal/testutil/testutil.go\<close>. Shown: waiting for a server ends, and the server is
    safe over the resolver of the tests as over that of the program.

  \<^bold>\<open>Conventions.\<close> A panic is \<open>None\<close>; an error is the left of a sum, with its text. Integers that wrap in
  the code are words; durations and instants are integers, and the lemmas say where they stay in
  int64. What Go leaves open (the order of a map, the order of equals in \<^verbatim>\<open>sort.Slice\<close>) is an
  association list, over whose orders the properties range, or an argument with its contract.
  Code that is not in the repository is an argument: the DNS library (\<open>dns_lib\<close>), the network, the
  clock and random numbers (\<open>request_env\<close>, \<open>http_env\<close>, \<open>net\<close>), the file system (\<open>files\<close>) and the
  execution of templates; what the properties need of them is a named hypothesis, and each
  witness shows one concrete instance.

  \<^bold>\<open>Fuel.\<close> One function has fuel, \<open>append_all_events\<close>: it is called with the number of traces of the
  store, which is enough since each nested call first enters an id that was not entered before
  (it is proved to give a result). The other loops are structural or have a
  termination proof, and the loops that run for ever are step relations.

  \<^bold>\<open>Not modelled.\<close> \<^verbatim>\<open>Time.Format\<close> and the shortest text of a \<^verbatim>\<open>float32\<close>, which are parameters of the templates;
  what is written to the log; the parsing of the command line; the accept loops of the servers of
  the libraries, which call the handlers. Floating-point numbers are modelled in the normal range.
  The functions of the DNS library return: a panic within it, as on a message that \<^verbatim>\<open>Truncate\<close> may refuse,
  is outside of the model.
\<close>

end
